(* ===== verification/Prelude.thy ===== *)
theory Prelude
  imports Main "HOL-Library.Multiset" "HOL-Library.AList"
begin

section \<open>Prelude: what the components share\<close>

text \<open>
  The conventions of the model and the lemmas every component uses.

  A Go \<open>map[string]T\<close> that is iterated is an association list with distinct keys; the
  order of the list is the (unspecified) iteration order of that map, and lookup, store and
  delete are \<open>map_of\<close>, \<open>AList.update\<close> and \<open>AList.delete\<close>. Go's \<open>int\<close>, \<open>int64\<close>
  and \<open>time.Duration\<close> (nanoseconds) are \<open>int\<close>: every value the program computes with them
  is bounded far below \<open>2^63\<close> (the bounds are theorems of the components). Points in time
  are nanoseconds of one monotone clock. A Go string is a \<open>string\<close>, the list of its bytes.
  A function that returns \<open>(T, error)\<close> returns a sum, \<open>Inl\<close> the error.

  Two collections steer the automation: \<open>frame\<close> holds the facts "this operation does not
  change that field", \<open>step_defs\<close> the definitions that a proof about a whole operation
  unfolds.
\<close>

named_theorems frame
named_theorems step_defs

type_synonym uid = string
type_synonym time = int
type_synonym duration = int

subsection \<open>Durations\<close>

definition millisecond :: duration where "millisecond = 1000000"
definition second :: duration where "second = 1000 * millisecond"
definition minute :: duration where "minute = 60 * second"

text \<open>Go's integer division truncates toward zero; \<open>Duration.Milliseconds\<close> is such a division.\<close>

definition trunc_div :: "int \<Rightarrow> int \<Rightarrow> int" where
  "trunc_div a b = (if a < 0 then - ((- a) div b) else a div b)"

definition to_ms :: "duration \<Rightarrow> int" where
  "to_ms d = trunc_div d millisecond"

lemma to_ms_nonneg: "0 \<le> d \<Longrightarrow> to_ms d = d div 1000000"
  by (simp add: to_ms_def trunc_div_def millisecond_def)

lemma to_ms_mono: "a \<le> b \<Longrightarrow> to_ms a \<le> to_ms b"
proof -
  assume ab: "a \<le> b"
  have "(- b) div 1000000 \<le> (- a) div 1000000" using ab by (intro zdiv_mono1) auto
  moreover have "a div 1000000 \<le> b div 1000000" using ab by (intro zdiv_mono1) auto
  moreover have "a < 0 \<Longrightarrow> 0 \<le> (- a) div 1000000" by simp
  moreover have "0 \<le> b \<Longrightarrow> 0 \<le> b div 1000000" by simp
  ultimately show ?thesis
    using ab by (auto simp: to_ms_def trunc_div_def millisecond_def)
qed

lemma to_ms_of_ms [simp]: "0 \<le> n \<Longrightarrow> to_ms (n * millisecond) = n"
  by (simp add: to_ms_nonneg millisecond_def)

subsection \<open>Association lists as Go maps\<close>

abbreviation keys :: "('k \<times> 'v) list \<Rightarrow> 'k list" where
  "keys m \<equiv> map fst m"

lemma map_of_Some_key: "map_of m k = Some v \<Longrightarrow> k \<in> set (keys m)"
  by (force dest: map_of_SomeD)

lemma map_of_None_key: "map_of m k = None \<longleftrightarrow> k \<notin> set (keys m)"
  by (auto simp: map_of_eq_None_iff)

lemma map_of_key_Some: "k \<in> set (keys m) \<Longrightarrow> \<exists>v. map_of m k = Some v"
  by (metis map_of_None_key not_Some_eq)

lemma map_of_update [simp]: "map_of (AList.update k v m) = (map_of m)(k \<mapsto> v)"
  by (rule update_conv')

lemma map_of_delete [simp]: "map_of (AList.delete k m) = (map_of m)(k := None)"
  by (rule delete_conv')

lemma keys_update_present: "k \<in> set (keys m) \<Longrightarrow> keys (AList.update k v m) = keys m"
  by (induction m) auto

lemma keys_update_absent: "k \<notin> set (keys m) \<Longrightarrow> AList.update k v m = m @ [(k, v)]"
  by (induction m) auto

lemma keys_delete: "keys (AList.delete k m) = filter (\<lambda>x. x \<noteq> k) (keys m)"
  by (induction m) auto

lemma map_of_mapped: "map_of (map (\<lambda>(k, v). (k, f k v)) m) k = map_option (f k) (map_of m k)"
  by (induction m) auto

lemma keys_mapped [simp]: "keys (map (\<lambda>(k, v). (k, f k v)) m) = keys m"
  by (induction m) auto

lemma distinct_keys_unique:
  "distinct (keys m) \<Longrightarrow> (k, v) \<in> set m \<Longrightarrow> map_of m k = Some v"
  by simp

subsection \<open>Lists\<close>

text \<open>
  \<open>rand.Shuffle\<close> of Go's standard library: Fisher-Yates from the last index down. A draw
  below \<open>i + 1\<close> is the generator's next number reduced modulo \<open>i + 1\<close>; the generator is a
  stream of numbers and the position in it.
\<close>

definition swap :: "nat \<Rightarrow> nat \<Rightarrow> 'a list \<Rightarrow> 'a list" where
  "swap i j xs = xs[i := xs ! j, j := xs ! i]"

fun shuffle_from :: "(nat \<Rightarrow> nat) \<Rightarrow> nat \<Rightarrow> nat \<Rightarrow> 'a list \<Rightarrow> 'a list \<times> nat" where
  "shuffle_from rng c 0 xs = (xs, c)"
| "shuffle_from rng c (Suc i) xs =
     shuffle_from rng (Suc c) i (swap (Suc i) (rng c mod (Suc (Suc i))) xs)"

definition shuffle :: "(nat \<Rightarrow> nat) \<Rightarrow> nat \<Rightarrow> 'a list \<Rightarrow> 'a list \<times> nat" where
  "shuffle rng c xs = shuffle_from rng c (length xs - 1) xs"

lemma length_swap [simp]: "length (swap i j xs) = length xs"
  by (simp add: swap_def)

lemma mset_swap': "i < length xs \<Longrightarrow> j < length xs \<Longrightarrow> mset (swap i j xs) = mset xs"
  unfolding swap_def by (rule mset_swap)

lemma mset_shuffle_from:
  "i < length xs \<or> i = 0 \<Longrightarrow> mset (fst (shuffle_from rng c i xs)) = mset xs"
proof (induction i arbitrary: xs c)
  case 0
  then show ?case by simp
next
  case (Suc i)
  have "rng c mod Suc (Suc i) < Suc (Suc i)" by simp
  then have "rng c mod Suc (Suc i) < length xs" using Suc.prems by linarith
  then have "mset (swap (Suc i) (rng c mod Suc (Suc i)) xs) = mset xs"
    using Suc.prems by (intro mset_swap') auto
  then show ?case using Suc by simp
qed

lemma mset_shuffle [simp]: "mset (fst (shuffle rng c xs)) = mset xs"
  unfolding shuffle_def by (rule mset_shuffle_from) (cases xs; simp)

lemma set_shuffle [simp]: "set (fst (shuffle rng c xs)) = set xs"
  by (metis mset_shuffle set_mset_mset)

lemma length_shuffle [simp]: "length (fst (shuffle rng c xs)) = length xs"
  by (metis mset_shuffle size_mset)

lemma distinct_shuffle [simp]: "distinct (fst (shuffle rng c xs)) = distinct xs"
  by (rule mset_eq_imp_distinct_iff) simp

lemma remove1_filter: "distinct xs \<Longrightarrow> remove1 x xs = filter (\<lambda>y. y \<noteq> x) xs"
  by (simp add: distinct_remove1_removeAll removeAll_filter_not_eq neq_commute)

lemma find_map_unique:
  "distinct (map f xs) \<Longrightarrow> x \<in> set xs \<Longrightarrow> find (\<lambda>y. f y = f x) xs = Some x"
  by (induction xs) auto

end
