(* ===== verification/Float64.thy ===== *)
theory Float64
  imports Complex_Main
begin

section \<open>float64: IEEE 754 double precision, round to nearest even\<close>

text \<open>
  Go's \<open>float64\<close> arithmetic rounds the exact result of each operation to the nearest number
  with a 53-bit significand, ties to the even significand. A \<open>float64\<close> is modelled as the
  rational number it denotes and each operation as the exact operation followed by \<open>fl\<close>.
  The exponent range is not bounded in the model: the program's values are zero or between
  \<open>2^-64\<close> and \<open>2^96\<close> in magnitude, so no operation overflows or is subnormal. Products
  are rounded before they are added (no fused multiply-add, as Go compiles for amd64).

  The file proves that \<open>fl\<close> is monotone, exact on integers up to \<open>2^53\<close>, and within a
  relative error of \<open>2^-53\<close>.
\<close>

subsection \<open>The rounding function\<close>

function bits :: "int \<Rightarrow> int" where
  "bits n = (if n \<le> 0 then 0 else 1 + bits (n div 2))"
  by pat_completeness auto
termination
  by (relation "measure nat") auto

declare bits.simps [simp del]

text \<open>The exponent \<open>e\<close> of a positive rational: \<open>2^e \<le> x < 2^(e + 1)\<close>.\<close>

definition expo :: "rat \<Rightarrow> int" where
  "expo x = (let (p, q) = quotient_of x; e = bits p - bits q
             in if 2 powi e \<le> x then e else e - 1)"

text \<open>Round half to even, on rationals.\<close>

definition rne :: "rat \<Rightarrow> int" where
  "rne y = (let f = \<lfloor>y\<rfloor>; d = y - of_int f
            in if d < 1 / 2 then f else if 1 / 2 < d then f + 1
               else if even f then f else f + 1)"

definition fl_pos :: "rat \<Rightarrow> rat" where
  "fl_pos x = (let u = 2 powi (expo x - 52) in of_int (rne (x / u)) * u)"

definition fl :: "rat \<Rightarrow> rat" where
  "fl x = (if x = 0 then 0 else if 0 < x then fl_pos x else - fl_pos (- x))"

text \<open>Conversions of the language: \<open>float64(i)\<close>, and \<open>int(x)\<close>, which truncates.\<close>

definition float_of_int :: "int \<Rightarrow> rat" where
  "float_of_int i = fl (of_int i)"

definition int_of_float :: "rat \<Rightarrow> int" where
  "int_of_float x = (if x < 0 then - \<lfloor>- x\<rfloor> else \<lfloor>x\<rfloor>)"

text \<open>\<open>math.Round\<close>: half away from zero.\<close>

definition math_Round :: "rat \<Rightarrow> rat" where
  "math_Round x = (if x < 0 then - of_int \<lfloor>- x + 1 / 2\<rfloor> else of_int \<lfloor>x + 1 / 2\<rfloor>)"

subsection \<open>Rounding to an integer\<close>

lemma rne_of_int [simp]: "rne (of_int n) = n"
  by (simp add: rne_def)

lemma rne_floor: "rne y = \<lfloor>y\<rfloor> \<or> rne y = \<lfloor>y\<rfloor> + 1"
  by (auto simp: rne_def Let_def)

lemma rne_error: "\<bar>of_int (rne y) - y\<bar> \<le> 1 / 2"
proof -
  have "of_int \<lfloor>y\<rfloor> \<le> y" "y < of_int \<lfloor>y\<rfloor> + 1" by linarith+
  then show ?thesis by (auto simp: rne_def Let_def abs_le_iff)
qed

lemma rne_mono: "x \<le> y \<Longrightarrow> rne x \<le> rne y"
proof -
  assume xy: "x \<le> y"
  have f: "\<lfloor>x\<rfloor> \<le> \<lfloor>y\<rfloor>" using xy by (rule floor_mono)
  show ?thesis
  proof (cases "\<lfloor>x\<rfloor> = \<lfloor>y\<rfloor>")
    case True
    then show ?thesis using xy by (auto simp: rne_def Let_def)
  next
    case False
    then have "\<lfloor>x\<rfloor> + 1 \<le> \<lfloor>y\<rfloor>" using f by linarith
    moreover have "rne x \<le> \<lfloor>x\<rfloor> + 1" "\<lfloor>y\<rfloor> \<le> rne y"
      using rne_floor[of x] rne_floor[of y] by auto
    ultimately show ?thesis by linarith
  qed
qed

subsection \<open>The exponent\<close>

lemma bits_bounds: "0 < n \<Longrightarrow> 0 < bits n \<and> 2 ^ nat (bits n - 1) \<le> n \<and> n < 2 ^ nat (bits n)"
proof (induction n rule: bits.induct)
  case (1 n)
  have b: "bits n = 1 + bits (n div 2)" using 1 by (subst bits.simps) simp
  show ?case
  proof (cases "n div 2 = 0")
    case True
    then have "n = 1" using 1 by auto
    then show ?thesis by (simp add: bits.simps)
  next
    case False
    then have IH: "0 < bits (n div 2)" "2 ^ nat (bits (n div 2) - 1) \<le> n div 2"
      "n div 2 < 2 ^ nat (bits (n div 2))" using 1 by auto
    define k where "k = nat (bits (n div 2) - 1)"
    have k: "nat (bits (n div 2)) = Suc k" "nat (bits n - 1) = Suc k" "nat (bits n) = Suc (Suc k)"
      using IH(1) b by (auto simp: k_def nat_add_distrib)
    have "2 * 2 ^ k \<le> n" using IH(2) unfolding k_def[symmetric] by linarith
    moreover have "n < 2 * 2 ^ Suc k" using IH(3) unfolding k(1) by linarith
    ultimately show ?thesis unfolding k(2,3) using IH(1) b by simp
  qed
qed

lemma quotient_pos:
  assumes "0 < x" "quotient_of x = (p, q)"
  shows "0 < p" "0 < q" "x = of_int p / of_int q"
proof -
  show q: "0 < q" using assms(2) quotient_of_denom_pos by blast
  show x: "x = of_int p / of_int q" using assms(2) quotient_of_div by blast
  show "0 < p" using assms(1) q unfolding x by (simp add: zero_less_divide_iff)
qed

lemma bits_rat:
  assumes "0 < p"
  shows "2 powi (bits p - 1) \<le> (of_int p :: rat)"
    and "(of_int p :: rat) < 2 powi bits p"
proof -
  have n: "0 < bits p" "2 ^ nat (bits p - 1) \<le> p" "p < 2 ^ nat (bits p)"
    using bits_bounds[OF assms] by auto
  have pw: "2 powi i = (of_int (2 ^ nat i) :: rat)" if "0 \<le> i" for i
    using that by (simp add: power_int_def)
  show "2 powi (bits p - 1) \<le> (of_int p :: rat)"
    using n(1,2) by (simp only: pw of_int_le_iff)
  show "(of_int p :: rat) < 2 powi bits p"
    using n(1,3) by (simp only: pw of_int_less_iff less_imp_le)
qed

lemma expo_bounds:
  assumes "0 < x"
  shows "2 powi expo x \<le> x" "x < 2 powi (expo x + 1)"
proof -
  obtain p q where pq: "quotient_of x = (p, q)" by (cases "quotient_of x")
  note P = quotient_pos[OF assms pq]
  let ?a = "bits p" and ?b = "bits q"
  have up: "x < 2 powi (?a - ?b + 1)"
  proof -
    have "(of_int p :: rat) < 2 powi ?a" by (rule bits_rat) (rule P)
    moreover have "2 powi (?b - 1) \<le> (of_int q :: rat)" by (rule bits_rat) (rule P)
    ultimately have "of_int p / of_int q < (2 powi ?a / 2 powi (?b - 1) :: rat)"
      using P by (intro frac_less) auto
    also have "\<dots> = 2 powi (?a - ?b + 1)" by (simp add: power_int_diff power_int_add add.commute [of 1])
    finally show ?thesis using P(3) by simp
  qed
  have lo: "2 powi (?a - ?b - 1) \<le> x"
  proof -
    have "2 powi (?a - 1) \<le> (of_int p :: rat)" by (rule bits_rat) (rule P)
    moreover have "(of_int q :: rat) < 2 powi ?b" by (rule bits_rat) (rule P)
    ultimately have "(2 powi (?a - 1) / 2 powi ?b :: rat) \<le> of_int p / of_int q"
      using P by (intro frac_le) auto
    moreover have "(2 powi (?a - 1) / 2 powi ?b :: rat) = 2 powi (?a - ?b - 1)"
      by (simp add: power_int_diff)
    ultimately show ?thesis using P(3) by simp
  qed
  have "expo x = (if 2 powi (?a - ?b) \<le> x then ?a - ?b else ?a - ?b - 1)"
    by (simp add: expo_def pq Let_def)
  then show "2 powi expo x \<le> x" "x < 2 powi (expo x + 1)" using up lo by (auto split: if_splits)
qed

lemma powi_mono2: "a \<le> b \<Longrightarrow> (2 :: rat) powi a \<le> 2 powi b"
  by (rule power_int_increasing) auto

lemma powi_less_imp: "(2 :: rat) powi a < 2 powi b \<Longrightarrow> a < b"
  by (metis linorder_not_le powi_mono2)

lemma expo_unique: "2 powi e \<le> x \<Longrightarrow> x < 2 powi (e + 1) \<Longrightarrow> expo x = e"
proof -
  assume a: "2 powi e \<le> x" "x < 2 powi (e + 1)"
  have "(0 :: rat) < 2 powi e" by simp
  then have x: "0 < x" using a(1) by (rule order_less_le_trans)
  note E = expo_bounds[OF x]
  have "2 powi e < (2 :: rat) powi (expo x + 1)" using a(1) E(2) by (rule order_le_less_trans)
  moreover have "2 powi expo x < (2 :: rat) powi (e + 1)" using E(1) a(2) by (rule order_le_less_trans)
  ultimately show "expo x = e" by (auto dest!: powi_less_imp)
qed

subsection \<open>Properties of the rounding\<close>

lemma fl_pos_bounds:
  assumes "0 < x"
  shows "2 powi expo x \<le> fl_pos x" "fl_pos x \<le> 2 powi (expo x + 1)"
proof -
  let ?u = "2 powi (expo x - 52) :: rat"
  have u: "0 < ?u" by simp
  have e: "2 powi expo x = of_int (2 ^ 52) * ?u" "2 powi (expo x + 1) = of_int (2 ^ 53) * ?u"
    by (simp_all add: power_int_diff power_int_add)
  have lo: "of_int (2 ^ 52) \<le> x / ?u"
    using expo_bounds(1)[OF assms] u by (simp only: e pos_le_divide_eq)
  have hi: "x / ?u \<le> of_int (2 ^ 53)"
    using expo_bounds(2)[OF assms] u by (simp only: e pos_divide_le_eq less_imp_le)
  have "2 ^ 52 \<le> rne (x / ?u)" "rne (x / ?u) \<le> 2 ^ 53"
    using rne_mono[OF lo] rne_mono[OF hi] by (simp_all only: rne_of_int)
  then have "(of_int (2 ^ 52) :: rat) \<le> of_int (rne (x / ?u))"
    "of_int (rne (x / ?u)) \<le> (of_int (2 ^ 53) :: rat)" by (simp_all only: of_int_le_iff)
  then show "2 powi expo x \<le> fl_pos x" "fl_pos x \<le> 2 powi (expo x + 1)"
    unfolding fl_pos_def Let_def e using u by (simp_all only: mult_right_mono less_imp_le)
qed

lemma fl_pos_positive: "0 < x \<Longrightarrow> 0 < fl_pos x"
  using fl_pos_bounds(1)[of x] by (rule order_less_le_trans [rotated]) auto

lemma fl_pos_mono:
  assumes "0 < x" "x \<le> y"
  shows "fl_pos x \<le> fl_pos y"
proof (cases "expo x = expo y")
  case True
  let ?u = "2 powi (expo y - 52) :: rat"
  have "x / ?u \<le> y / ?u" using assms(2) by (simp add: divide_right_mono)
  then have "rne (x / ?u) \<le> rne (y / ?u)" by (rule rne_mono)
  then show ?thesis by (simp add: fl_pos_def Let_def True mult_right_mono)
next
  case False
  have y: "0 < y" using assms by simp
  have "2 powi expo x < (2 :: rat) powi (expo y + 1)"
    using expo_bounds(1)[OF assms(1)] expo_bounds(2)[OF y] assms(2) by linarith
  then have "expo x + 1 \<le> expo y" using False by (auto dest: powi_less_imp)
  then have "2 powi (expo x + 1) \<le> (2 :: rat) powi expo y" by (rule powi_mono2)
  then show ?thesis
    using fl_pos_bounds(2)[OF assms(1)] fl_pos_bounds(1)[OF y] by linarith
qed

lemma fl_pos_error:
  assumes "0 < x"
  shows "\<bar>fl_pos x - x\<bar> \<le> x / 2 ^ 53"
proof -
  let ?u = "2 powi (expo x - 52) :: rat"
  have u: "0 < ?u" by simp
  have "fl_pos x - x = (of_int (rne (x / ?u)) - x / ?u) * ?u"
    using u by (simp add: fl_pos_def Let_def left_diff_distrib)
  then have "\<bar>fl_pos x - x\<bar> \<le> 1 / 2 * ?u"
    using rne_error[of "x / ?u"] u by (simp only: abs_mult abs_of_pos mult_right_mono less_imp_le)
  also have "1 / 2 * ?u = 2 powi expo x / 2 ^ 53" by (simp add: power_int_diff)
  also have "\<dots> \<le> x / 2 ^ 53" using expo_bounds(1)[OF assms] by (simp add: divide_right_mono)
  finally show ?thesis .
qed

text \<open>A significand of at most 53 bits is represented exactly.\<close>

lemma fl_pos_exact:
  assumes "0 < m" "m < 2 ^ 53"
  shows "fl_pos (of_int m * 2 powi k) = of_int m * 2 powi k"
proof -
  let ?x = "of_int m * 2 powi k :: rat"
  have x: "0 < ?x" using assms by simp
  have "2 powi expo ?x \<le> ?x" using expo_bounds(1)[OF x] .
  also have "?x < of_int (2 ^ 53) * 2 powi k"
    using assms by (intro mult_strict_right_mono) (simp_all only: of_int_less_iff zero_less_power_int zero_less_numeral)
  also have "\<dots> = 2 powi (k + 53)" by (simp add: power_int_add)
  finally have "expo ?x \<le> k + 52" by (auto dest!: powi_less_imp)
  then obtain j where j: "k = expo ?x - 52 + int j" by (metis add.commute diff_add_cancel zle_iff_zadd diff_le_eq)
  define u :: rat where "u = 2 powi (expo ?x - 52)"
  have u: "0 < u" by (simp add: u_def)
  have kj: "(2 :: rat) powi k = 2 ^ j * u"
    using arg_cong[OF j, of "\<lambda>i. (2 :: rat) powi i"] by (simp add: power_int_add u_def mult.commute)
  have "?x / u = of_int (m * 2 ^ j)" using u by (simp add: kj)
  then have "fl_pos ?x = of_int (m * 2 ^ j) * u"
    by (simp only: fl_pos_def Let_def rne_of_int flip: u_def)
  also have "\<dots> = ?x" by (simp add: kj)
  finally show ?thesis .
qed

lemma fl_zero [simp]: "fl 0 = 0"
  by (simp add: fl_def)

lemma fl_uminus: "fl (- x) = - fl x"
  by (auto simp: fl_def)

lemma fl_nonneg: "0 \<le> x \<Longrightarrow> 0 \<le> fl x"
  by (auto simp: fl_def intro!: less_imp_le fl_pos_positive)

lemma fl_mono: "x \<le> y \<Longrightarrow> fl x \<le> fl y"
proof -
  assume xy: "x \<le> y"
  consider "0 < x" | "x \<le> 0" "0 \<le> y" | "y < 0" by linarith
  then show ?thesis
  proof cases
    case 1
    then show ?thesis using xy by (simp add: fl_def fl_pos_mono)
  next
    case 2
    then have "0 \<le> fl y" "0 \<le> fl (- x)" by (auto intro: fl_nonneg)
    then show ?thesis by (simp add: fl_uminus)
  next
    case 3
    then show ?thesis using xy by (simp add: fl_def fl_pos_mono)
  qed
qed

lemma fl_error: "\<bar>fl x - x\<bar> \<le> \<bar>x\<bar> / 2 ^ 53"
proof -
  consider "x = 0" | "0 < x" | "x < 0" by linarith
  then show ?thesis
  proof cases
    case 2
    then show ?thesis using fl_pos_error[of x] by (simp add: fl_def)
  next
    case 3
    then show ?thesis using fl_pos_error[of "- x"] by (simp add: fl_def)
  qed simp
qed

lemma fl_scaled_int:
  assumes "\<bar>m\<bar> < 2 ^ 53"
  shows "fl (of_int m * 2 powi k) = of_int m * 2 powi k"
proof -
  consider "m = 0" | "0 < m" | "m < 0" by linarith
  then show ?thesis
  proof cases
    case 2
    then show ?thesis using fl_pos_exact[of m k] assms by (simp add: fl_def)
  next
    case 3
    then have "fl_pos (of_int (- m) * 2 powi k) = of_int (- m) * 2 powi k"
      using assms by (intro fl_pos_exact) auto
    moreover have "0 < (of_int (- m) * 2 powi k :: rat)" using 3 by (simp add: mult_neg_pos)
    ultimately have "fl (of_int (- m) * 2 powi k) = of_int (- m) * 2 powi k"
      by (simp only: fl_def if_True if_False order_less_imp_not_eq2)
    then show ?thesis using fl_uminus[of "of_int m * 2 powi k"] by simp
  qed simp
qed

lemma fl_of_int: "\<bar>m\<bar> < 2 ^ 53 \<Longrightarrow> fl (of_int m) = of_int m"
  using fl_scaled_int[of m 0] by simp

lemma float_of_int_exact: "\<bar>m\<bar> < 2 ^ 53 \<Longrightarrow> float_of_int m = of_int m"
  by (simp add: float_of_int_def fl_of_int)

lemma fl_le_int: "x \<le> of_int m \<Longrightarrow> \<bar>m\<bar> < 2 ^ 53 \<Longrightarrow> fl x \<le> of_int m"
  using fl_mono[of x "of_int m"] by (simp add: fl_of_int)

lemma fl_ge_int: "of_int m \<le> x \<Longrightarrow> \<bar>m\<bar> < 2 ^ 53 \<Longrightarrow> of_int m \<le> fl x"
  using fl_mono[of "of_int m" x] by (simp add: fl_of_int)

lemma fl_one [simp]: "fl 1 = 1"
  using fl_of_int[of 1] by simp

lemma fl_le_one: "x \<le> 1 \<Longrightarrow> fl x \<le> 1"
  using fl_mono[of x 1] by simp

lemma fl_error_bound: "\<bar>x\<bar> \<le> c \<Longrightarrow> \<bar>fl x - x\<bar> \<le> c / 2 ^ 53"
  using fl_error[of x] by (rule order_trans) (simp add: divide_right_mono)

subsection \<open>Rounding to an integer the way Go does\<close>

text \<open>\<open>int(math.Round(x))\<close>.\<close>

definition round_int :: "rat \<Rightarrow> int" where
  "round_int x = int_of_float (math_Round x)"

lemma round_int_nonneg: "0 \<le> x \<Longrightarrow> round_int x = \<lfloor>x + 1 / 2\<rfloor>"
proof -
  assume "0 \<le> x"
  moreover then have "0 \<le> \<lfloor>x + 1 / 2\<rfloor>" by simp
  ultimately show ?thesis by (simp add: round_int_def math_Round_def int_of_float_def)
qed

lemma round_int_of_int [simp]: "0 \<le> n \<Longrightarrow> round_int (of_int n) = n"
  by (subst round_int_nonneg) (auto intro!: floor_unique)

lemma round_int_mono: "0 \<le> x \<Longrightarrow> x \<le> y \<Longrightarrow> round_int x \<le> round_int y"
  by (simp add: round_int_nonneg floor_mono)

text \<open>Two numbers closer to each other than to the nearest half-integer round alike.\<close>

lemma round_int_close:
  assumes "0 \<le> x" "0 \<le> y" "\<bar>x - y\<bar> < d"
    and far: "\<And>k :: int. d \<le> \<bar>y - (of_int k + 1 / 2)\<bar>"
  shows "round_int x = round_int y"
proof -
  let ?k = "\<lfloor>y + 1 / 2\<rfloor>"
  have k: "of_int ?k \<le> y + 1 / 2" "y + 1 / 2 < of_int ?k + 1" by linarith+
  have "d \<le> \<bar>y - (of_int (?k - 1) + 1 / 2)\<bar>" "d \<le> \<bar>y - (of_int ?k + 1 / 2)\<bar>" by (rule far)+
  then have "d \<le> y + 1 / 2 - of_int ?k" "d \<le> of_int ?k + 1 / 2 - y" using k by auto
  then have "of_int ?k \<le> x + 1 / 2" "x + 1 / 2 < of_int ?k + 1" using assms(3) by linarith+
  then have "\<lfloor>x + 1 / 2\<rfloor> = ?k" by (rule floor_unique)
  then show ?thesis using assms by (simp add: round_int_nonneg)
qed

end
