(* ===== verification/Scoring.thy ===== *)
theory Scoring
  imports Prelude Float64
begin

section \<open>Scoring: api/internal/game/scoring.go\<close>

text \<open>
  The points of one answer, in \<open>float64\<close> arithmetic as the code computes them, and the
  timer of a question. \<open>Score_exact\<close> is the documented formula in exact arithmetic; the
  lemmas compare the two and bound, order and evaluate the points.
\<close>

subsection \<open>The code\<close>

definition networkGraceMs :: int where "networkGraceMs = 1000"
definition streakBonus :: int where "streakBonus = 50"
definition maxStreakBonus :: int where "maxStreakBonus = 250"
definition speedShare :: rat where "speedShare = 2 / 5"
definition readingGraceMs :: int where "readingGraceMs = 2000"
definition readingGraceSDMs :: int where "readingGraceSDMs = 3000"
definition smallSchoolTimer :: rat where "smallSchoolTimer = 5 / 4"
definition jenjangSD :: string where "jenjangSD = ''SD''"

text \<open>A missing key of a Go map reads as the zero value.\<close>

definition basePoints :: "int \<Rightarrow> rat" where
  "basePoints level = (if level = 1 then 500 else if level = 2 then 750
                       else if level = 3 then 1000 else 0)"

definition timerByLevel :: "int \<Rightarrow> duration" where
  "timerByLevel level = (if level = 1 then 15 * second else if level = 2 then 20 * second
                         else if level = 3 then 25 * second else 0)"

record score_input =
  in_level :: int
  in_correct :: bool
  in_responseMs :: int
  in_limitMs :: int
  in_graceMs :: int
  in_streakBefore :: int
  in_accuracyMode :: bool

definition speedFactor :: "score_input \<Rightarrow> rat" where
  "speedFactor i =
     (if in_accuracyMode i \<or> in_limitMs i \<le> in_graceMs i then 1
      else let responseMs = min (in_responseMs i) (in_limitMs i);
               effectiveMs = max 0 (responseMs - in_graceMs i)
           in fl (1 - fl (float_of_int effectiveMs / float_of_int (in_limitMs i - in_graceMs i))))"

text \<open>The constants \<open>1 - speedShare\<close> and \<open>speedShare\<close> are exact until they meet a \<open>float64\<close>.\<close>

definition points_float :: "score_input \<Rightarrow> rat" where
  "points_float i = fl (basePoints (in_level i) *
     fl (fl (1 - speedShare) + fl (fl speedShare * speedFactor i)))"

definition Score :: "score_input \<Rightarrow> int" where
  "Score i =
     (if \<not> in_correct i \<or> in_responseMs i > in_limitMs i + networkGraceMs then 0
      else let points = round_int (points_float i)
           in points + min (streakBonus * in_streakBefore i) maxStreakBonus)"

definition questionLimit :: "int \<Rightarrow> string \<Rightarrow> duration" where
  "questionLimit level jenjang =
     (let limit = timerByLevel level
      in if jenjang = jenjangSD then int_of_float (fl (float_of_int limit * smallSchoolTimer))
         else limit)"

definition readingGrace :: "string \<Rightarrow> int" where
  "readingGrace jenjang = (if jenjang = jenjangSD then readingGraceSDMs else readingGraceMs)"

subsection \<open>The documented formula in exact arithmetic\<close>

definition speed_exact :: "score_input \<Rightarrow> rat" where
  "speed_exact i =
     (if in_accuracyMode i \<or> in_limitMs i \<le> in_graceMs i then 1
      else 1 - of_int (max 0 (min (in_responseMs i) (in_limitMs i) - in_graceMs i))
               / of_int (in_limitMs i - in_graceMs i))"

definition points_exact :: "score_input \<Rightarrow> rat" where
  "points_exact i = basePoints (in_level i) * (3 / 5 + 2 / 5 * speed_exact i)"

definition Score_exact :: "score_input \<Rightarrow> int" where
  "Score_exact i =
     (if \<not> in_correct i \<or> in_responseMs i > in_limitMs i + networkGraceMs then 0
      else round_int (points_exact i) + min (streakBonus * in_streakBefore i) maxStreakBonus)"

lemmas score_consts = networkGraceMs_def streakBonus_def maxStreakBonus_def speedShare_def
  readingGraceMs_def readingGraceSDMs_def smallSchoolTimer_def jenjangSD_def

subsection \<open>The constants as doubles\<close>

lemma basePoints_int: "\<exists>n. basePoints l = of_int n \<and> 0 \<le> n \<and> n \<le> 1000"
  by (auto simp: basePoints_def intro: exI[of _ 500] exI[of _ 750] exI[of _ 1000] exI[of _ 0])

lemma basePoints_nonneg: "0 \<le> basePoints l"
  by (simp add: basePoints_def)

lemma basePoints_le: "basePoints l \<le> 1000"
  by (simp add: basePoints_def)

text \<open>\<open>float64(0.6)\<close> is below 0.6 and \<open>float64(0.4)\<close> above 0.4; their sum rounds to 1.\<close>

lemma fl_two_fifths: "fl (2 / 5) = 3602879701896397 / 9007199254740992"
  by code_simp

lemma fl_three_fifths: "fl (3 / 5) = 5404319552844595 / 9007199254740992"
  by code_simp

lemma fl_of_fl_two_fifths: "fl (fl (2 / 5)) = fl (2 / 5)"
  unfolding fl_two_fifths by code_simp

lemma fl_shares_sum: "fl (fl (3 / 5) + fl (2 / 5)) = 1"
  unfolding fl_two_fifths fl_three_fifths by code_simp

subsection \<open>The speed factor lies between 0 and 1 and falls with time\<close>

lemma quotient_unit:
  "0 \<le> e \<Longrightarrow> e \<le> d \<Longrightarrow> 0 < d \<Longrightarrow>
   0 \<le> fl (float_of_int e / float_of_int d) \<and> fl (float_of_int e / float_of_int d) \<le> 1"
proof -
  assume a: "0 \<le> e" "e \<le> d" "0 < d"
  have d: "0 < float_of_int d"
    using a by (simp add: float_of_int_def fl_def fl_pos_positive)
  have "float_of_int e \<le> float_of_int d" using a by (simp add: float_of_int_def fl_mono)
  moreover have "0 \<le> float_of_int e" using a by (simp add: float_of_int_def fl_nonneg)
  ultimately have "0 \<le> float_of_int e / float_of_int d" "float_of_int e / float_of_int d \<le> 1"
    using d by (simp_all add: divide_le_eq)
  then show ?thesis by (auto intro: fl_nonneg fl_le_one)
qed

lemma speedFactor_unit: "0 \<le> speedFactor i \<and> speedFactor i \<le> 1"
proof (cases "in_accuracyMode i \<or> in_limitMs i \<le> in_graceMs i")
  case False
  let ?e = "max 0 (min (in_responseMs i) (in_limitMs i) - in_graceMs i)"
  let ?q = "fl (float_of_int ?e / float_of_int (in_limitMs i - in_graceMs i))"
  have "0 \<le> ?q \<and> ?q \<le> 1" using False by (intro quotient_unit) auto
  then have "0 \<le> fl (1 - ?q)" "fl (1 - ?q) \<le> 1" by (auto intro: fl_nonneg fl_le_one)
  then show ?thesis using False by (simp add: speedFactor_def Let_def)
qed (auto simp: speedFactor_def)

lemma speedFactor_antimono:
  assumes "r \<le> r'"
  shows "speedFactor (i\<lparr>in_responseMs := r'\<rparr>) \<le> speedFactor (i\<lparr>in_responseMs := r\<rparr>)"
proof -
  let ?d = "in_limitMs i - in_graceMs i"
  let ?e = "\<lambda>r. max 0 (min r (in_limitMs i) - in_graceMs i)"
  have "?e r \<le> ?e r'" using assms by auto
  then have e: "float_of_int (?e r) \<le> float_of_int (?e r')" by (simp add: float_of_int_def fl_mono)
  have "0 \<le> float_of_int ?d" if "in_graceMs i < in_limitMs i"
    using that by (simp add: float_of_int_def fl_nonneg)
  then show ?thesis using e by (auto simp: speedFactor_def Let_def intro!: fl_mono divide_right_mono)
qed

lemma speedFactor_one_in_grace:
  "in_responseMs i \<le> in_graceMs i \<Longrightarrow> speedFactor i = 1"
  by (auto simp: speedFactor_def Let_def float_of_int_def max_def min_def)

subsection \<open>The points before the bonus\<close>

lemma points_float_mono:
  assumes "basePoints (in_level i) = basePoints (in_level j)" "speedFactor i \<le> speedFactor j"
  shows "points_float i \<le> points_float j"
proof -
  have "0 \<le> fl speedShare" by (simp add: speedShare_def fl_two_fifths)
  then have "fl (fl speedShare * speedFactor i) \<le> fl (fl speedShare * speedFactor j)"
    using assms(2) by (intro fl_mono mult_left_mono) auto
  then have "fl (fl (1 - speedShare) + fl (fl speedShare * speedFactor i))
      \<le> fl (fl (1 - speedShare) + fl (fl speedShare * speedFactor j))"
    by (rule fl_mono [OF add_left_mono])
  then show ?thesis unfolding points_float_def assms(1)
    by (rule fl_mono [OF mult_left_mono [OF _ basePoints_nonneg]])
qed

lemma points_float_full: "speedFactor i = 1 \<Longrightarrow> points_float i = basePoints (in_level i)"
proof -
  assume "speedFactor i = 1"
  then have "points_float i = fl (basePoints (in_level i))"
    by (simp add: points_float_def speedShare_def fl_of_fl_two_fifths fl_shares_sum)
  then show ?thesis using basePoints_int[of "in_level i"] fl_of_int by fastforce
qed

lemma points_float_floor:
  assumes "in_level i \<in> {1, 2, 3}"
  shows "basePoints (in_level i) * 3 / 5 \<le> of_int (round_int (points_float i))"
proof -
  let ?z = "fl (basePoints (in_level i) * fl (fl (3 / 5) + fl (fl (2 / 5) * 0)))"
  have "0 \<le> fl (fl (2 / 5) * speedFactor i)"
    using speedFactor_unit[of i] by (intro fl_nonneg mult_nonneg_nonneg) auto
  then have "?z \<le> points_float i"
    unfolding points_float_def
    by (auto simp: speedShare_def intro!: fl_mono mult_left_mono basePoints_nonneg)
  moreover have "0 \<le> ?z"
    by (intro fl_nonneg mult_nonneg_nonneg basePoints_nonneg) (simp add: fl_nonneg)
  ultimately have "round_int ?z \<le> round_int (points_float i)" by (intro round_int_mono)
  moreover have "round_int (fl (500 * fl (fl (3 / 5) + fl (fl (2 / 5) * 0)))) = 300"
    "round_int (fl (750 * fl (fl (3 / 5) + fl (fl (2 / 5) * 0)))) = 450"
    "round_int (fl (1000 * fl (fl (3 / 5) + fl (fl (2 / 5) * 0)))) = 600"
    by code_simp+
  ultimately show ?thesis using assms by (auto simp: basePoints_def)
qed

lemma points_float_ceiling: "points_float i \<le> basePoints (in_level i)"
proof -
  have "points_float i \<le> points_float (i\<lparr>in_accuracyMode := True\<rparr>)"
    using speedFactor_unit[of i] by (intro points_float_mono) (auto simp: speedFactor_def)
  also have "\<dots> = basePoints (in_level i)"
    by (subst points_float_full) (auto simp: speedFactor_def)
  finally show ?thesis .
qed

lemma points_float_nonneg: "0 \<le> points_float i"
proof -
  have "0 \<le> fl (1 - speedShare)" "0 \<le> fl speedShare" by (auto simp: speedShare_def intro!: fl_nonneg)
  then show ?thesis using speedFactor_unit[of i]
    by (auto simp: points_float_def intro!: fl_nonneg mult_nonneg_nonneg add_nonneg_nonneg basePoints_nonneg)
qed

lemma round_points_bounds:
  "0 \<le> round_int (points_float i) \<and> round_int (points_float i) \<le> 1000"
proof -
  have "points_float i \<le> of_int 1000"
    using points_float_ceiling[of i] basePoints_le[of "in_level i"] by simp
  then have "round_int (points_float i) \<le> round_int (of_int 1000)"
    using points_float_nonneg by (intro round_int_mono)
  moreover have "round_int (of_int 0) \<le> round_int (points_float i)"
    using points_float_nonneg by (intro round_int_mono) auto
  ultimately show ?thesis by (simp only: round_int_of_int)
qed

subsection \<open>Floating point against the exact formula\<close>

lemma speedFactor_error:
  assumes "in_limitMs i - in_graceMs i < 2 ^ 53"
  shows "\<bar>speedFactor i - speed_exact i\<bar> \<le> 2 / 2 ^ 53"
proof (cases "in_accuracyMode i \<or> in_limitMs i \<le> in_graceMs i")
  case False
  let ?e = "max 0 (min (in_responseMs i) (in_limitMs i) - in_graceMs i)"
  let ?d = "in_limitMs i - in_graceMs i"
  let ?x = "of_int ?e / of_int ?d :: rat"
  have ed: "0 \<le> ?e" "?e \<le> ?d" "0 < ?d" using False by auto
  have x: "0 \<le> ?x" "?x \<le> 1" using ed by (auto simp: divide_le_eq simp del: of_int_diff of_int_max)
  have f: "float_of_int ?e = of_int ?e" "float_of_int ?d = of_int ?d"
    using ed assms by (intro float_of_int_exact; linarith)+
  have q: "\<bar>fl ?x - ?x\<bar> \<le> 1 / 2 ^ 53" using x by (intro fl_error_bound) auto
  have "0 \<le> fl ?x" "fl ?x \<le> 1" using x by (auto intro: fl_nonneg fl_le_one)
  then have "\<bar>fl (1 - fl ?x) - (1 - fl ?x)\<bar> \<le> 1 / 2 ^ 53" by (intro fl_error_bound) auto
  then have "\<bar>fl (1 - fl ?x) - (1 - ?x)\<bar> \<le> 2 / 2 ^ 53" using q by linarith
  then show ?thesis using False f by (simp add: speedFactor_def speed_exact_def Let_def del: of_int_diff of_int_max)
qed (auto simp: speedFactor_def speed_exact_def)

lemma points_error:
  assumes "in_limitMs i - in_graceMs i < 2 ^ 53"
  shows "\<bar>points_float i - points_exact i\<bar> \<le> 8000 / 2 ^ 53"
proof -
  define b s f u c4 c6 where "b = basePoints (in_level i)" and "s = speedFactor i"
    and "f = speed_exact i" and "u = (1 :: rat) / 2 ^ 53" and "c4 = fl (2 / 5)" and "c6 = fl (3 / 5)"
  have u: "0 < u" "u < 1 / 100" by (simp_all add: u_def)
  have b: "0 \<le> b" "b \<le> 1000" by (simp_all add: b_def basePoints_nonneg basePoints_le)
  have s: "0 \<le> s" "s \<le> 1" "\<bar>s - f\<bar> \<le> 2 * u"
    using speedFactor_unit[of i] speedFactor_error[OF assms] by (simp_all add: s_def f_def u_def)
  have c: "\<bar>c4 - 2 / 5\<bar> \<le> u" "\<bar>c6 - 3 / 5\<bar> \<le> u"
    using fl_error_bound[of "2 / 5" 1] fl_error_bound[of "3 / 5" 1] by (simp_all add: c4_def c6_def u_def)
  define P where "P = (c4 - 2 / 5) * s"
  have eq: "c4 * s - 2 / 5 * f = P + 2 / 5 * (s - f)"
    unfolding P_def by (simp add: left_diff_distrib right_diff_distrib)
  have "\<bar>P\<bar> \<le> u * 1" using c s unfolding P_def abs_mult by (intro mult_mono) auto
  moreover have "\<bar>2 / 5 * (s - f)\<bar> \<le> 2 / 5 * (2 * u)" using s(3) unfolding abs_mult by (intro mult_mono) auto
  ultimately have p: "\<bar>c4 * s - 2 / 5 * f\<bar> \<le> 2 * u"
    unfolding eq using abs_triangle_ineq [of P "2 / 5 * (s - f)"] u(1) by linarith
  have "0 \<le> c4" "c4 \<le> 1" using c(1) u unfolding abs_le_iff by linarith+
  then have c4s: "0 \<le> c4 * s" "c4 * s \<le> 1 * 1"
    using s mult_mono [of c4 1 s 1] by auto
  have "\<bar>fl (c4 * s) - c4 * s\<bar> \<le> 1 / 2 ^ 53" using c4s by (intro fl_error_bound) auto
  then have m: "\<bar>fl (c4 * s) - 2 / 5 * f\<bar> \<le> 3 * u" using p unfolding u_def by linarith
  have m01: "0 \<le> fl (c4 * s)" "fl (c4 * s) \<le> 1" using c4s by (auto intro: fl_nonneg fl_le_one)
  have t0: "\<bar>c6 + fl (c4 * s)\<bar> \<le> 2" using c(2) m01 u by linarith
  then have "\<bar>fl (c6 + fl (c4 * s)) - (c6 + fl (c4 * s))\<bar> \<le> 2 * u"
    using fl_error_bound[OF t0] by (simp add: u_def)
  then have t: "\<bar>fl (c6 + fl (c4 * s)) - (3 / 5 + 2 / 5 * f)\<bar> \<le> 6 * u" using m c(2) u(1) by linarith
  let ?t = "fl (c6 + fl (c4 * s))"
  have "\<bar>?t\<bar> \<le> 2" using fl_mono[of "c6 + fl (c4 * s)" "of_int 2"] fl_of_int[of 2] t0
      fl_nonneg[of "c6 + fl (c4 * s)"] c(2) m01 u by auto
  then have "\<bar>b * ?t\<bar> \<le> 1000 * 2" using b unfolding abs_mult by (intro mult_mono) auto
  then have r: "\<bar>fl (b * ?t) - b * ?t\<bar> \<le> 2000 * u" using fl_error_bound[of "b * ?t" 2000] by (simp add: u_def)
  have "\<bar>b * ?t - b * (3 / 5 + 2 / 5 * f)\<bar> = \<bar>b\<bar> * \<bar>?t - (3 / 5 + 2 / 5 * f)\<bar>"
    by (simp only: abs_mult[symmetric] right_diff_distrib)
  also have "\<dots> \<le> 1000 * (6 * u)" using b t by (intro mult_mono) auto
  finally have "\<bar>fl (b * ?t) - b * (3 / 5 + 2 / 5 * f)\<bar> \<le> 8000 * u" using r by linarith
  then show ?thesis
    by (simp add: points_float_def points_exact_def speedShare_def b_def s_def f_def c4_def c6_def u_def)
qed

text \<open>An exact score is a multiple of \<open>1 / d\<close>, so off a tie it keeps its distance from one.\<close>

lemma points_exact_grid:
  fixes k :: int
  assumes d: "in_limitMs i - in_graceMs i \<le> 1000000"
    and tie: "points_exact i \<noteq> of_int k + 1 / 2"
  shows "1 / 2000000 \<le> \<bar>points_exact i - (of_int k + 1 / 2)\<bar>"
proof -
  obtain n :: int where n: "basePoints (in_level i) = of_int (5 * n)"
    by (rule that [of "if in_level i = 1 then 100 else if in_level i = 2 then 150
                       else if in_level i = 3 then 200 else 0"]) (simp add: basePoints_def)
  define e where "e = (if in_accuracyMode i \<or> in_limitMs i \<le> in_graceMs i then 0
    else max 0 (min (in_responseMs i) (in_limitMs i) - in_graceMs i))"
  define d' where "d' = (if in_accuracyMode i \<or> in_limitMs i \<le> in_graceMs i then 1
    else in_limitMs i - in_graceMs i)"
  have d': "0 < d'" "d' \<le> 1000000" using d by (auto simp: d'_def)
  have p: "points_exact i = of_int (5 * n) - of_int (2 * n * e) / of_int d'"
    by (simp add: points_exact_def n speed_exact_def e_def d'_def algebra_simps)
  define N where "N = 10 * n * d' - 4 * n * e - (2 * k + 1) * d'"
  have diff: "points_exact i - (of_int k + 1 / 2) = of_int N / of_int (2 * d')"
    using d' by (simp add: p N_def field_simps)
  have "N \<noteq> 0" using tie diff by auto
  then have "1 \<le> \<bar>N\<bar>" by linarith
  then have "1 / of_int (2 * d') \<le> (\<bar>of_int N\<bar> / of_int (2 * d') :: rat)"
    using d' by (intro divide_right_mono) (simp_all flip: of_int_abs)
  moreover have "1 / 2000000 \<le> (1 / of_int (2 * d') :: rat)"
    using d' by (intro divide_left_mono) simp_all
  moreover have "\<bar>points_exact i - (of_int k + 1 / 2)\<bar> = \<bar>of_int N\<bar> / of_int (2 * d')"
    using d' unfolding diff abs_divide by simp
  ultimately show ?thesis by linarith
qed

lemma speed_exact_unit: "0 \<le> speed_exact i \<and> speed_exact i \<le> 1"
proof (cases "in_accuracyMode i \<or> in_limitMs i \<le> in_graceMs i")
  case False
  let ?e = "max 0 (min (in_responseMs i) (in_limitMs i) - in_graceMs i)"
  let ?d = "in_limitMs i - in_graceMs i"
  have ed: "0 \<le> ?e" "?e \<le> ?d" "0 < ?d" using False by auto
  then have "0 \<le> (of_int ?e / of_int ?d :: rat)" "(of_int ?e / of_int ?d :: rat) \<le> 1"
    by (simp_all add: divide_le_eq del: of_int_diff of_int_max)
  then show ?thesis using False by (simp add: speed_exact_def del: of_int_diff of_int_max)
qed (auto simp: speed_exact_def)

lemma round_points_cases:
  assumes "in_limitMs i - in_graceMs i \<le> 1000000"
  shows "round_int (points_float i) = round_int (points_exact i) \<or>
    ((\<exists>k. points_exact i = of_int k + 1 / 2) \<and>
     round_int (points_float i) = round_int (points_exact i) - 1)"
proof -
  have err: "\<bar>points_float i - points_exact i\<bar> \<le> 8000 / 2 ^ 53"
    using assms by (intro points_error) simp
  have ex: "0 \<le> points_exact i"
    using speed_exact_unit[of i]
    by (auto simp: points_exact_def intro!: mult_nonneg_nonneg basePoints_nonneg)
  show ?thesis
  proof (cases "\<exists>k. points_exact i = of_int k + 1 / 2")
    case False
    then have "round_int (points_float i) = round_int (points_exact i)"
      using err ex points_float_nonneg
      by (intro round_int_close [where d = "1 / 2000000"] points_exact_grid assms) auto
    then show ?thesis ..
  next
    case True
    then obtain k where k: "points_exact i = of_int k + 1 / 2" by blast
    have "8000 / 2 ^ 53 < (1 :: rat)" by simp
    then have "of_int k \<le> points_float i + 1 / 2" "points_float i + 1 / 2 < of_int k + 2"
      using err unfolding k abs_le_iff by linarith+
    then have "of_int k \<le> points_float i + 1 / 2" "points_float i + 1 / 2 < of_int (k + 2)"
      by simp_all
    then have "k \<le> \<lfloor>points_float i + 1 / 2\<rfloor>" "\<lfloor>points_float i + 1 / 2\<rfloor> < k + 2"
      by (simp_all only: le_floor_iff floor_less_iff)
    moreover have "round_int (points_exact i) = k + 1"
      using ex k by (subst round_int_nonneg) (auto intro!: floor_unique)
    ultimately show ?thesis using True points_float_nonneg
      by (auto simp: round_int_nonneg)
  qed
qed

subsection \<open>Timers\<close>

lemma questionLimit_values:
  "questionLimit l j = (if j = ''SD'' then 5 * timerByLevel l div 4 else timerByLevel l)"
proof -
  have "int_of_float (fl (float_of_int (15 * second) * smallSchoolTimer)) = 5 * (15 * second) div 4"
    "int_of_float (fl (float_of_int (20 * second) * smallSchoolTimer)) = 5 * (20 * second) div 4"
    "int_of_float (fl (float_of_int (25 * second) * smallSchoolTimer)) = 5 * (25 * second) div 4"
    "int_of_float (fl (float_of_int 0 * smallSchoolTimer)) = 0"
    by code_simp+
  then show ?thesis by (simp add: questionLimit_def timerByLevel_def jenjangSD_def)
qed

lemma timer_bounds: "0 \<le> timerByLevel l \<and> timerByLevel l \<le> 25 * second"
  by (simp add: timerByLevel_def second_def millisecond_def)

lemma questionLimit_bounds: "0 \<le> questionLimit l j \<and> questionLimit l j \<le> 31250 * millisecond"
  using timer_bounds[of l] by (auto simp: questionLimit_values second_def millisecond_def)

lemma questionLimit_ms_bounds:
  "0 \<le> to_ms (questionLimit l j) \<and> to_ms (questionLimit l j) \<le> 31250"
  using questionLimit_bounds[of l j] by (auto simp: to_ms_nonneg millisecond_def)

subsection \<open>Properties of Score\<close>

lemma Score_on_time:
  "in_correct i \<Longrightarrow> in_responseMs i \<le> in_limitMs i + networkGraceMs \<Longrightarrow>
   Score i = round_int (points_float i) + min (streakBonus * in_streakBefore i) maxStreakBonus"
  by (simp add: Score_def)

lemma Score_nonneg: "0 \<le> in_streakBefore i \<Longrightarrow> 0 \<le> Score i"
  using round_points_bounds[of i] by (simp add: Score_def score_consts)

lemma Score_le: "Score i \<le> 1250"
proof -
  have "min (50 * in_streakBefore i) 250 \<le> 250" by simp
  then show ?thesis using round_points_bounds[of i] by (simp add: Score_def score_consts del: min.cobounded2)
qed

lemma Score_worth:
  assumes "in_correct i" "in_responseMs i \<le> in_limitMs i + networkGraceMs"
    and "in_level i \<in> {1, 2, 3}" "0 \<le> in_streakBefore i"
  shows "basePoints (in_level i) * 3 / 5 \<le> of_int (Score i) \<and>
    of_int (Score i) \<le> basePoints (in_level i) + 250"
proof -
  obtain n where n: "basePoints (in_level i) = of_int n" "0 \<le> n" using basePoints_int by blast
  have "round_int (points_float i) \<le> round_int (of_int n)"
    using points_float_ceiling[of i] n points_float_nonneg by (intro round_int_mono) simp_all
  then have up: "round_int (points_float i) \<le> n" using n(2) by simp
  have "of_int (round_int (points_float i)) \<le> (of_int (Score i) :: rat)"
    using assms by (simp only: Score_on_time of_int_le_iff) (simp add: score_consts)
  then have "basePoints (in_level i) * 3 / 5 \<le> of_int (Score i)"
    using points_float_floor[OF assms(3)] by linarith
  moreover have "Score i \<le> n + maxStreakBonus" using up assms by (simp add: Score_on_time)
  then have "of_int (Score i) \<le> (of_int (n + maxStreakBonus) :: rat)" by (simp only: of_int_le_iff)
  ultimately show ?thesis using n(1) by (simp add: maxStreakBonus_def)
qed

text \<open>
  A correct answer within the timer and the network tolerance is worth at least 60 percent
  of the base points of its level and at most the base points plus the capped streak bonus,
  whatever the response time, in the floating-point arithmetic of the code.
\<close>

theorem Score_bounds:
  assumes "in_correct i" "in_responseMs i \<le> in_limitMs i + networkGraceMs"
    and "in_level i \<in> {1, 2, 3}" "0 \<le> in_streakBefore i"
  shows "basePoints (in_level i) * 3 / 5 \<le> of_int (Score i) \<and>
    of_int (Score i) \<le> basePoints (in_level i) + of_int maxStreakBonus"
  using Score_worth [OF assms] by (simp add: maxStreakBonus_def)

definition medium_answer :: "int \<Rightarrow> score_input" where
  "medium_answer ms = \<lparr>in_level = 2, in_correct = True, in_responseMs = ms, in_limitMs = 20000,
     in_graceMs = 2000, in_streakBefore = 6, in_accuracyMode = False\<rparr>"

theorem Score_bounds_witness:
  "750 * 3 / 5 \<le> (of_int (Score (medium_answer 20500)) :: rat) \<and>
   of_int (Score (medium_answer 20500)) \<le> (750 + 250 :: rat)"
  using Score_bounds [of "medium_answer 20500"]
  by (simp add: medium_answer_def basePoints_def score_consts)

text \<open>
  Answering faster never scores fewer points: with everything else equal, the points fall
  (weakly) as the response time grows, past the deadline included. The rounding of the
  intermediate doubles does not break this.
\<close>

theorem Score_antimono:
  assumes "r \<le> r'" "0 \<le> in_streakBefore i"
  shows "Score (i\<lparr>in_responseMs := r'\<rparr>) \<le> Score (i\<lparr>in_responseMs := r\<rparr>)"
proof (cases "in_correct i \<and> r' \<le> in_limitMs i + networkGraceMs")
  case True
  have "points_float (i\<lparr>in_responseMs := r'\<rparr>) \<le> points_float (i\<lparr>in_responseMs := r\<rparr>)"
    using assms by (intro points_float_mono speedFactor_antimono) auto
  then have "round_int (points_float (i\<lparr>in_responseMs := r'\<rparr>))
      \<le> round_int (points_float (i\<lparr>in_responseMs := r\<rparr>))"
    by (intro round_int_mono points_float_nonneg)
  then show ?thesis using True assms(1) by (simp add: Score_on_time)
next
  case False
  then have "Score (i\<lparr>in_responseMs := r'\<rparr>) = 0" by (auto simp: Score_def)
  then show ?thesis using Score_nonneg [of "i\<lparr>in_responseMs := r\<rparr>"] assms(2) by simp
qed

theorem Score_antimono_witness:
  "Score ((medium_answer 0)\<lparr>in_responseMs := 12000\<rparr>) \<le> Score ((medium_answer 0)\<lparr>in_responseMs := 4000\<rparr>)"
  by (rule Score_antimono) (simp_all add: medium_answer_def)

text \<open>
  C36. The points equal the documented formula round(base * (0.6 + 0.4 * speed)) + bonus computed
  in exact arithmetic, except where that value is exactly halfway between two integers: there
  the double may fall just below and one point is lost. (Timers up to 1000 seconds.)
\<close>

theorem Score_matches_formula:
  assumes "in_limitMs i - in_graceMs i \<le> 1000000"
  shows "Score i = Score_exact i \<or>
    ((\<exists>k. points_exact i = of_int k + 1 / 2) \<and> Score i = Score_exact i - 1)"
  using round_points_cases [OF assms] by (auto simp: Score_def Score_exact_def Let_def)

theorem Score_matches_formula_witness:
  "Score (medium_answer 4000) = Score_exact (medium_answer 4000) \<or>
   ((\<exists>k. points_exact (medium_answer 4000) = of_int k + 1 / 2) \<and>
    Score (medium_answer 4000) = Score_exact (medium_answer 4000) - 1)"
  by (rule Score_matches_formula) (simp add: medium_answer_def)

text \<open>
  The halfway case does lose a point: a medium question answered in 6.590 s is worth 673.5
  by the formula, which rounds to 674, and the code gives 673.
\<close>

theorem Score_tie_loses_a_point:
  "Score_exact ((medium_answer 6590)\<lparr>in_streakBefore := 0\<rparr>) = 674 \<and>
   Score ((medium_answer 6590)\<lparr>in_streakBefore := 0\<rparr>) = 673"
proof -
  have "Score ((medium_answer 6590)\<lparr>in_streakBefore := 0\<rparr>) = 673"
    unfolding medium_answer_def by code_simp
  moreover have "Score_exact ((medium_answer 6590)\<lparr>in_streakBefore := 0\<rparr>) = 674"
    unfolding medium_answer_def by code_simp
  ultimately show ?thesis by simp
qed

text \<open>
  Zero points mean a wrong or a late answer and nothing else: for a question of a real level
  the points are 0 exactly when the answer is wrong or came after the timer plus the network
  tolerance.
\<close>

theorem Score_zero_iff:
  assumes "in_level i \<in> {1, 2, 3}" "0 \<le> in_streakBefore i"
  shows "Score i = 0 \<longleftrightarrow> \<not> in_correct i \<or> in_responseMs i > in_limitMs i + networkGraceMs"
proof (cases "in_correct i \<and> in_responseMs i \<le> in_limitMs i + networkGraceMs")
  case True
  have "0 < basePoints (in_level i) * 3 / 5" using assms(1) by (auto simp: basePoints_def)
  then have "0 < round_int (points_float i)"
    using points_float_floor [OF assms(1)] by (metis of_int_0_less_iff order_less_le_trans)
  then show ?thesis using True assms(2) by (auto simp: Score_on_time score_consts)
next
  case False
  then show ?thesis by (auto simp: Score_def)
qed

theorem Score_zero_iff_witness:
  "Score (medium_answer 21001) = 0 \<longleftrightarrow> \<not> in_correct (medium_answer 21001) \<or>
     in_responseMs (medium_answer 21001) > in_limitMs (medium_answer 21001) + networkGraceMs"
  by (rule Score_zero_iff) (simp_all add: medium_answer_def)

end
