(* ===== verification/Rank.thy ===== *)
theory Rank
  imports Prelude Float64
begin

section \<open>Ranking: api/internal/rank/rank.go\<close>

text \<open>
  A standing folds into one \<open>float64\<close> key, and \<open>Order\<close> sorts by it, stably. The
  specification is the order of \<open>rank_key\<close>: higher score, then more correct answers, then
  less time. \<open>Order_refines\<close> says the code implements it while the key is exact.
\<close>

subsection \<open>The code\<close>

definition scoreUnit :: int where "scoreUnit = 100000000"
definition correctUnit :: int where "correctUnit = 1000000"
definition maxTotalMs :: int where "maxTotalMs = correctUnit - 1"

record standing =
  st_player :: uid
  st_score :: int
  st_correct :: int
  st_totalMs :: int

definition Key :: "standing \<Rightarrow> rat" where
  "Key s = (let ms = min (max (st_totalMs s) 0) maxTotalMs
            in fl (fl (fl (float_of_int (st_score s) * of_int scoreUnit) +
                       fl (float_of_int (st_correct s) * of_int correctUnit)) +
                   float_of_int (maxTotalMs - ms)))"

text \<open>\<open>sort.SliceStable\<close> is the stable sort; \<open>sort_key\<close> sorts ascending and stably.\<close>

definition Order :: "standing list \<Rightarrow> uid list" where
  "Order standings = map st_player (sort_key (\<lambda>s. - Key s) standings)"

lemmas rank_consts = scoreUnit_def correctUnit_def maxTotalMs_def

subsection \<open>The specification: a linear order on the three criteria\<close>

datatype rank_key = RankKey (rk_score: int) (rk_correct: int) (rk_ms: int)

text \<open>Smaller is better, so that sorting ascending puts the best first.\<close>

instantiation rank_key :: linorder
begin

definition less_eq_rank_key :: "rank_key \<Rightarrow> rank_key \<Rightarrow> bool" where
  "less_eq_rank_key a b \<longleftrightarrow> rk_score a > rk_score b \<or> rk_score a = rk_score b \<and>
     (rk_correct a > rk_correct b \<or> rk_correct a = rk_correct b \<and> rk_ms a \<le> rk_ms b)"

definition less_rank_key :: "rank_key \<Rightarrow> rank_key \<Rightarrow> bool" where
  "less_rank_key a b \<longleftrightarrow> rk_score a > rk_score b \<or> rk_score a = rk_score b \<and>
     (rk_correct a > rk_correct b \<or> rk_correct a = rk_correct b \<and> rk_ms a < rk_ms b)"

instance
  by standard (auto simp: less_eq_rank_key_def less_rank_key_def rank_key.expand)

end

definition criteria :: "standing \<Rightarrow> rank_key" where
  "criteria s = RankKey (st_score s) (st_correct s) (st_totalMs s)"

text \<open>The range in which the key is exact, as the comment on \<open>Key\<close> gives it.\<close>

definition in_range :: "standing \<Rightarrow> bool" where
  "in_range s \<longleftrightarrow> 0 \<le> st_score s \<and> st_score s \<le> 90000000 \<and>
     0 \<le> st_correct s \<and> st_correct s < 100 \<and> 0 \<le> st_totalMs s \<and> st_totalMs s \<le> maxTotalMs"

subsection \<open>The key is exact and orders as specified\<close>

definition int_key :: "standing \<Rightarrow> int" where
  "int_key s = st_score s * scoreUnit + st_correct s * correctUnit + (maxTotalMs - st_totalMs s)"

lemma Key_exact: "in_range s \<Longrightarrow> Key s = of_int (int_key s)"
proof -
  assume "in_range s"
  then have r: "0 \<le> st_score s" "st_score s \<le> 90000000" "0 \<le> st_correct s" "st_correct s < 100"
    "0 \<le> st_totalMs s" "st_totalMs s \<le> 999999" by (auto simp: in_range_def rank_consts)
  have f: "fl (of_int (st_score s) * of_int scoreUnit) = of_int (st_score s * scoreUnit)"
    "fl (of_int (st_correct s) * of_int correctUnit) = of_int (st_correct s * correctUnit)"
    "fl (of_int (st_score s * scoreUnit) + of_int (st_correct s * correctUnit))
       = of_int (st_score s * scoreUnit + st_correct s * correctUnit)"
    "fl (of_int (st_score s * scoreUnit + st_correct s * correctUnit) + of_int (maxTotalMs - st_totalMs s))
       = of_int (st_score s * scoreUnit + st_correct s * correctUnit + (maxTotalMs - st_totalMs s))"
    using r unfolding of_int_mult [symmetric] of_int_add [symmetric]
    by (intro fl_of_int; simp add: rank_consts)+
  have g: "float_of_int (st_score s) = of_int (st_score s)"
    "float_of_int (st_correct s) = of_int (st_correct s)"
    "float_of_int (maxTotalMs - st_totalMs s) = of_int (maxTotalMs - st_totalMs s)"
    using r by (intro float_of_int_exact; simp add: rank_consts)+
  have m: "min (max (st_totalMs s) 0) maxTotalMs = st_totalMs s" using r by (simp add: rank_consts)
  show ?thesis unfolding Key_def Let_def m g f int_key_def ..
qed

lemma int_key_order:
  "in_range a \<Longrightarrow> in_range b \<Longrightarrow> int_key b \<le> int_key a \<longleftrightarrow> criteria a \<le> criteria b"
  by (auto simp: in_range_def int_key_def criteria_def less_eq_rank_key_def rank_consts)

lemma Key_order:
  "in_range a \<Longrightarrow> in_range b \<Longrightarrow> - Key a \<le> - Key b \<longleftrightarrow> criteria a \<le> criteria b"
  by (simp add: Key_exact int_key_order)

subsection \<open>Order\<close>

lemma mset_Order: "mset (Order ss) = mset (map st_player ss)"
  by (simp add: Order_def)

lemma set_Order: "set (Order ss) = st_player ` set ss"
  by (simp add: Order_def)

lemma length_Order [simp]: "length (Order ss) = length ss"
  by (simp add: Order_def)

lemma distinct_Order: "distinct (map st_player ss) \<Longrightarrow> distinct (Order ss)"
  using mset_Order [of ss] by (metis mset_eq_imp_distinct_iff)

text \<open>Two stable sorts by keys that order the elements alike give the same list.\<close>

lemma insort_key_agree:
  assumes "\<And>y. y \<in> set xs \<Longrightarrow> f x \<le> f y \<longleftrightarrow> g x \<le> g y"
  shows "insort_key f x xs = insort_key g x xs"
  using assms by (induction xs) auto

lemma sort_key_agree:
  fixes f :: "'a \<Rightarrow> 'b :: linorder" and g :: "'a \<Rightarrow> 'c :: linorder"
  assumes "\<And>x y. x \<in> set xs \<Longrightarrow> y \<in> set xs \<Longrightarrow> f x \<le> f y \<longleftrightarrow> g x \<le> g y"
  shows "sort_key f xs = sort_key g xs"
  using assms by (induction xs) (auto simp: intro!: insort_key_agree)

lemma Order_refines_criteria:
  assumes "\<forall>s \<in> set ss. in_range s"
  shows "Order ss = map st_player (sort_key criteria ss)"
proof -
  have "sort_key (\<lambda>s. - Key s) ss = sort_key criteria ss"
    using assms by (intro sort_key_agree Key_order) auto
  then show ?thesis by (simp add: Order_def)
qed

lemma Order_sorted_by_key:
  "\<exists>ts. Order ss = map st_player ts \<and> mset ts = mset ss \<and> sorted (map (\<lambda>s. - Key s) ts)"
  by (rule exI [of _ "sort_key (\<lambda>s. - Key s) ss"]) (simp add: Order_def)

text \<open>
  C33. The leaderboard order is the specified one: as long as every score is within 0 to
  90,000,000, correct answers below 100 and total time at most 999,999 ms, sorting by the
  float64 key equals the stable sort by score, then correct answers, then total time; players
  with equal standings keep their input order.
\<close>

theorem Order_refines:
  assumes "\<forall>s \<in> set ss. in_range s"
  shows "Order ss = map st_player (sort_key criteria ss)"
  using assms by (rule Order_refines_criteria)

definition example_standings :: "standing list" where
  "example_standings =
    [\<lparr>st_player = ''a'', st_score = 700, st_correct = 1, st_totalMs = 9000\<rparr>,
     \<lparr>st_player = ''b'', st_score = 700, st_correct = 1, st_totalMs = 4000\<rparr>,
     \<lparr>st_player = ''c'', st_score = 700, st_correct = 1, st_totalMs = 9000\<rparr>,
     \<lparr>st_player = ''d'', st_score = 1800, st_correct = 2, st_totalMs = 20000\<rparr>]"

theorem Order_refines_witness: "Order example_standings = [''d'', ''b'', ''a'', ''c'']"
proof -
  have "\<forall>s \<in> set example_standings. in_range s"
    by (simp add: example_standings_def in_range_def rank_consts)
  then have "Order example_standings = map st_player (sort_key criteria example_standings)"
    by (rule Order_refines)
  also have "\<dots> = [''d'', ''b'', ''a'', ''c'']"
    by (simp add: example_standings_def criteria_def less_eq_rank_key_def)
  finally show ?thesis .
qed

text \<open>
  Ranking loses and invents nobody: for any standings, in or out of the range where the key
  is exact, the result lists exactly the players of the input, each as often as the input does.
\<close>

theorem Order_is_permutation: "mset (Order ss) = image_mset st_player (mset ss)"
  by (simp add: Order_def)

end
