(* ===== verification/StoreTypes.thy ===== *)
theory StoreTypes
  imports Prelude
begin

section \<open>Data of the store package: api/internal/store\<close>

text \<open>
  The records that the store hands to the game and the REST handlers (\<open>store.go\<close>,
  \<open>gameplay.go\<close>), and the encoding of a question's columns. The JSONB columns are trees of
  \<open>json\<close>; \<open>unmarshal_text\<close> and \<open>unmarshal_options\<close> follow Go's \<open>encoding/json\<close> on the
  structs of the source: a key matches a field up to letter case, a missing key or a null leaves
  the zero value, an unknown key is ignored, a value of another type is an error.
\<close>

datatype status = Lobby | Running | Ended

record text_bi =
  t_id :: string
  t_en :: string

text \<open>\<open>Text.In\<close>: the text in a language, falling back to Indonesian.\<close>

definition text_In :: "text_bi \<Rightarrow> string \<Rightarrow> string" where
  "text_In t lang = (if lang = ''en'' \<and> t_en t \<noteq> '''' then t_en t else t_id t)"

record option_q =
  o_id :: string
  o_label :: text_bi
  o_correct :: bool

record question =
  q_id :: string
  q_site :: int
  q_level :: int
  q_type :: string
  q_prompt :: text_bi
  q_explanation :: text_bi
  q_options :: "option_q list"

record room_data =
  rd_id :: uid
  rd_pin :: string
  rd_hostID :: uid
  rd_jenjang :: string
  rd_shortSession :: bool
  rd_accuracyMode :: bool
  rd_status :: status
  rd_questionIDs :: "string list"
  rd_startedAt :: "time option"

record player =
  pl_id :: uid
  pl_nickname :: string
  pl_school :: string
  pl_lang :: string
  pl_avatar :: int
  pl_score :: int
  pl_correctCount :: int
  pl_totalMs :: int
  pl_currentIndex :: int
  pl_streak :: int
  pl_finished :: bool

text \<open>\<open>Result\<close>: one resolved question plus the player's new totals.\<close>

record result =
  rs_playerID :: uid
  rs_questionID :: string
  rs_servedAt :: time
  rs_answeredAt :: "time option"
  rs_optionID :: "string option"
  rs_correct :: "bool option"
  rs_points :: int
  rs_score :: int
  rs_correctCount :: int
  rs_totalMs :: int
  rs_currentIndex :: int
  rs_streak :: int
  rs_finished :: bool

text \<open>\<open>QuestionRef\<close>: what the selector needs of a question.\<close>

record question_ref =
  qr_id :: string
  qr_site :: int
  qr_level :: int

datatype store_error = NotFound | MaxRooms | RoomFull | NicknameTaken | InvalidSchool
  | DuplicateAnswer | DbFailure string

subsection \<open>JSON columns\<close>

datatype json = JNull | JBool bool | JNum int | JStr string | JArr "json list"
  | JObj "(string \<times> json) list"

definition ascii_lower :: "char \<Rightarrow> char" where
  "ascii_lower c = (if 65 \<le> (of_char c :: nat) \<and> (of_char c :: nat) \<le> 90 then char_of ((of_char c :: nat) + 32) else c)"

definition key_is :: "string \<Rightarrow> string \<Rightarrow> bool" where
  "key_is field key \<longleftrightarrow> map ascii_lower key = field"

fun set_string :: "json \<Rightarrow> string \<Rightarrow> string option" where
  "set_string (JStr s) old = Some s"
| "set_string JNull old = Some old"
| "set_string _ old = None"

fun set_bool :: "json \<Rightarrow> bool \<Rightarrow> bool option" where
  "set_bool (JBool b) old = Some b"
| "set_bool JNull old = Some old"
| "set_bool _ old = None"

fun text_fields :: "(string \<times> json) list \<Rightarrow> text_bi \<Rightarrow> text_bi option" where
  "text_fields [] t = Some t"
| "text_fields ((k, v) # kvs) t =
     (if key_is ''id'' k then
        (case set_string v (t_id t) of None \<Rightarrow> None | Some s \<Rightarrow> text_fields kvs (t\<lparr>t_id := s\<rparr>))
      else if key_is ''en'' k then
        (case set_string v (t_en t) of None \<Rightarrow> None | Some s \<Rightarrow> text_fields kvs (t\<lparr>t_en := s\<rparr>))
      else text_fields kvs t)"

definition zero_text :: text_bi where
  "zero_text = \<lparr>t_id = '''', t_en = ''''\<rparr>"

fun unmarshal_text_into :: "json \<Rightarrow> text_bi \<Rightarrow> text_bi option" where
  "unmarshal_text_into (JObj kvs) t = text_fields kvs t"
| "unmarshal_text_into JNull t = Some t"
| "unmarshal_text_into _ t = None"

definition unmarshal_text :: "json \<Rightarrow> text_bi option" where
  "unmarshal_text j = unmarshal_text_into j zero_text"

fun option_fields :: "(string \<times> json) list \<Rightarrow> option_q \<Rightarrow> option_q option" where
  "option_fields [] o' = Some o'"
| "option_fields ((k, v) # kvs) o' =
     (if key_is ''id'' k then
        (case set_string v (o_id o') of None \<Rightarrow> None | Some s \<Rightarrow> option_fields kvs (o'\<lparr>o_id := s\<rparr>))
      else if key_is ''label'' k then
        (case unmarshal_text_into v (o_label o') of None \<Rightarrow> None
         | Some t \<Rightarrow> option_fields kvs (o'\<lparr>o_label := t\<rparr>))
      else if key_is ''correct'' k then
        (case set_bool v (o_correct o') of None \<Rightarrow> None
         | Some b \<Rightarrow> option_fields kvs (o'\<lparr>o_correct := b\<rparr>))
      else option_fields kvs o')"

definition zero_option :: option_q where
  "zero_option = \<lparr>o_id = '''', o_label = zero_text, o_correct = False\<rparr>"

fun unmarshal_option :: "json \<Rightarrow> option_q option" where
  "unmarshal_option (JObj kvs) = option_fields kvs zero_option"
| "unmarshal_option JNull = Some zero_option"
| "unmarshal_option _ = None"

fun unmarshal_option_list :: "json list \<Rightarrow> option_q list option" where
  "unmarshal_option_list [] = Some []"
| "unmarshal_option_list (j # js) =
     (case unmarshal_option j of None \<Rightarrow> None
      | Some o' \<Rightarrow> (case unmarshal_option_list js of None \<Rightarrow> None | Some os \<Rightarrow> Some (o' # os)))"

fun unmarshal_options :: "json \<Rightarrow> option_q list option" where
  "unmarshal_options (JArr js) = unmarshal_option_list js"
| "unmarshal_options JNull = Some []"
| "unmarshal_options _ = None"

text \<open>\<open>json.Marshal\<close> on the same structs, as the seed command writes the columns.\<close>

definition marshal_text :: "text_bi \<Rightarrow> json" where
  "marshal_text t = JObj [(''id'', JStr (t_id t)), (''en'', JStr (t_en t))]"

definition marshal_option :: "option_q \<Rightarrow> json" where
  "marshal_option o' = JObj [(''id'', JStr (o_id o')), (''label'', marshal_text (o_label o')),
     (''correct'', JBool (o_correct o'))]"

definition marshal_options :: "option_q list \<Rightarrow> json" where
  "marshal_options os = JArr (map marshal_option os)"

lemma key_is_eval [simp]:
  "key_is ''id'' ''id''" "\<not> key_is ''id'' ''en''" "key_is ''en'' ''en''"
  "\<not> key_is ''id'' ''label''" "key_is ''label'' ''label''"
  "\<not> key_is ''id'' ''correct''" "\<not> key_is ''label'' ''correct''" "key_is ''correct'' ''correct''"
  by code_simp+

lemma text_roundtrip_into: "unmarshal_text_into (marshal_text t) u = Some t"
  by (simp add: marshal_text_def)

lemma text_roundtrip [simp]: "unmarshal_text (marshal_text t) = Some t"
  by (simp add: unmarshal_text_def text_roundtrip_into)

lemma option_roundtrip [simp]: "unmarshal_option (marshal_option o') = Some o'"
  by (simp add: marshal_option_def text_roundtrip_into)

lemma options_roundtrip [simp]: "unmarshal_options (marshal_options os) = Some os"
  by (induction os) (auto simp: marshal_options_def)

subsection \<open>Clamping to the column types\<close>

text \<open>\<open>toInt16\<close> and \<open>toInt32\<close> clamp instead of wrapping.\<close>

definition toInt16 :: "int \<Rightarrow> int" where
  "toInt16 v = min (max v (- 32768)) 32767"

definition toInt32 :: "int \<Rightarrow> int" where
  "toInt32 v = min (max v (- 2147483648)) 2147483647"

lemma toInt16_id: "- 32768 \<le> v \<Longrightarrow> v \<le> 32767 \<Longrightarrow> toInt16 v = v"
  by (simp add: toInt16_def)

lemma toInt32_id: "- 2147483648 \<le> v \<Longrightarrow> v \<le> 2147483647 \<Longrightarrow> toInt32 v = v"
  by (simp add: toInt32_def)

end
