(* ===== verification/Selector.thy ===== *)
theory Selector
  imports StoreTypes
begin

section \<open>Question selection: api/internal/game/selector.go\<close>

text \<open>
  \<open>SelectQuestions\<close> draws the ordered question ids of a new room from the pool of selectable
  questions, following the composition table of the room's jenjang. The generator is the stream
  \<open>rng\<close>; the buckets are shuffled in the order in which the pool first mentions them (Go leaves
  the iteration order of the map open, which only permutes the draws).

  The specification is the flat schedule of (site, level) cells: the selection answers the
  schedule cell by cell with distinct questions of that cell, and it fails exactly when the pool
  holds too few questions for some cell.
\<close>

subsection \<open>The code\<close>

definition stageCount :: nat where "stageCount = 5"
definition questionsEach :: nat where "questionsEach = 3"

definition composition :: "string \<Rightarrow> int list list option" where
  "composition jenjang =
     (if jenjang = ''SD'' then Some [[1, 1, 2], [1, 1, 2], [1, 2, 2], [1, 2, 2], [1, 2, 3]]
      else if jenjang = ''SMP'' then Some [[1, 1, 2], [1, 2, 2], [1, 2, 3], [1, 2, 3], [1, 2, 3]]
      else if jenjang = ''SMA'' then Some [[1, 2, 2], [1, 2, 3], [1, 2, 3], [2, 2, 3], [2, 3, 3]]
      else None)"

type_synonym site_level = "int \<times> int"
type_synonym buckets = "(site_level \<times> string list) list"

datatype select_error = UnknownJenjang string | NotEnoughQuestions int int

definition levelsToAsk :: "int list \<Rightarrow> bool \<Rightarrow> int list" where
  "levelsToAsk levels shortSession =
     (if shortSession then [levels ! 0, levels ! (questionsEach - 1)] else levels)"

text \<open>Reading a missing key gives the nil slice.\<close>

definition bucket :: "buckets \<Rightarrow> site_level \<Rightarrow> string list" where
  "bucket b key = (case map_of b key of None \<Rightarrow> [] | Some ids \<Rightarrow> ids)"

fun fill_buckets :: "buckets \<Rightarrow> question_ref list \<Rightarrow> buckets" where
  "fill_buckets b [] = b"
| "fill_buckets b (q # pool) =
     (let key = (qr_site q, qr_level q)
      in fill_buckets (AList.update key (bucket b key @ [qr_id q]) b) pool)"

fun shuffle_buckets :: "(nat \<Rightarrow> nat) \<Rightarrow> nat \<Rightarrow> buckets \<Rightarrow> buckets" where
  "shuffle_buckets rng c [] = []"
| "shuffle_buckets rng c ((key, ids) # b) =
     (let (ids', c') = shuffle rng c ids in (key, ids') # shuffle_buckets rng c' b)"

definition shuffledBuckets :: "(nat \<Rightarrow> nat) \<Rightarrow> question_ref list \<Rightarrow> buckets" where
  "shuffledBuckets rng pool = shuffle_buckets rng 0 (fill_buckets [] pool)"

text \<open>The inner loop over the levels of one site, and the outer loop over the stages.\<close>

fun ask_levels :: "buckets \<Rightarrow> int \<Rightarrow> int list \<Rightarrow> (site_level \<Rightarrow> nat) \<Rightarrow> string list \<Rightarrow>
    select_error + ((site_level \<Rightarrow> nat) \<times> string list)" where
  "ask_levels b site [] next ids = Inr (next, ids)"
| "ask_levels b site (level # levels) next ids =
     (let key = (site, level); i = next key
      in if i \<ge> length (bucket b key) then Inl (NotEnoughQuestions site level)
         else ask_levels b site levels (next(key := i + 1)) (ids @ [bucket b key ! i]))"

fun ask_stages :: "buckets \<Rightarrow> bool \<Rightarrow> int \<Rightarrow> int list list \<Rightarrow> (site_level \<Rightarrow> nat) \<Rightarrow> string list \<Rightarrow>
    select_error + string list" where
  "ask_stages b short stage [] next ids = Inr ids"
| "ask_stages b short stage (levels # cells) next ids =
     (case ask_levels b (stage + 1) (levelsToAsk levels short) next ids of
        Inl e \<Rightarrow> Inl e
      | Inr (next', ids') \<Rightarrow> ask_stages b short (stage + 1) cells next' ids')"

definition SelectQuestions ::
    "(nat \<Rightarrow> nat) \<Rightarrow> string \<Rightarrow> bool \<Rightarrow> question_ref list \<Rightarrow> select_error + string list" where
  "SelectQuestions rng jenjang shortSession pool =
     (case composition jenjang of
        None \<Rightarrow> Inl (UnknownJenjang jenjang)
      | Some cells \<Rightarrow>
          ask_stages (shuffledBuckets rng pool) shortSession 0 cells (\<lambda>_. 0) [])"

subsection \<open>The specification\<close>

fun schedule_from :: "bool \<Rightarrow> int \<Rightarrow> int list list \<Rightarrow> site_level list" where
  "schedule_from short stage [] = []"
| "schedule_from short stage (levels # cells) =
     map (Pair (stage + 1)) (levelsToAsk levels short) @ schedule_from short (stage + 1) cells"

definition schedule :: "string \<Rightarrow> bool \<Rightarrow> site_level list" where
  "schedule jenjang short =
     (case composition jenjang of None \<Rightarrow> [] | Some cells \<Rightarrow> schedule_from short 0 cells)"

definition in_cell :: "question_ref list \<Rightarrow> site_level \<Rightarrow> string list" where
  "in_cell pool key = map qr_id (filter (\<lambda>q. (qr_site q, qr_level q) = key) pool)"

text \<open>One pass over the flat schedule.\<close>

fun ask :: "(site_level \<Rightarrow> string list) \<Rightarrow> site_level list \<Rightarrow> (site_level \<Rightarrow> nat) \<Rightarrow>
    select_error + string list" where
  "ask b [] next = Inr []"
| "ask b (key # ks) next =
     (if length (b key) \<le> next key then Inl (NotEnoughQuestions (fst key) (snd key))
      else map_sum id (Cons (b key ! next key)) (ask b ks (next(key := Suc (next key)))))"

subsection \<open>The buckets hold the pool\<close>

lemma bucket_update: "bucket (AList.update k v b) key = (if key = k then v else bucket b key)"
  by (simp add: bucket_def)

lemma bucket_fill: "bucket (fill_buckets b pool) key = bucket b key @ in_cell pool key"
  by (induction pool arbitrary: b) (auto simp: in_cell_def Let_def bucket_update)

lemma bucket_shuffle: "mset (bucket (shuffle_buckets rng c b) key) = mset (bucket b key)"
proof (induction rng c b rule: shuffle_buckets.induct)
  case (2 rng c k ids b)
  obtain ids' c' where s: "shuffle rng c ids = (ids', c')" by (cases "shuffle rng c ids")
  have "mset ids' = mset ids" using mset_shuffle [of rng c ids] by (simp add: s)
  moreover have "mset (bucket (shuffle_buckets rng c' b) key) = mset (bucket b key)"
    using 2 [of "(ids', c')"] s by simp
  ultimately show ?case by (auto simp: bucket_def s split: option.splits)
qed simp

lemma mset_bucket: "mset (bucket (shuffledBuckets rng pool) key) = mset (in_cell pool key)"
  by (simp add: shuffledBuckets_def bucket_shuffle bucket_fill) (simp add: bucket_def)

lemma set_bucket: "set (bucket (shuffledBuckets rng pool) key) = set (in_cell pool key)"
  by (metis mset_bucket set_mset_mset)

lemma length_bucket: "length (bucket (shuffledBuckets rng pool) key) = length (in_cell pool key)"
  by (metis mset_bucket size_mset)

lemma distinct_bucket:
  "distinct (map qr_id pool) \<Longrightarrow> distinct (bucket (shuffledBuckets rng pool) key)"
proof -
  assume "distinct (map qr_id pool)"
  then have "distinct (in_cell pool key)" by (simp add: in_cell_def distinct_map_filter)
  then show ?thesis by (metis mset_bucket mset_eq_imp_distinct_iff)
qed

lemma bucket_disjoint:
  assumes "distinct (map qr_id pool)" "k \<noteq> k'"
  shows "set (bucket (shuffledBuckets rng pool) k) \<inter> set (bucket (shuffledBuckets rng pool) k') = {}"
proof -
  have "inj_on qr_id (set pool)" using assms(1) by (simp add: distinct_map)
  then show ?thesis using assms(2) by (auto simp: set_bucket in_cell_def dest!: inj_onD)
qed

subsection \<open>The nested loops are one pass over the schedule\<close>

lemma ask_append:
  "ask b (ks @ ks') n =
     (case ask b ks n of Inl e \<Rightarrow> Inl e
      | Inr ids \<Rightarrow> map_sum id ((@) ids) (ask b ks' (\<lambda>k. n k + count_list ks k)))"
proof (induction ks arbitrary: n)
  case Nil
  show ?case by (cases "ask b ks' n") simp_all
next
  case (Cons k ks)
  define n' where "n' = n(k := Suc (n k))"
  have c: "(\<lambda>x. n' x + count_list ks x) = (\<lambda>x. n x + count_list (k # ks) x)"
    by (auto simp: n'_def)
  show ?case using Cons.IH [of n'] unfolding c
    by (auto simp: n'_def [symmetric] map_sum_def simp del: count_list.simps split: sum.splits)
qed

lemma ask_levels_eq:
  "ask_levels b site ls n ids =
     map_sum id (\<lambda>new. (\<lambda>k. n k + count_list (map (Pair site) ls) k, ids @ new))
       (ask (bucket b) (map (Pair site) ls) n)"
proof (induction ls arbitrary: n ids)
  case (Cons l ls)
  have "(\<lambda>k. (n((site, l) := n (site, l) + 1)) k + count_list (map (Pair site) ls) k)
      = (\<lambda>k. n k + count_list (map (Pair site) (l # ls)) k)" by auto
  then show ?case
    by (auto simp: Let_def Cons.IH sum.map_comp fun_upd_def) (auto simp: map_sum_def split: sum.splits)
qed simp

lemma ask_stages_eq:
  "ask_stages b short stage cells n ids =
     map_sum id ((@) ids) (ask (bucket b) (schedule_from short stage cells) n)"
proof (induction cells arbitrary: stage n ids)
  case (Cons ls cells)
  show ?case
    by (auto simp: ask_levels_eq ask_append Cons.IH sum.map_comp map_sum_def split: sum.splits)
qed simp

lemma SelectQuestions_eq:
  "SelectQuestions rng j short pool =
     (case composition j of None \<Rightarrow> Inl (UnknownJenjang j)
      | Some cells \<Rightarrow> ask (bucket (shuffledBuckets rng pool)) (schedule j short) (\<lambda>_. 0))"
  by (auto simp: SelectQuestions_def schedule_def ask_stages_eq map_sum_def split: option.splits sum.splits)

subsection \<open>What one pass delivers\<close>

lemma set_drop_Suc: "x \<in> set (drop (Suc m) xs) \<Longrightarrow> x \<in> set (drop m xs)"
  using set_drop_subset_set_drop [of m "Suc m" xs] by auto

lemma ask_cells:
  "ask b ks n = Inr ids \<Longrightarrow> list_all2 (\<lambda>i k. i \<in> set (drop (n k) (b k))) ids ks"
proof (induction ks arbitrary: n ids)
  case (Cons k ks)
  then obtain rest where r: "\<not> length (b k) \<le> n k" "ids = b k ! n k # rest"
    "ask b ks (n(k := Suc (n k))) = Inr rest"
    by (auto simp: map_sum_def split: if_splits sum.splits)
  have "list_all2 (\<lambda>i j. i \<in> set (drop ((n(k := Suc (n k))) j) (b j))) rest ks"
    by (rule Cons.IH) (rule r)
  then have "list_all2 (\<lambda>i j. i \<in> set (drop (n j) (b j))) rest ks"
    by (rule list_all2_mono) (auto split: if_splits dest: set_drop_Suc)
  moreover have "b k ! n k \<in> set (drop (n k) (b k))" using r(1) by (simp flip: Cons_nth_drop_Suc)
  ultimately show ?case using r(2) by simp
qed simp

lemma list_all2_set1_witness:
  "list_all2 P xs ys \<Longrightarrow> x \<in> set xs \<Longrightarrow> \<exists>y. P x y"
  by (metis in_set_conv_nth list_all2_conv_all_nth)

lemma ask_distinct:
  assumes "\<And>k. distinct (b k)" "\<And>k k'. k \<noteq> k' \<Longrightarrow> set (b k) \<inter> set (b k') = {}"
  shows "ask b ks n = Inr ids \<Longrightarrow> distinct ids"
proof (induction ks arbitrary: n ids)
  case (Cons k ks)
  then obtain rest where r: "\<not> length (b k) \<le> n k" "ids = b k ! n k # rest"
    "ask b ks (n(k := Suc (n k))) = Inr rest"
    by (auto simp: map_sum_def split: if_splits sum.splits)
  have "b k ! n k \<notin> set rest"
  proof
    assume "b k ! n k \<in> set rest"
    then obtain j where j: "b k ! n k \<in> set (drop ((n(k := Suc (n k))) j) (b j))"
      using ask_cells [OF r(3)] by (meson list_all2_set1_witness)
    have mem: "b k ! n k \<in> set (b k)" using r(1) by simp
    have "j = k" using j mem assms(2) [of j k] by (auto dest: in_set_dropD)
    then have "b k ! n k \<in> set (drop (Suc (n k)) (b k))" using j by simp
    moreover have "b k ! n k \<in> set (take (Suc (n k)) (b k))"
      using r(1) by (simp add: take_Suc_conv_app_nth)
    ultimately show False using assms(1) [of k] set_take_disj_set_drop_if_distinct [of "b k" "Suc (n k)" "Suc (n k)"]
      by auto
  qed
  then show ?case using Cons.IH [OF r(3)] r(2) by simp
qed simp

lemma ask_succeeds_iff:
  "(\<exists>ids. ask b ks n = Inr ids) \<longleftrightarrow> (\<forall>k \<in> set ks. n k + count_list ks k \<le> length (b k))"
proof (induction ks arbitrary: n)
  case (Cons k ks)
  have *: "(\<exists>ids. map_sum id (Cons x) r = Inr ids) \<longleftrightarrow> (\<exists>ids. r = Inr ids)"
    for x and r :: "select_error + string list" by (cases r) auto
  show ?case
  proof (cases "length (b k) \<le> n k")
    case True
    then show ?thesis by auto
  next
    case False
    have "(\<forall>j \<in> set ks. (n(k := Suc (n k))) j + count_list ks j \<le> length (b j)) \<longleftrightarrow>
      (\<forall>j \<in> set (k # ks). n j + count_list (k # ks) j \<le> length (b j))"
      using False count_list_0_iff [of ks k] by (auto split: if_splits)
    moreover have "(\<exists>ids. ask b (k # ks) n = Inr ids) \<longleftrightarrow> (\<exists>ids. ask b ks (n(k := Suc (n k))) = Inr ids)"
      using False by (simp add: *)
    ultimately show ?thesis by (simp only: Cons.IH)
  qed
qed simp

subsection \<open>Properties of SelectQuestions\<close>

lemma schedule_length:
  "composition j = Some cells \<Longrightarrow> length (schedule j short) = (if short then 10 else 15)"
  by (auto simp: schedule_def composition_def levelsToAsk_def split: if_splits)

lemma composition_Some: "composition j \<noteq> None \<longleftrightarrow> j \<in> {''SD'', ''SMP'', ''SMA''}"
  by (auto simp: composition_def)

lemma selection_follows_schedule:
  assumes "SelectQuestions rng j short pool = Inr ids" "distinct (map qr_id pool)"
  shows "list_all2 (\<lambda>i cell. i \<in> set (in_cell pool cell)) ids (schedule j short) \<and>
    distinct ids \<and> length ids = (if short then 10 else 15)"
proof -
  obtain cells where c: "composition j = Some cells"
    "ask (bucket (shuffledBuckets rng pool)) (schedule j short) (\<lambda>_. 0) = Inr ids"
    using assms(1) by (auto simp: SelectQuestions_eq split: option.splits)
  have "list_all2 (\<lambda>i k. i \<in> set (bucket (shuffledBuckets rng pool) k)) ids (schedule j short)"
    using ask_cells [OF c(2)] by simp
  then have cells: "list_all2 (\<lambda>i k. i \<in> set (in_cell pool k)) ids (schedule j short)"
    by (simp only: set_bucket)
  moreover have "distinct ids"
    using assms(2) by (intro ask_distinct [OF _ _ c(2)] distinct_bucket bucket_disjoint)
  ultimately show ?thesis
    using schedule_length [OF c(1)] by (auto dest: list_all2_lengthD)
qed

text \<open>
  A successful selection follows the composition table: 15 questions (10 in a short session),
  in stage order, the i-th of them an active question of the pool with the site and the level the
  table asks for, and no question twice (the pool has distinct ids).
\<close>

theorem SelectQuestions_sound:
  assumes "SelectQuestions rng j short pool = Inr ids" "distinct (map qr_id pool)"
  shows "list_all2 (\<lambda>i cell. i \<in> set (in_cell pool cell)) ids (schedule j short) \<and>
    distinct ids \<and> length ids = (if short then 10 else 15)"
  using assms by (rule selection_follows_schedule)

lemma SelectQuestions_Inr_iff:
  "(\<exists>ids. SelectQuestions rng j short pool = Inr ids) \<longleftrightarrow>
   j \<in> {''SD'', ''SMP'', ''SMA''} \<and>
   list_all (\<lambda>cell. count_list (schedule j short) cell \<le> length (in_cell pool cell)) (schedule j short)"
proof (cases "composition j")
  case None
  then show ?thesis using composition_Some [of j] by (auto simp: SelectQuestions_eq)
next
  case (Some cells)
  then show ?thesis
    using composition_Some [of j]
    by (simp add: SelectQuestions_eq ask_succeeds_iff length_bucket list_all_iff)
qed

text \<open>
  C34. The selection fails exactly when it must: for a known jenjang it succeeds, whatever the
  random draws, if and only if the pool has enough questions in every cell of the schedule.
\<close>

theorem SelectQuestions_succeeds_iff:
  "(\<exists>ids. SelectQuestions rng j short pool = Inr ids) \<longleftrightarrow>
   j \<in> {''SD'', ''SMP'', ''SMA''} \<and>
   list_all (\<lambda>cell. count_list (schedule j short) cell \<le> length (in_cell pool cell)) (schedule j short)"
  by (rule SelectQuestions_Inr_iff)

definition example_pool :: "question_ref list" where
  "example_pool = map (\<lambda>n. \<lparr>qr_id = replicate n CHR ''q'', qr_site = int (n div 9) + 1,
     qr_level = int (n mod 9 div 3) + 1\<rparr>) [0..<45]"

theorem SelectQuestions_sound_witness:
  "\<exists>ids. SelectQuestions (\<lambda>n. 7 * n) ''SMA'' False example_pool = Inr ids \<and>
     distinct ids \<and> length ids = 15"
proof -
  have "\<exists>ids. SelectQuestions (\<lambda>n. 7 * n) ''SMA'' False example_pool = Inr ids"
    unfolding SelectQuestions_Inr_iff by code_simp
  then obtain ids where i: "SelectQuestions (\<lambda>n. 7 * n) ''SMA'' False example_pool = Inr ids" ..
  have "distinct (map qr_id example_pool)"
    by (auto simp: example_pool_def distinct_map inj_on_def dest: arg_cong [where f = length])
  with i show ?thesis using SelectQuestions_sound [OF i] by auto
qed

end
