(* ===== verification/Utf8.thy ===== *)
theory Utf8
  imports Prelude
begin

section \<open>Text: UTF-8 strings of Go\<close>

text \<open>
  Go strings are bytes; a \<open>string\<close> of the model is the list of its bytes. Here is what the code uses
  of \<open>strings\<close>, \<open>unicode\<close> and \<open>utf8\<close>, on valid UTF-8 (\<open>encoding/json\<close> and Postgres deliver nothing
  else): white space, control characters, counting runes.
\<close>

definition is_cont :: "char \<Rightarrow> bool" where
  "is_cont c \<longleftrightarrow> 128 \<le> (of_char c :: nat) \<and> (of_char c :: nat) < 192"

text \<open>\<open>utf8.RuneCountInString\<close>: all bytes but the continuation bytes.\<close>

definition rune_count :: "string \<Rightarrow> nat" where
  "rune_count s = length (filter (\<lambda>c. \<not> is_cont c) s)"

text \<open>The encodings of the runes of \<open>unicode.IsSpace\<close>.\<close>

definition space_runes :: "string list" where
  "space_runes =
    [[CHR 0x09], [CHR 0x0A], [CHR 0x0B], [CHR 0x0C], [CHR 0x0D], [CHR 0x20], [CHR 0xC2, CHR 0x85],
     [CHR 0xC2, CHR 0xA0], [CHR 0xE1, CHR 0x9A, CHR 0x80], [CHR 0xE2, CHR 0x80, CHR 0x80],
     [CHR 0xE2, CHR 0x80, CHR 0x81], [CHR 0xE2, CHR 0x80, CHR 0x82],
     [CHR 0xE2, CHR 0x80, CHR 0x83], [CHR 0xE2, CHR 0x80, CHR 0x84],
     [CHR 0xE2, CHR 0x80, CHR 0x85], [CHR 0xE2, CHR 0x80, CHR 0x86],
     [CHR 0xE2, CHR 0x80, CHR 0x87], [CHR 0xE2, CHR 0x80, CHR 0x88],
     [CHR 0xE2, CHR 0x80, CHR 0x89], [CHR 0xE2, CHR 0x80, CHR 0x8A],
     [CHR 0xE2, CHR 0x80, CHR 0xA8], [CHR 0xE2, CHR 0x80, CHR 0xA9],
     [CHR 0xE2, CHR 0x80, CHR 0xAF], [CHR 0xE2, CHR 0x81, CHR 0x9F], [CHR 0xE3, CHR 0x80, CHR 0x80]]"

definition starts_with :: "string \<Rightarrow> string \<Rightarrow> bool" where
  "starts_with w s \<longleftrightarrow> take (length w) s = w"

text \<open>Dropping words of a list from the front of a string, as long as there is one.\<close>

fun strip :: "string list \<Rightarrow> string \<Rightarrow> string" where
  "strip ws [] = []"
| "strip ws (c # s) =
     (case find (\<lambda>w. w \<noteq> [] \<and> starts_with w (c # s)) ws of
        None \<Rightarrow> c # s
      | Some w \<Rightarrow> strip ws (drop (length w - 1) s))"

definition TrimSpace :: "string \<Rightarrow> string" where
  "TrimSpace s = rev (strip (map rev space_runes) (rev (strip space_runes s)))"

text \<open>\<open>unicode.IsControl\<close> on some rune: category Cc, U+0000 to U+001F and U+007F to U+009F.\<close>

fun has_control :: "string \<Rightarrow> bool" where
  "has_control [] = False"
| "has_control (c # s) =
     ((of_char c :: nat) < 32 \<or> (of_char c :: nat) = 127 \<or>
      (of_char c :: nat) = 194 \<and> (case s of [] \<Rightarrow> False | x # _ \<Rightarrow> 128 \<le> (of_char x :: nat) \<and> (of_char x :: nat) < 160) \<or>
      has_control s)"

text \<open>\<open>strconv.Itoa\<close>.\<close>

fun digits :: "nat \<Rightarrow> string" where
  "digits n = (if n < 10 then [char_of (48 + n)] else digits (n div 10) @ [char_of (48 + n mod 10)])"

definition Itoa :: "int \<Rightarrow> string" where
  "Itoa n = (if n < 0 then CHR ''-'' # digits (nat (- n)) else digits (nat n))"

lemma length_strip: "length (strip ws s) \<le> length s"
  by (induction ws s rule: strip.induct) (auto split: option.split)

lemma length_TrimSpace: "length (TrimSpace s) \<le> length s"
  using length_strip [of "map rev space_runes" "rev (strip space_runes s)"] length_strip [of space_runes s]
  by (simp add: TrimSpace_def)

lemma strip_suffix: "\<exists>xs. s = xs @ strip ws s"
proof (induction ws s rule: strip.induct)
  case (2 ws c s)
  show ?case
  proof (cases "find (\<lambda>w. w \<noteq> [] \<and> starts_with w (c # s)) ws")
    case (Some w)
    obtain xs where "drop (length w - 1) s = xs @ strip ws (drop (length w - 1) s)" using 2 Some by blast
    moreover have "s = take (length w - 1) s @ drop (length w - 1) s" by simp
    ultimately have "c # s = (c # take (length w - 1) s @ xs) @ strip ws (drop (length w - 1) s)"
      by (metis append.assoc append_Cons)
    moreover have "strip ws (c # s) = strip ws (drop (length w - 1) s)" using Some by simp
    ultimately show ?thesis by metis
  qed (use 2 in simp)
qed simp

text \<open>Trimming cuts off both ends and keeps what is between.\<close>

lemma TrimSpace_infix: "\<exists>xs ys. s = xs @ TrimSpace s @ ys"
proof -
  obtain xs where s: "s = xs @ strip space_runes s" using strip_suffix by blast
  obtain ys where "rev (strip space_runes s) = ys @ strip (map rev space_runes) (rev (strip space_runes s))"
    using strip_suffix by blast
  then have "strip space_runes s = TrimSpace s @ rev ys"
    by (metis TrimSpace_def rev_append rev_rev_ident)
  then show ?thesis using s by metis
qed

end
