(* ===== verification/Db.thy ===== *)
theory Db
  imports StoreTypes
begin

section \<open>The database: api/db/migrations and api/internal/store/queries\<close>

text \<open>
  The six tables as lists of rows, oldest first, and every statement the store sends as a
  function on them. A statement returns \<open>Inl\<close> the driver's error or \<open>Inr\<close> its result and the
  new tables; the constraints of the migrations that a statement can break are checked in it.

  What lies outside the repository is the record \<open>pg\<close>: \<open>uuid.Parse\<close> (google/uuid), the ids
  \<open>gen_random_uuid()\<close> hands out, the server's clock, and \<open>fault\<close>, which says what becomes of
  the n-th round trip to the server: it succeeds, it fails without effect, or it takes effect and
  the acknowledgement is lost on the way back. Length limits of VARCHAR columns and the like are
  among the failures \<open>fault\<close> stands for. Transactions are serial: the row lock of a join, the
  advisory lock of a room creation and the primary key of an answer order the ones that conflict.
\<close>

subsection \<open>Tables\<close>

record host_row =
  hr_id :: uid
  hr_email :: string
  hr_passwordHash :: string
  hr_name :: string
  hr_lastLoginAt :: "time option"

record room_row =
  rr_id :: uid
  rr_pin :: string
  rr_hostID :: uid
  rr_jenjang :: string
  rr_shortSession :: bool
  rr_accuracyMode :: bool
  rr_status :: status
  rr_questionIDs :: "string list"
  rr_createdAt :: time
  rr_startedAt :: "time option"
  rr_endedAt :: "time option"

record player_row =
  pr_id :: uid
  pr_roomID :: uid
  pr_nickname :: string
  pr_schoolID :: "int option"
  pr_jenjang :: string
  pr_avatar :: int
  pr_lang :: string
  pr_score :: int
  pr_correctCount :: int
  pr_totalMs :: int
  pr_currentIndex :: int
  pr_streak :: int
  pr_finishedAt :: "time option"

record answer_row =
  ar_playerID :: uid
  ar_questionID :: string
  ar_servedAt :: time
  ar_answeredAt :: "time option"
  ar_optionID :: "string option"
  ar_correct :: "bool option"
  ar_points :: int

record school_row =
  sr_id :: int
  sr_name :: string
  sr_jenjang :: "string option"
  sr_city :: "string option"
  sr_verified :: bool

record question_row =
  qr_qid :: string
  qr_qsite :: int
  qr_qlevel :: int
  qr_qtype :: string
  qr_prompt :: json
  qr_options :: json
  qr_explanation :: json
  qr_active :: bool

record tables =
  tb_hosts :: "host_row list"
  tb_rooms :: "room_row list"
  tb_players :: "player_row list"
  tb_answers :: "answer_row list"
  tb_schools :: "school_row list"
  tb_questions :: "question_row list"

subsection \<open>The server\<close>

datatype fault = NoFault | Fails | AckLost

datatype db_error = NoRows | UniqueViolation | ForeignKeyViolation | CheckViolation | Unavailable

record pg =
  uuid_parse :: "string \<Rightarrow> uid option"
  gen_uuid :: "nat \<Rightarrow> uid"
  server_now :: "nat \<Rightarrow> time"
  fault :: "nat \<Rightarrow> fault"

text \<open>\<open>trips\<close> counts the round trips made so far.\<close>

record db =
  tabs :: tables
  trips :: nat

type_synonym 'a stmt = "tables \<Rightarrow> db_error + 'a \<times> tables"

text \<open>A statement outside a transaction commits by itself.\<close>

definition exec :: "pg \<Rightarrow> (time \<Rightarrow> 'a stmt) \<Rightarrow> db \<Rightarrow> (db_error + 'a) \<times> db" where
  "exec pg s d =
     (let d' = d\<lparr>trips := Suc (trips d)\<rparr> in
      case fault pg (trips d) of
        Fails \<Rightarrow> (Inl Unavailable, d')
      | f \<Rightarrow> (case s (server_now pg (trips d)) (tabs d) of
                Inl e \<Rightarrow> (Inl (if f = AckLost then Unavailable else e), d')
              | Inr (a, t) \<Rightarrow> (if f = AckLost then Inl Unavailable else Inr a, d'\<lparr>tabs := t\<rparr>)))"

text \<open>
  A transaction works on its own copy of the tables; only a commit installs them. A statement in
  it whose answer is lost has failed, since the rollback that follows discards its effect.
\<close>

definition tx_begin :: "pg \<Rightarrow> db \<Rightarrow> (db_error + tables) \<times> db" where
  "tx_begin pg d = (if fault pg (trips d) = NoFault then Inr (tabs d) else Inl Unavailable,
     d\<lparr>trips := Suc (trips d)\<rparr>)"

definition tx_exec :: "pg \<Rightarrow> (time \<Rightarrow> 'a stmt) \<Rightarrow> tables \<Rightarrow> db \<Rightarrow> (db_error + 'a \<times> tables) \<times> db" where
  "tx_exec pg s t d =
     (if fault pg (trips d) = NoFault then s (server_now pg (trips d)) t else Inl Unavailable,
      d\<lparr>trips := Suc (trips d)\<rparr>)"

definition tx_commit :: "pg \<Rightarrow> tables \<Rightarrow> db \<Rightarrow> bool \<times> db" where
  "tx_commit pg t d =
     (let d' = d\<lparr>trips := Suc (trips d)\<rparr> in
      case fault pg (trips d) of
        NoFault \<Rightarrow> (True, d'\<lparr>tabs := t\<rparr>)
      | Fails \<Rightarrow> (False, d')
      | AckLost \<Rightarrow> (False, d'\<lparr>tabs := t\<rparr>))"

lemma exec_result: "exec pg s d = (Inr a, d') \<Longrightarrow> \<exists>t. s (server_now pg (trips d)) (tabs d) = Inr (a, t) \<and> tabs d' = t"
  by (auto simp: exec_def Let_def split: fault.splits sum.splits prod.splits if_splits)

subsection \<open>answers.sql\<close>

text \<open>\<open>ON CONFLICT DO NOTHING\<close>: the result is the number of rows inserted.\<close>

definition InsertAnswer :: "answer_row \<Rightarrow> time \<Rightarrow> nat stmt" where
  "InsertAnswer a now t =
     (if ar_points a < 0 then Inl CheckViolation
      else if \<exists>b \<in> set (tb_answers t). ar_playerID b = ar_playerID a \<and> ar_questionID b = ar_questionID a
        then Inr (0, t)
      else if \<not> (\<exists>p \<in> set (tb_players t). pr_id p = ar_playerID a) \<or>
              \<not> (\<exists>q \<in> set (tb_questions t). qr_qid q = ar_questionID a) then Inl ForeignKeyViolation
      else Inr (1, t\<lparr>tb_answers := tb_answers t @ [a]\<rparr>))"

definition progress_ok :: "int \<Rightarrow> int \<Rightarrow> int \<Rightarrow> bool" where
  "progress_ok totalMs currentIndex streak \<longleftrightarrow>
     0 \<le> totalMs \<and> 0 \<le> currentIndex \<and> currentIndex \<le> 15 \<and> 0 \<le> streak"

definition UpdatePlayerProgress ::
    "uid \<Rightarrow> int \<Rightarrow> int \<Rightarrow> int \<Rightarrow> int \<Rightarrow> int \<Rightarrow> bool \<Rightarrow> time \<Rightarrow> unit stmt" where
  "UpdatePlayerProgress pid score correct totalMs currentIndex streak finished now t =
     (if (\<exists>p \<in> set (tb_players t). pr_id p = pid) \<and> \<not> progress_ok totalMs currentIndex streak
      then Inl CheckViolation
      else Inr ((), t\<lparr>tb_players := map (\<lambda>p. if pr_id p = pid
          then p\<lparr>pr_score := score, pr_correctCount := correct, pr_totalMs := totalMs,
                 pr_currentIndex := currentIndex, pr_streak := streak,
                 pr_finishedAt := (if finished then (case pr_finishedAt p of None \<Rightarrow> Some now | x \<Rightarrow> x)
                                   else pr_finishedAt p)\<rparr>
          else p) (tb_players t)\<rparr>))"

subsection \<open>players.sql\<close>

definition CountRoomPlayers :: "uid \<Rightarrow> time \<Rightarrow> nat stmt" where
  "CountRoomPlayers room now t = Inr (length (filter (\<lambda>p. pr_roomID p = room) (tb_players t)), t)"

record insert_player =
  ip_roomID :: uid
  ip_nickname :: string
  ip_schoolID :: "int option"
  ip_jenjang :: string
  ip_avatar :: int
  ip_lang :: string

definition InsertPlayer :: "uid \<Rightarrow> insert_player \<Rightarrow> time \<Rightarrow> uid stmt" where
  "InsertPlayer fresh i now t =
     (if ip_avatar i < 1 \<or> ip_avatar i > 12 \<or> ip_lang i \<notin> {''id'', ''en''} then Inl CheckViolation
      else if fresh \<in> set (map pr_id (tb_players t)) \<or>
         (\<exists>p \<in> set (tb_players t). pr_roomID p = ip_roomID i \<and> pr_nickname p = ip_nickname i)
        then Inl UniqueViolation
      else if ip_roomID i \<notin> set (map rr_id (tb_rooms t)) \<or>
         (case ip_schoolID i of None \<Rightarrow> False | Some s \<Rightarrow> s \<notin> set (map sr_id (tb_schools t)))
        then Inl ForeignKeyViolation
      else Inr (fresh, t\<lparr>tb_players := tb_players t @
         [\<lparr>pr_id = fresh, pr_roomID = ip_roomID i, pr_nickname = ip_nickname i,
           pr_schoolID = ip_schoolID i, pr_jenjang = ip_jenjang i, pr_avatar = ip_avatar i,
           pr_lang = ip_lang i, pr_score = 0, pr_correctCount = 0, pr_totalMs = 0,
           pr_currentIndex = 0, pr_streak = 0, pr_finishedAt = None\<rparr>]\<rparr>))"

record list_player =
  lp_id :: uid
  lp_nickname :: string
  lp_avatar :: int
  lp_lang :: string
  lp_schoolName :: string
  lp_score :: int
  lp_correctCount :: int
  lp_totalMs :: int
  lp_currentIndex :: int
  lp_streak :: int
  lp_finished :: bool

text \<open>\<open>COALESCE(s.name, '')\<close> over the left join with schools.\<close>

definition school_name :: "tables \<Rightarrow> int option \<Rightarrow> string" where
  "school_name t sid =
     (case sid of None \<Rightarrow> ''''
      | Some i \<Rightarrow> (case find (\<lambda>s. sr_id s = i) (tb_schools t) of None \<Rightarrow> '''' | Some s \<Rightarrow> sr_name s))"

definition ListRoomPlayers :: "uid \<Rightarrow> time \<Rightarrow> list_player list stmt" where
  "ListRoomPlayers room now t =
     Inr (map (\<lambda>p. \<lparr>lp_id = pr_id p, lp_nickname = pr_nickname p, lp_avatar = pr_avatar p,
        lp_lang = pr_lang p, lp_schoolName = school_name t (pr_schoolID p), lp_score = pr_score p,
        lp_correctCount = pr_correctCount p, lp_totalMs = pr_totalMs p,
        lp_currentIndex = pr_currentIndex p, lp_streak = pr_streak p,
        lp_finished = (pr_finishedAt p \<noteq> None)\<rparr>)
        (filter (\<lambda>p. pr_roomID p = room) (tb_players t)), t)"

text \<open>\<open>ON DELETE CASCADE\<close>: the player's answers go with the row.\<close>

definition DeletePlayerRow :: "uid \<Rightarrow> time \<Rightarrow> unit stmt" where
  "DeletePlayerRow pid now t =
     Inr ((), t\<lparr>tb_players := filter (\<lambda>p. pr_id p \<noteq> pid) (tb_players t),
                tb_answers := filter (\<lambda>a. ar_playerID a \<noteq> pid) (tb_answers t)\<rparr>)"

subsection \<open>questions.sql\<close>

definition ListSelectableQuestions :: "time \<Rightarrow> question_row list stmt" where
  "ListSelectableQuestions now t =
     Inr (filter (\<lambda>q. qr_active q \<and> 1 \<le> qr_qsite q \<and> qr_qsite q \<le> 5) (tb_questions t), t)"

definition GetQuestionsByIDs :: "string list \<Rightarrow> time \<Rightarrow> question_row list stmt" where
  "GetQuestionsByIDs ids now t = Inr (filter (\<lambda>q. qr_qid q \<in> set ids) (tb_questions t), t)"

subsection \<open>rooms.sql\<close>

definition two_hours :: duration where "two_hours = 120 * minute"

definition CountActiveRooms :: "time \<Rightarrow> nat stmt" where
  "CountActiveRooms now t =
     Inr (length (filter (\<lambda>r. rr_status r \<noteq> Ended \<and> rr_createdAt r > now - two_hours) (tb_rooms t)), t)"

record insert_room =
  ir_pin :: string
  ir_hostID :: uid
  ir_jenjang :: string
  ir_shortSession :: bool
  ir_accuracyMode :: bool
  ir_questionIDs :: "string list"

definition InsertRoom :: "uid \<Rightarrow> insert_room \<Rightarrow> time \<Rightarrow> uid stmt" where
  "InsertRoom fresh i now t =
     (if ir_jenjang i \<notin> {''SD'', ''SMP'', ''SMA''} then Inl CheckViolation
      else if fresh \<in> set (map rr_id (tb_rooms t)) \<or> ir_pin i \<in> set (map rr_pin (tb_rooms t))
        then Inl UniqueViolation
      else if ir_hostID i \<notin> set (map hr_id (tb_hosts t)) then Inl ForeignKeyViolation
      else Inr (fresh, t\<lparr>tb_rooms := tb_rooms t @
         [\<lparr>rr_id = fresh, rr_pin = ir_pin i, rr_hostID = ir_hostID i, rr_jenjang = ir_jenjang i,
           rr_shortSession = ir_shortSession i, rr_accuracyMode = ir_accuracyMode i,
           rr_status = Lobby, rr_questionIDs = ir_questionIDs i, rr_createdAt = now,
           rr_startedAt = None, rr_endedAt = None\<rparr>]\<rparr>))"

definition GetActiveRoomByPIN :: "string \<Rightarrow> time \<Rightarrow> room_row stmt" where
  "GetActiveRoomByPIN pin now t =
     (case find (\<lambda>r. rr_pin r = pin \<and> rr_status r \<noteq> Ended) (tb_rooms t) of
        None \<Rightarrow> Inl NoRows | Some r \<Rightarrow> Inr (r, t))"

definition GetRoomByID :: "uid \<Rightarrow> time \<Rightarrow> room_row stmt" where
  "GetRoomByID rid now t =
     (case find (\<lambda>r. rr_id r = rid) (tb_rooms t) of None \<Rightarrow> Inl NoRows | Some r \<Rightarrow> Inr (r, t))"

definition LockRoomForJoin :: "uid \<Rightarrow> time \<Rightarrow> uid stmt" where
  "LockRoomForJoin rid now t =
     (case find (\<lambda>r. rr_id r = rid \<and> rr_status r \<noteq> Ended) (tb_rooms t) of
        None \<Rightarrow> Inl NoRows | Some r \<Rightarrow> Inr (rr_id r, t))"

definition MarkRoomStartedRow :: "uid \<Rightarrow> time \<Rightarrow> nat stmt" where
  "MarkRoomStartedRow rid now t =
     (let hit = (\<lambda>r. rr_id r = rid \<and> rr_status r = Lobby) in
      Inr (length (filter hit (tb_rooms t)),
           t\<lparr>tb_rooms := map (\<lambda>r. if hit r then r\<lparr>rr_status := Running, rr_startedAt := Some now\<rparr> else r)
                         (tb_rooms t)\<rparr>))"

definition MarkRoomEndedRow :: "uid \<Rightarrow> time \<Rightarrow> unit stmt" where
  "MarkRoomEndedRow rid now t =
     Inr ((), t\<lparr>tb_rooms := map (\<lambda>r. if rr_id r = rid \<and> rr_status r \<noteq> Ended
        then r\<lparr>rr_status := Ended, rr_endedAt := Some now\<rparr> else r) (tb_rooms t)\<rparr>)"

subsection \<open>hosts.sql, schools.sql\<close>

definition GetHostByEmail :: "string \<Rightarrow> time \<Rightarrow> host_row stmt" where
  "GetHostByEmail email now t =
     (case find (\<lambda>h. hr_email h = email) (tb_hosts t) of None \<Rightarrow> Inl NoRows | Some h \<Rightarrow> Inr (h, t))"

definition TouchHostLoginRow :: "uid \<Rightarrow> time \<Rightarrow> unit stmt" where
  "TouchHostLoginRow hid now t =
     Inr ((), t\<lparr>tb_hosts := map (\<lambda>h. if hr_id h = hid then h\<lparr>hr_lastLoginAt := Some now\<rparr> else h) (tb_hosts t)\<rparr>)"

definition UpsertHost :: "uid \<Rightarrow> string \<Rightarrow> string \<Rightarrow> string \<Rightarrow> time \<Rightarrow> unit stmt" where
  "UpsertHost fresh email hash name now t =
     (if \<exists>h \<in> set (tb_hosts t). hr_email h = email
      then Inr ((), t\<lparr>tb_hosts := map (\<lambda>h. if hr_email h = email
             then h\<lparr>hr_passwordHash := hash, hr_name := name\<rparr> else h) (tb_hosts t)\<rparr>)
      else if fresh \<in> set (map hr_id (tb_hosts t)) then Inl UniqueViolation
      else Inr ((), t\<lparr>tb_hosts := tb_hosts t @ [\<lparr>hr_id = fresh, hr_email = email, hr_passwordHash = hash,
             hr_name = name, hr_lastLoginAt = None\<rparr>]\<rparr>))"

definition GetSchoolName :: "int \<Rightarrow> time \<Rightarrow> string stmt" where
  "GetSchoolName sid now t =
     (case find (\<lambda>s. sr_id s = sid) (tb_schools t) of None \<Rightarrow> Inl NoRows | Some s \<Rightarrow> Inr (sr_name s, t))"

subsection \<open>Well-formed tables\<close>

text \<open>The keys and checks of the migrations, as the invariant every statement keeps.\<close>

definition player_row_ok :: "player_row \<Rightarrow> bool" where
  "player_row_ok p \<longleftrightarrow> progress_ok (pr_totalMs p) (pr_currentIndex p) (pr_streak p) \<and>
     1 \<le> pr_avatar p \<and> pr_avatar p \<le> 12 \<and> pr_lang p \<in> {''id'', ''en''}"

definition tables_ok :: "tables \<Rightarrow> bool" where
  "tables_ok t \<longleftrightarrow>
     distinct (map rr_id (tb_rooms t)) \<and> distinct (map rr_pin (tb_rooms t)) \<and>
     distinct (map pr_id (tb_players t)) \<and>
     distinct (map (\<lambda>p. (pr_roomID p, pr_nickname p)) (tb_players t)) \<and>
     distinct (map (\<lambda>a. (ar_playerID a, ar_questionID a)) (tb_answers t)) \<and>
     (\<forall>p \<in> set (tb_players t). player_row_ok p \<and> pr_roomID p \<in> set (map rr_id (tb_rooms t))) \<and>
     (\<forall>a \<in> set (tb_answers t). 0 \<le> ar_points a \<and> ar_playerID a \<in> set (map pr_id (tb_players t)))"

end
