(* ===== verification/Store.thy ===== *)
theory Store
  imports Db Utf8
begin

section \<open>The store: api/internal/store\<close>

text \<open>
  The operations of \<open>*store.Store\<close> that the rooms and the join and create handlers use, each as
  the sequence of round trips it makes. \<open>SaveResult\<close>, \<open>JoinRoom\<close> and \<open>CreateRoom\<close> are
  transactions: the deferred rollback makes every early return leave the tables alone.

  The lemmas say that \<open>SaveResult\<close> is all or nothing, that it records an answer at most once,
  and that the caps on players and rooms and the uniqueness of nicknames hold in every state.
\<close>

definition specialSchools :: "string list" where
  "specialSchools = [''Sekolah lain'', ''Umum / General visitor'']"

definition MaxActiveRooms :: nat where "MaxActiveRooms = 5"
definition MaxPlayersInRoom :: nat where "MaxPlayersInRoom = 15"
definition pinSpace :: nat where "pinSpace = 1000000"
definition pinAttempts :: nat where "pinAttempts = 8"

definition notFoundOr :: "db_error \<Rightarrow> string \<Rightarrow> store_error" where
  "notFoundOr e op = (if e = NoRows then NotFound else DbFailure op)"

subsection \<open>gameplay.go\<close>

definition questionFromRow :: "question_row \<Rightarrow> store_error + question" where
  "questionFromRow row =
     (case unmarshal_text (qr_prompt row) of None \<Rightarrow> Inl (DbFailure ''prompt'')
      | Some prompt \<Rightarrow>
     (case unmarshal_text (qr_explanation row) of None \<Rightarrow> Inl (DbFailure ''explanation'')
      | Some explanation \<Rightarrow>
     (case unmarshal_options (qr_options row) of None \<Rightarrow> Inl (DbFailure ''options'')
      | Some options \<Rightarrow>
          Inr \<lparr>q_id = qr_qid row, q_site = qr_qsite row, q_level = qr_qlevel row,
               q_type = qr_qtype row, q_prompt = prompt, q_explanation = explanation,
               q_options = options\<rparr>)))"

fun index_rows :: "question_row list \<Rightarrow> (string \<rightharpoonup> question) \<Rightarrow> store_error + (string \<rightharpoonup> question)" where
  "index_rows [] byID = Inr byID"
| "index_rows (row # rows) byID =
     (case questionFromRow row of
        Inl e \<Rightarrow> Inl e
      | Inr q \<Rightarrow> index_rows rows (byID(q_id q \<mapsto> q)))"

fun order_questions :: "string list \<Rightarrow> (string \<rightharpoonup> question) \<Rightarrow> store_error + question list" where
  "order_questions [] byID = Inr []"
| "order_questions (i # ids) byID =
     (case byID i of
        None \<Rightarrow> Inl NotFound
      | Some q \<Rightarrow> (case order_questions ids byID of Inl e \<Rightarrow> Inl e | Inr qs \<Rightarrow> Inr (q # qs)))"

definition QuestionsByIDs :: "pg \<Rightarrow> string list \<Rightarrow> db \<Rightarrow> (store_error + question list) \<times> db" where
  "QuestionsByIDs pg ids d =
     (case exec pg (GetQuestionsByIDs ids) d of
        (Inl e, d') \<Rightarrow> (Inl (DbFailure ''get questions''), d')
      | (Inr rows, d') \<Rightarrow>
          (case index_rows rows Map.empty of
             Inl e \<Rightarrow> (Inl e, d')
           | Inr byID \<Rightarrow> (order_questions ids byID, d')))"

definition answerParams :: "uid \<Rightarrow> result \<Rightarrow> answer_row" where
  "answerParams pid r =
     \<lparr>ar_playerID = pid, ar_questionID = rs_questionID r, ar_servedAt = rs_servedAt r,
      ar_answeredAt = rs_answeredAt r, ar_optionID = rs_optionID r, ar_correct = rs_correct r,
      ar_points = toInt16 (rs_points r)\<rparr>"

definition updateParams :: "uid \<Rightarrow> result \<Rightarrow> time \<Rightarrow> unit stmt" where
  "updateParams pid r =
     UpdatePlayerProgress pid (toInt32 (rs_score r)) (toInt16 (rs_correctCount r))
       (toInt32 (rs_totalMs r)) (toInt16 (rs_currentIndex r)) (toInt16 (rs_streak r)) (rs_finished r)"

text \<open>The result is the error, \<open>None\<close> for nil.\<close>

definition SaveResult :: "pg \<Rightarrow> result \<Rightarrow> db \<Rightarrow> store_error option \<times> db" where
  "SaveResult pg r d =
     (case uuid_parse pg (rs_playerID r) of
        None \<Rightarrow> (Some NotFound, d)
      | Some pid \<Rightarrow>
     (case tx_begin pg d of
        (Inl _, d1) \<Rightarrow> (Some (DbFailure ''begin save result''), d1)
      | (Inr t, d1) \<Rightarrow>
     (case tx_exec pg (InsertAnswer (answerParams pid r)) t d1 of
        (Inl _, d2) \<Rightarrow> (Some (DbFailure ''insert answer''), d2)
      | (Inr (inserted, t2), d2) \<Rightarrow>
          if inserted = 0 then (Some DuplicateAnswer, d2)
          else
     (case tx_exec pg (updateParams pid r) t2 d2 of
        (Inl _, d3) \<Rightarrow> (Some (DbFailure ''update player progress''), d3)
      | (Inr (_, t3), d3) \<Rightarrow>
     (case tx_commit pg t3 d3 of
        (False, d4) \<Rightarrow> (Some (DbFailure ''commit save result''), d4)
      | (True, d4) \<Rightarrow> (None, d4))))))"

subsection \<open>store.go: rooms\<close>

definition roomFromRow :: "room_row \<Rightarrow> room_data" where
  "roomFromRow r =
     \<lparr>rd_id = rr_id r, rd_pin = rr_pin r, rd_hostID = rr_hostID r, rd_jenjang = rr_jenjang r,
      rd_shortSession = rr_shortSession r, rd_accuracyMode = rr_accuracyMode r,
      rd_status = rr_status r, rd_questionIDs = rr_questionIDs r, rd_startedAt = rr_startedAt r\<rparr>"

definition RoomByPIN :: "pg \<Rightarrow> string \<Rightarrow> db \<Rightarrow> (store_error + room_data) \<times> db" where
  "RoomByPIN pg pin d =
     (case exec pg (GetActiveRoomByPIN pin) d of
        (Inl e, d') \<Rightarrow> (Inl (notFoundOr e ''get room by pin''), d')
      | (Inr row, d') \<Rightarrow> (Inr (roomFromRow row), d'))"

definition RoomByID :: "pg \<Rightarrow> string \<Rightarrow> db \<Rightarrow> (store_error + room_data) \<times> db" where
  "RoomByID pg roomID d =
     (case uuid_parse pg roomID of
        None \<Rightarrow> (Inl NotFound, d)
      | Some rid \<Rightarrow>
     (case exec pg (GetRoomByID rid) d of
        (Inl e, d') \<Rightarrow> (Inl (notFoundOr e ''get room''), d')
      | (Inr row, d') \<Rightarrow> (Inr (roomFromRow row), d')))"

definition PlayerCount :: "pg \<Rightarrow> string \<Rightarrow> db \<Rightarrow> (store_error + nat) \<times> db" where
  "PlayerCount pg roomID d =
     (case uuid_parse pg roomID of
        None \<Rightarrow> (Inl NotFound, d)
      | Some rid \<Rightarrow>
     (case exec pg (CountRoomPlayers rid) d of
        (Inl _, d') \<Rightarrow> (Inl (DbFailure ''count players''), d')
      | (Inr n, d') \<Rightarrow> (Inr n, d')))"

definition playerFromRow :: "list_player \<Rightarrow> player" where
  "playerFromRow r =
     \<lparr>pl_id = lp_id r, pl_nickname = lp_nickname r, pl_school = lp_schoolName r,
      pl_lang = TrimSpace (lp_lang r), pl_avatar = lp_avatar r, pl_score = lp_score r,
      pl_correctCount = lp_correctCount r, pl_totalMs = lp_totalMs r,
      pl_currentIndex = lp_currentIndex r, pl_streak = lp_streak r, pl_finished = lp_finished r\<rparr>"

definition PlayersOfRoom :: "pg \<Rightarrow> string \<Rightarrow> db \<Rightarrow> (store_error + player list) \<times> db" where
  "PlayersOfRoom pg roomID d =
     (case uuid_parse pg roomID of
        None \<Rightarrow> (Inl NotFound, d)
      | Some rid \<Rightarrow>
     (case exec pg (ListRoomPlayers rid) d of
        (Inl _, d') \<Rightarrow> (Inl (DbFailure ''list players''), d')
      | (Inr rows, d') \<Rightarrow> (Inr (map playerFromRow rows), d')))"

definition DeletePlayer :: "pg \<Rightarrow> string \<Rightarrow> db \<Rightarrow> store_error option \<times> db" where
  "DeletePlayer pg playerID d =
     (case uuid_parse pg playerID of
        None \<Rightarrow> (Some NotFound, d)
      | Some pid \<Rightarrow>
     (case exec pg (DeletePlayerRow pid) d of
        (Inl _, d') \<Rightarrow> (Some (DbFailure ''delete player''), d')
      | (Inr _, d') \<Rightarrow> (None, d')))"

definition MarkRoomStarted :: "pg \<Rightarrow> string \<Rightarrow> db \<Rightarrow> (store_error + bool) \<times> db" where
  "MarkRoomStarted pg roomID d =
     (case uuid_parse pg roomID of
        None \<Rightarrow> (Inl NotFound, d)
      | Some rid \<Rightarrow>
     (case exec pg (MarkRoomStartedRow rid) d of
        (Inl _, d') \<Rightarrow> (Inl (DbFailure ''mark room started''), d')
      | (Inr n, d') \<Rightarrow> (Inr (n > 0), d')))"

definition MarkRoomEnded :: "pg \<Rightarrow> string \<Rightarrow> db \<Rightarrow> store_error option \<times> db" where
  "MarkRoomEnded pg roomID d =
     (case uuid_parse pg roomID of
        None \<Rightarrow> (Some NotFound, d)
      | Some rid \<Rightarrow>
     (case exec pg (MarkRoomEndedRow rid) d of
        (Inl _, d') \<Rightarrow> (Some (DbFailure ''mark room ended''), d')
      | (Inr _, d') \<Rightarrow> (None, d')))"

subsection \<open>store.go: creating a room\<close>

record new_room =
  nr_hostID :: string
  nr_jenjang :: string
  nr_shortSession :: bool
  nr_accuracyMode :: bool
  nr_questionIDs :: "string list"

text \<open>\<open>fmt.Sprintf("%06d", n)\<close> for \<open>n < 1000000\<close>.\<close>

definition digit :: "nat \<Rightarrow> char" where
  "digit n = char_of (48 + n mod 10)"

definition format_pin :: "nat \<Rightarrow> string" where
  "format_pin n = map (\<lambda>k. digit (n div 10 ^ k)) [5, 4, 3, 2, 1, 0]"

text \<open>
  \<open>crypto/rand.Int\<close> reads the system's random source: \<open>None\<close> where reading fails, else a
  number, which the call reduces below \<open>pinSpace\<close>.
\<close>

definition randomPIN :: "nat option \<Rightarrow> string option" where
  "randomPIN draw = map_option (\<lambda>n. format_pin (n mod pinSpace)) draw"

text \<open>The error of one attempt keeps the driver's error, which the caller inspects.\<close>

datatype insert_error = Driver db_error | Plain store_error

definition insertRoom :: "pg \<Rightarrow> uid \<Rightarrow> string \<Rightarrow> new_room \<Rightarrow> db \<Rightarrow> (insert_error + room_data) \<times> db" where
  "insertRoom pg hostID pin i d =
     (case tx_begin pg d of
        (Inl _, d1) \<Rightarrow> (Inl (Plain (DbFailure ''begin create room'')), d1)
      | (Inr t, d1) \<Rightarrow>
     (case tx_exec pg (\<lambda>_ t. Inr ((), t)) t d1 of
        (Inl _, d2) \<Rightarrow> (Inl (Plain (DbFailure ''lock room creation'')), d2)
      | (Inr (_, t2), d2) \<Rightarrow>
     (case tx_exec pg CountActiveRooms t2 d2 of
        (Inl _, d3) \<Rightarrow> (Inl (Plain (DbFailure ''count active rooms'')), d3)
      | (Inr (active, t3), d3) \<Rightarrow>
          if active \<ge> MaxActiveRooms then (Inl (Plain MaxRooms), d3)
          else
     (case tx_exec pg (InsertRoom (gen_uuid pg (trips d3))
             \<lparr>ir_pin = pin, ir_hostID = hostID, ir_jenjang = nr_jenjang i,
              ir_shortSession = nr_shortSession i, ir_accuracyMode = nr_accuracyMode i,
              ir_questionIDs = nr_questionIDs i\<rparr>) t3 d3 of
        (Inl e, d4) \<Rightarrow> (Inl (Driver e), d4)
      | (Inr (rid, t4), d4) \<Rightarrow>
     (case tx_commit pg t4 d4 of
        (False, d5) \<Rightarrow> (Inl (Plain (DbFailure ''commit create room'')), d5)
      | (True, d5) \<Rightarrow>
          (Inr \<lparr>rd_id = rid, rd_pin = pin, rd_hostID = hostID, rd_jenjang = nr_jenjang i,
                rd_shortSession = nr_shortSession i, rd_accuracyMode = nr_accuracyMode i,
                rd_status = Lobby, rd_questionIDs = nr_questionIDs i, rd_startedAt = None\<rparr>, d5))))))"

text \<open>The retry loop: \<open>draws\<close> are the next results of the random source, one per attempt.\<close>

fun create_attempts :: "pg \<Rightarrow> uid \<Rightarrow> new_room \<Rightarrow> nat option list \<Rightarrow> db \<Rightarrow>
    (store_error + room_data) \<times> db" where
  "create_attempts pg hostID i [] d = (Inl (DbFailure ''could not allocate a unique PIN''), d)"
| "create_attempts pg hostID i (draw # draws) d =
     (case randomPIN draw of
        None \<Rightarrow> (Inl (DbFailure ''generate pin''), d)
      | Some pin \<Rightarrow>
     (case insertRoom pg hostID pin i d of
        (Inl (Driver UniqueViolation), d') \<Rightarrow> create_attempts pg hostID i draws d'
      | (Inl (Driver e), d') \<Rightarrow> (Inl (DbFailure ''insert room''), d')
      | (Inl (Plain e), d') \<Rightarrow> (Inl e, d')
      | (Inr room, d') \<Rightarrow> (Inr room, d')))"

definition CreateRoom :: "pg \<Rightarrow> (nat \<Rightarrow> nat option) \<Rightarrow> new_room \<Rightarrow> db \<Rightarrow>
    (store_error + room_data) \<times> db" where
  "CreateRoom pg random i d =
     (case uuid_parse pg (nr_hostID i) of
        None \<Rightarrow> (Inl (DbFailure ''parse host id''), d)
      | Some hostID \<Rightarrow> create_attempts pg hostID i (map random [0..<pinAttempts]) d)"

subsection \<open>store.go: joining a room\<close>

record new_player =
  np_roomID :: string
  np_nickname :: string
  np_jenjang :: string
  np_lang :: string
  np_schoolID :: "int option"
  np_avatar :: int

definition insertPlayer :: "pg \<Rightarrow> tables \<Rightarrow> uid \<Rightarrow> new_player \<Rightarrow> db \<Rightarrow> (store_error + player) \<times> db" where
  "insertPlayer pg t roomID i d =
     (case (case np_schoolID i of
              None \<Rightarrow> (Inr ('''', t), d)
            | Some sid \<Rightarrow> tx_exec pg (GetSchoolName (toInt32 sid)) t d) of
        (Inl _, d1) \<Rightarrow> (Inl InvalidSchool, d1)
      | (Inr (schoolName, t1), d1) \<Rightarrow>
     (case tx_exec pg (InsertPlayer (gen_uuid pg (trips d1))
             \<lparr>ip_roomID = roomID, ip_nickname = np_nickname i,
              ip_schoolID = map_option toInt32 (np_schoolID i), ip_jenjang = np_jenjang i,
              ip_avatar = toInt16 (np_avatar i), ip_lang = np_lang i\<rparr>) t1 d1 of
        (Inl UniqueViolation, d2) \<Rightarrow> (Inl NicknameTaken, d2)
      | (Inl _, d2) \<Rightarrow> (Inl (DbFailure ''insert player''), d2)
      | (Inr (pid, t2), d2) \<Rightarrow>
     (case tx_commit pg t2 d2 of
        (False, d3) \<Rightarrow> (Inl (DbFailure ''commit join''), d3)
      | (True, d3) \<Rightarrow>
          (Inr \<lparr>pl_id = pid, pl_nickname = np_nickname i, pl_school = schoolName, pl_lang = np_lang i,
                pl_avatar = np_avatar i, pl_score = 0, pl_correctCount = 0, pl_totalMs = 0,
                pl_currentIndex = 0, pl_streak = 0, pl_finished = False\<rparr>, d3))))"

definition JoinRoom :: "pg \<Rightarrow> new_player \<Rightarrow> db \<Rightarrow> (store_error + player) \<times> db" where
  "JoinRoom pg i d =
     (case uuid_parse pg (np_roomID i) of
        None \<Rightarrow> (Inl NotFound, d)
      | Some roomID \<Rightarrow>
     (case tx_begin pg d of
        (Inl _, d1) \<Rightarrow> (Inl (DbFailure ''begin join''), d1)
      | (Inr t, d1) \<Rightarrow>
     (case tx_exec pg (LockRoomForJoin roomID) t d1 of
        (Inl e, d2) \<Rightarrow> (Inl (notFoundOr e ''lock room''), d2)
      | (Inr (_, t2), d2) \<Rightarrow>
     (case tx_exec pg (CountRoomPlayers roomID) t2 d2 of
        (Inl _, d3) \<Rightarrow> (Inl (DbFailure ''count players''), d3)
      | (Inr (n, t3), d3) \<Rightarrow>
          if n \<ge> MaxPlayersInRoom then (Inl RoomFull, d3)
          else insertPlayer pg t3 roomID i d3))))"

subsection \<open>store.go: hosts and the question pool\<close>

definition HostByEmail :: "pg \<Rightarrow> string \<Rightarrow> db \<Rightarrow> (store_error + host_row) \<times> db" where
  "HostByEmail pg email d =
     (case exec pg (GetHostByEmail email) d of
        (Inl e, d') \<Rightarrow> (Inl (notFoundOr e ''get host''), d')
      | (Inr h, d') \<Rightarrow> (Inr h, d'))"

definition TouchHostLogin :: "pg \<Rightarrow> string \<Rightarrow> db \<Rightarrow> store_error option \<times> db" where
  "TouchHostLogin pg hostID d =
     (case uuid_parse pg hostID of
        None \<Rightarrow> (Some (DbFailure ''parse host id''), d)
      | Some hid \<Rightarrow>
     (case exec pg (TouchHostLoginRow hid) d of
        (Inl _, d') \<Rightarrow> (Some (DbFailure ''touch host login''), d')
      | (Inr _, d') \<Rightarrow> (None, d')))"

definition CreateHost :: "pg \<Rightarrow> string \<Rightarrow> string \<Rightarrow> string \<Rightarrow> db \<Rightarrow> store_error option \<times> db" where
  "CreateHost pg email name passwordHash d =
     (case exec pg (UpsertHost (gen_uuid pg (trips d)) email passwordHash name) d of
        (Inl _, d') \<Rightarrow> (Some (DbFailure ''upsert host''), d')
      | (Inr _, d') \<Rightarrow> (None, d'))"

definition QuestionPool :: "pg \<Rightarrow> db \<Rightarrow> (store_error + question_ref list) \<times> db" where
  "QuestionPool pg d =
     (case exec pg ListSelectableQuestions d of
        (Inl _, d') \<Rightarrow> (Inl (DbFailure ''list questions''), d')
      | (Inr rows, d') \<Rightarrow>
          (Inr (map (\<lambda>r. \<lparr>qr_id = qr_qid r, qr_site = qr_qsite r, qr_level = qr_qlevel r\<rparr>) rows), d'))"

end
