(* ===== verification/Room.thy ===== *)
theory Room
  imports StoreTypes Scoring Rank
begin

section \<open>A game room: state, interfaces and messages (room.go)\<close>

text \<open>
  A \<open>Room\<close> owns the state of one game and is touched only by its own goroutine, which runs one
  event at a time; an event is a function from room states to room states. This theory holds the
  state, the interfaces a room uses (\<open>Store\<close>, \<open>Board\<close>, \<open>Sink\<close>) and the operations that
  \<open>room.go\<close> and \<open>play.go\<close> share; \<open>Play\<close> holds the gameplay and \<open>Session\<close> the events.

  The environment is explicit. \<open>deps\<close> holds the store and the board as records of functions
  on their own states \<open>'s\<close> and \<open>'b\<close>, the clock and the generator as streams; the room
  state carries the store's and the board's state and the positions in the streams. A sink is a
  number, and \<open>r_out\<close> is the log of what the room told its sinks, in order. The record \<open>r_players\<close>
  is Go's map as an association list, whose order is the order in which a \<open>range\<close> visits it.
  Some places of the code call \<open>time.Now\<close> or \<open>time.Since\<close> and not the room's clock; the model reads
  one clock for both, as \<open>NewRegistry\<close> sets the room's clock to \<open>time.Now\<close>.
\<close>

subsection \<open>Messages and sinks\<close>

type_synonym sink = nat

record player_view =
  v_id :: uid
  v_nickname :: string
  v_avatar :: int
  v_school :: string
  v_lang :: string

record podium_entry =
  pe_rank :: nat
  pe_nickname :: string
  pe_avatar :: int
  pe_score :: int

record ranking =
  rk_rank :: nat
  rk_nickname :: string
  rk_school :: string
  rk_points :: int
  rk_correctCount :: int

record q_show =
  sh_index :: int
  sh_total :: nat
  sh_site :: int
  sh_level :: int
  sh_prompt :: string
  sh_options :: "(string \<times> string) list"
  sh_limitMs :: int

record q_result =
  re_correct :: bool
  re_correctOptionID :: string
  re_explanation :: string
  re_points :: int
  re_score :: int
  re_streak :: int
  re_finished :: bool

datatype message =
    MError string string string
  | MRoomState status int int int "player_view list"
  | MRoomStarted
  | MShow q_show
  | MResult q_result
  | MLbUpdate "ranking list"
  | MRoomEnded "podium_entry list"
  | MPlayerJoined player_view
  | MPlayerKicked string
  | MPong

datatype sink_op = Send message | Close

text \<open>Everything the room told its sinks, oldest first.\<close>

type_synonym outbox = "(sink \<times> sink_op) list"

text \<open>\<open>ErrorMessage(code, message, ref)\<close>.\<close>

definition ErrorMessage :: "string \<Rightarrow> string \<Rightarrow> string \<Rightarrow> message" where
  "ErrorMessage code msg ref = MError code msg ref"

subsection \<open>The interfaces of a room\<close>

record 's store_api =
  api_RoomByID :: "uid \<Rightarrow> 's \<Rightarrow> (store_error + room_data) \<times> 's"
  api_PlayersOfRoom :: "uid \<Rightarrow> 's \<Rightarrow> (store_error + player list) \<times> 's"
  api_QuestionsByIDs :: "string list \<Rightarrow> 's \<Rightarrow> (store_error + question list) \<times> 's"
  api_MarkRoomStarted :: "uid \<Rightarrow> 's \<Rightarrow> (store_error + bool) \<times> 's"
  api_MarkRoomEnded :: "uid \<Rightarrow> 's \<Rightarrow> store_error option \<times> 's"
  api_DeletePlayer :: "uid \<Rightarrow> 's \<Rightarrow> store_error option \<times> 's"
  api_SaveResult :: "result \<Rightarrow> 's \<Rightarrow> store_error option \<times> 's"

text \<open>A board call may fail; its error carries nothing the room looks at.\<close>

record 'b board_api =
  b_Save :: "uid \<Rightarrow> standing list \<Rightarrow> 'b \<Rightarrow> bool \<times> 'b"
  b_Order :: "uid \<Rightarrow> 'b \<Rightarrow> uid list option \<times> 'b"
  b_Forget :: "uid \<Rightarrow> uid \<Rightarrow> 'b \<Rightarrow> bool \<times> 'b"

record ('s, 'b) deps =
  d_store :: "'s store_api"
  d_board :: "'b board_api option"
  d_clock :: "nat \<Rightarrow> time"
  d_rng :: "nat \<Rightarrow> nat"
  d_lbInterval :: duration

subsection \<open>State\<close>

record active_question =
  aq_question :: question
  aq_options :: "option_q list"
  aq_servedAt :: time
  aq_limit :: duration

record player_state =
  ps_info :: player
  ps_sink :: "sink option"
  ps_active :: "active_question option"
  ps_score :: int
  ps_correct :: int
  ps_totalMs :: int
  ps_streak :: int
  ps_resolved :: int

record ('s, 'b) room =
  r_id :: uid
  r_pin :: string
  r_hostID :: uid
  r_jenjang :: string
  r_accuracyMode :: bool
  r_questions :: "question list"
  r_status :: status
  r_players :: "(uid \<times> player_state) list"
  r_order :: "uid list"
  r_host :: "sink option"
  r_deadline :: "time option"
  r_lbTimer :: "time option"
  r_lbDirty :: bool
  r_lbLast :: "time option"
  r_lbWaiting :: bool
  r_done :: bool
  r_out :: outbox
  r_tick :: nat
  r_draw :: nat
  r_store :: 's
  r_board :: 'b

definition MaxRoomDuration :: duration where "MaxRoomDuration = 12 * minute"
definition DefaultLBInterval :: duration where "DefaultLBInterval = second"
definition podiumSize :: nat where "podiumSize = 3"

text \<open>One reading of the clock.\<close>

definition read_clock :: "('s, 'b) deps \<Rightarrow> ('s, 'b) room \<Rightarrow> time \<times> ('s, 'b) room" where
  "read_clock d r = (d_clock d (r_tick r), r\<lparr>r_tick := Suc (r_tick r)\<rparr>)"

definition player_of :: "('s, 'b) room \<Rightarrow> uid \<Rightarrow> player_state option" where
  "player_of r pid = map_of (r_players r) pid"

definition set_player :: "uid \<Rightarrow> player_state \<Rightarrow> ('s, 'b) room \<Rightarrow> ('s, 'b) room" where
  "set_player pid p r = r\<lparr>r_players := AList.update pid p (r_players r)\<rparr>"

subsection \<open>Sending\<close>

definition emit :: "sink \<Rightarrow> sink_op \<Rightarrow> outbox \<Rightarrow> outbox" where
  "emit s x out = out @ [(s, x)]"

definition emit_opt :: "sink option \<Rightarrow> sink_op \<Rightarrow> outbox \<Rightarrow> outbox" where
  "emit_opt so x out = (case so of None \<Rightarrow> out | Some s \<Rightarrow> emit s x out)"

definition send :: "sink \<Rightarrow> message \<Rightarrow> ('s, 'b) room \<Rightarrow> ('s, 'b) room" where
  "send s m r = r\<lparr>r_out := emit s (Send m) (r_out r)\<rparr>"

definition close :: "sink \<Rightarrow> ('s, 'b) room \<Rightarrow> ('s, 'b) room" where
  "close s r = r\<lparr>r_out := emit s Close (r_out r)\<rparr>"

text \<open>\<open>sendTo\<close>: nothing happens for a player who is not connected.\<close>

definition sendTo :: "player_state \<Rightarrow> message \<Rightarrow> ('s, 'b) room \<Rightarrow> ('s, 'b) room" where
  "sendTo p m r = (case ps_sink p of None \<Rightarrow> r | Some s \<Rightarrow> send s m r)"

definition broadcast :: "message \<Rightarrow> ('s, 'b) room \<Rightarrow> ('s, 'b) room" where
  "broadcast m r =
     r\<lparr>r_out := fold (\<lambda>(pid, p). emit_opt (ps_sink p) (Send m)) (r_players r)
                    (emit_opt (r_host r) (Send m) (r_out r))\<rparr>"

definition closeAll :: "('s, 'b) room \<Rightarrow> ('s, 'b) room" where
  "closeAll r =
     r\<lparr>r_out := fold (\<lambda>(pid, p). emit_opt (ps_sink p) Close) (r_players r)
                    (emit_opt (r_host r) Close (r_out r)),
       r_host := None,
       r_players := map (\<lambda>(pid, p). (pid, p\<lparr>ps_sink := None\<rparr>)) (r_players r)\<rparr>"

subsection \<open>Players\<close>

definition viewOf :: "player \<Rightarrow> player_view" where
  "viewOf p = \<lparr>v_id = pl_id p, v_nickname = pl_nickname p, v_avatar = pl_avatar p,
     v_school = pl_school p, v_lang = pl_lang p\<rparr>"

definition new_player_state :: "player \<Rightarrow> player_state" where
  "new_player_state p = \<lparr>ps_info = p, ps_sink = None, ps_active = None, ps_score = pl_score p,
     ps_correct = pl_correctCount p, ps_totalMs = pl_totalMs p, ps_streak = pl_streak p,
     ps_resolved = pl_currentIndex p\<rparr>"

definition addPlayer :: "player \<Rightarrow> ('s, 'b) room \<Rightarrow> ('s, 'b) room" where
  "addPlayer p r =
     (case player_of r (pl_id p) of
        Some _ \<Rightarrow> r
      | None \<Rightarrow> (set_player (pl_id p) (new_player_state p) r)\<lparr>r_order := r_order r @ [pl_id p]\<rparr>)"

definition addPlayerAndNotify :: "player \<Rightarrow> ('s, 'b) room \<Rightarrow> ('s, 'b) room" where
  "addPlayerAndNotify p r =
     (let r1 = addPlayer p r
      in case r_host r1 of None \<Rightarrow> r1 | Some h \<Rightarrow> send h (MPlayerJoined (viewOf p)) r1)"

text \<open>
  The code indexes \<open>r.players\<close> with ids of \<open>r.order\<close> and of the board; a missing entry would be
  a nil dereference. \<open>the\<close> stands for that access, and the invariant \<open>order_ok\<close> (with
  \<open>coversAllPlayers\<close> for the board) says the entry is always there.
\<close>

definition player_at :: "('s, 'b) room \<Rightarrow> uid \<Rightarrow> player_state" where
  "player_at r pid = the (player_of r pid)"

definition standingOf :: "player_state \<Rightarrow> standing" where
  "standingOf p = \<lparr>st_player = pl_id (ps_info p), st_score = ps_score p,
     st_correct = ps_correct p, st_totalMs = ps_totalMs p\<rparr>"

definition standings :: "('s, 'b) room \<Rightarrow> standing list" where
  "standings r = map (\<lambda>pid. standingOf (player_at r pid)) (r_order r)"

definition stateMessage :: "player_state option \<Rightarrow> ('s, 'b) room \<Rightarrow> message" where
  "stateMessage p r =
     (let views = map (\<lambda>pid. viewOf (ps_info (player_at r pid))) (r_order r)
      in case p of
           None \<Rightarrow> MRoomState (r_status r) 0 0 0 views
         | Some p \<Rightarrow> MRoomState (r_status r) (ps_resolved p) (ps_score p) (ps_streak p) views)"

definition podium :: "('s, 'b) room \<Rightarrow> podium_entry list" where
  "podium r =
     (let ids = Order (standings r)
      in map (\<lambda>(i, pid). let p = player_at r pid in
           \<lparr>pe_rank = i + 1, pe_nickname = pl_nickname (ps_info p),
            pe_avatar = pl_avatar (ps_info p), pe_score = ps_score p\<rparr>)
         (enumerate 0 (take (min podiumSize (length ids)) ids)))"

definition endedMessage :: "('s, 'b) room \<Rightarrow> message" where
  "endedMessage r = MRoomEnded (podium r)"

subsection \<open>Ending\<close>

definition endSession :: "('s, 'b) deps \<Rightarrow> ('s, 'b) room \<Rightarrow> ('s, 'b) room" where
  "endSession d r =
     (if r_status r = Ended then r
      else let (err, s') = api_MarkRoomEnded (d_store d) (r_id r) (r_store r);
               r1 = r\<lparr>r_store := s', r_status := Ended\<rparr>
           in closeAll (broadcast (endedMessage r1) r1))"

definition endIfAllFinished :: "('s, 'b) deps \<Rightarrow> ('s, 'b) room \<Rightarrow> ('s, 'b) room" where
  "endIfAllFinished d r =
     (if r_status r \<noteq> Running \<or> length (r_players r) = 0 then r
      else if \<exists>(pid, p) \<in> set (r_players r). ps_resolved p < int (length (r_questions r)) then r
      else endSession d r)"

definition armDeadline :: "('s, 'b) deps \<Rightarrow> duration \<Rightarrow> ('s, 'b) room \<Rightarrow> ('s, 'b) room" where
  "armDeadline d remaining r =
     (let (now, r1) = read_clock d r in r1\<lparr>r_deadline := Some (now + max remaining millisecond)\<rparr>)"

definition stopTimers :: "('s, 'b) room \<Rightarrow> ('s, 'b) room" where
  "stopTimers r = r\<lparr>r_deadline := None, r_lbTimer := None\<rparr>"

subsection \<open>Leaderboard\<close>

definition saveStandings :: "('s, 'b) deps \<Rightarrow> standing list \<Rightarrow> ('s, 'b) room \<Rightarrow> ('s, 'b) room" where
  "saveStandings d ss r =
     (case d_board d of
        None \<Rightarrow> r
      | Some b \<Rightarrow> (let (ok, b') = b_Save b (r_id r) ss (r_board r) in r\<lparr>r_board := b'\<rparr>))"

definition saveStanding :: "('s, 'b) deps \<Rightarrow> player_state \<Rightarrow> ('s, 'b) room \<Rightarrow> ('s, 'b) room" where
  "saveStanding d p r = saveStandings d [standingOf p] r"

definition restoreBoard :: "('s, 'b) deps \<Rightarrow> ('s, 'b) room \<Rightarrow> ('s, 'b) room" where
  "restoreBoard d r = saveStandings d (standings r) r"

definition forgetStanding :: "('s, 'b) deps \<Rightarrow> uid \<Rightarrow> ('s, 'b) room \<Rightarrow> ('s, 'b) room" where
  "forgetStanding d pid r =
     (case d_board d of
        None \<Rightarrow> r
      | Some b \<Rightarrow> (let (ok, b') = b_Forget b (r_id r) pid (r_board r) in r\<lparr>r_board := b'\<rparr>))"

definition coversAllPlayers :: "uid list \<Rightarrow> ('s, 'b) room \<Rightarrow> bool" where
  "coversAllPlayers ids r \<longleftrightarrow>
     length ids = length (r_players r) \<and> list_all (\<lambda>pid. player_of r pid \<noteq> None) ids"

definition rankedIDs :: "('s, 'b) deps \<Rightarrow> ('s, 'b) room \<Rightarrow> uid list \<times> ('s, 'b) room" where
  "rankedIDs d r =
     (let ss = standings r in
      case d_board d of
        None \<Rightarrow> (Order ss, r)
      | Some b \<Rightarrow>
          (let (ids, b') = b_Order b (r_id r) (r_board r); r1 = r\<lparr>r_board := b'\<rparr> in
           case ids of
             Some ids \<Rightarrow> if coversAllPlayers ids r1 then (ids, r1)
                         else (Order ss, saveStandings d ss r1)
           | None \<Rightarrow> (Order ss, saveStandings d ss r1)))"

definition sendLeaderboard :: "('s, 'b) deps \<Rightarrow> ('s, 'b) room \<Rightarrow> ('s, 'b) room" where
  "sendLeaderboard d r =
     (let (ids, r1) = rankedIDs d r;
          rankings = map (\<lambda>(i, pid). let p = player_at r1 pid in
            \<lparr>rk_rank = i + 1, rk_nickname = pl_nickname (ps_info p), rk_school = pl_school (ps_info p),
             rk_points = ps_score p, rk_correctCount = ps_correct p\<rparr>) (enumerate 0 ids);
          r2 = broadcast (MLbUpdate rankings) r1;
          (now, r3) = read_clock d r2
      in r3\<lparr>r_lbDirty := False, r_lbLast := Some now\<rparr>)"

text \<open>
  The first leaderboard has no predecessor (\<open>r_lbLast = None\<close>, Go's zero time): the wait is
  then negative. A timer that is armed fires no earlier than its due time.
\<close>

definition markLeaderboardDirty :: "('s, 'b) deps \<Rightarrow> ('s, 'b) room \<Rightarrow> ('s, 'b) room" where
  "markLeaderboardDirty d r =
     (let r1 = r\<lparr>r_lbDirty := True\<rparr> in
      if r_lbWaiting r1 then r1
      else let (now, r2) = read_clock d r1 in
        (case r_lbLast r2 of
           None \<Rightarrow> sendLeaderboard d r2
         | Some prev \<Rightarrow>
             let wait = d_lbInterval d - (now - prev) in
             if wait \<le> 0 then sendLeaderboard d r2
             else r2\<lparr>r_lbWaiting := True, r_lbTimer := Some (now + wait)\<rparr>))"

text \<open>What the timer's function does when it fires.\<close>

definition lbTimerFires :: "('s, 'b) deps \<Rightarrow> ('s, 'b) room \<Rightarrow> ('s, 'b) room" where
  "lbTimerFires d r =
     (let r1 = r\<lparr>r_lbWaiting := False, r_lbTimer := None\<rparr> in
      if r_lbDirty r1 \<and> r_status r1 \<noteq> Ended then sendLeaderboard d r1 else r1)"

end
