(* ===== verification/Play.thy ===== *)
theory Play
  imports Room
begin

section \<open>Gameplay: api/internal/game/play.go\<close>

text \<open>
  Serving questions, scoring answers and settling timeouts. \<open>resolve\<close> persists first and
  changes the player only when the store accepted the result.
\<close>

subsection \<open>Constants and small helpers\<close>

definition codeNotStarted :: string where "codeNotStarted = ''ROOM_NOT_STARTED''"
definition codeInProgress :: string where "codeInProgress = ''QUESTION_IN_PROGRESS''"
definition codeFinished :: string where "codeFinished = ''ALREADY_FINISHED''"
definition codeNotServed :: string where "codeNotServed = ''NOT_SERVED''"
definition codeAnswered :: string where "codeAnswered = ''ALREADY_ANSWERED''"
definition codeBadOption :: string where "codeBadOption = ''INVALID_OPTION''"
definition codeInternal :: string where "codeInternal = ''INTERNAL''"
definition typeTrueFalse :: string where "typeTrueFalse = ''tf''"

text \<open>The timer plus the network tolerance.\<close>

definition aq_deadline :: "active_question \<Rightarrow> time" where
  "aq_deadline a = aq_servedAt a + (aq_limit a + networkGraceMs * millisecond)"

record outcome =
  oc_optionID :: "string option"
  oc_correct :: "bool option"
  oc_answeredAt :: "time option"
  oc_points :: int
  oc_spentMs :: int

definition hasOption :: "option_q list \<Rightarrow> string \<Rightarrow> bool" where
  "hasOption options i \<longleftrightarrow> (\<exists>x \<in> set options. o_id x = i)"

definition isCorrect :: "option_q list \<Rightarrow> string \<Rightarrow> bool" where
  "isCorrect options i = (case find (\<lambda>x. o_id x = i) options of None \<Rightarrow> False | Some x \<Rightarrow> o_correct x)"

definition correctOptionID :: "option_q list \<Rightarrow> string" where
  "correctOptionID options = (case find o_correct options of None \<Rightarrow> '''' | Some x \<Rightarrow> o_id x)"

definition reject :: "player_state \<Rightarrow> string \<Rightarrow> string \<Rightarrow> string \<Rightarrow> ('s, 'b) room \<Rightarrow> ('s, 'b) room" where
  "reject p ref code msg r = sendTo p (ErrorMessage code msg ref) r"

definition shuffledOptions :: "('s, 'b) deps \<Rightarrow> question \<Rightarrow> ('s, 'b) room \<Rightarrow> option_q list \<times> ('s, 'b) room" where
  "shuffledOptions d q r =
     (if q_type q \<noteq> typeTrueFalse
      then let (options, c) = shuffle (d_rng d) (r_draw r) (q_options q) in (options, r\<lparr>r_draw := c\<rparr>)
      else (q_options q, r))"

definition timeoutOutcome :: "active_question \<Rightarrow> outcome" where
  "timeoutOutcome a = \<lparr>oc_optionID = None, oc_correct = None, oc_answeredAt = None, oc_points = 0,
     oc_spentMs = to_ms (aq_limit a)\<rparr>"

definition score_input_of :: "('s, 'b) room \<Rightarrow> player_state \<Rightarrow> active_question \<Rightarrow> bool \<Rightarrow> duration \<Rightarrow> score_input" where
  "score_input_of r p a correct elapsed =
     \<lparr>in_level = q_level (aq_question a), in_correct = correct, in_responseMs = to_ms elapsed,
      in_limitMs = to_ms (aq_limit a), in_graceMs = readingGrace (r_jenjang r),
      in_streakBefore = ps_streak p, in_accuracyMode = r_accuracyMode r\<rparr>"

text \<open>A missing option or an answer past the deadline counts as a timeout.\<close>

definition outcomeOf :: "('s, 'b) deps \<Rightarrow> player_state \<Rightarrow> active_question \<Rightarrow> string option \<Rightarrow>
    ('s, 'b) room \<Rightarrow> outcome \<times> ('s, 'b) room" where
  "outcomeOf d p a optionID r =
     (let (now, r1) = read_clock d r in
      case optionID of
        None \<Rightarrow> (timeoutOutcome a, r1)
      | Some i \<Rightarrow>
          if now > aq_deadline a then (timeoutOutcome a, r1)
          else let elapsed = now - aq_servedAt a;
                   correct = isCorrect (aq_options a) i;
                   points = Score (score_input_of r p a correct elapsed)
               in (\<lparr>oc_optionID = Some i, oc_correct = Some correct, oc_answeredAt = Some now,
                    oc_points = points, oc_spentMs = to_ms (min elapsed (aq_limit a))\<rparr>, r1))"

subsection \<open>Resolving a question\<close>

text \<open>The player's totals after the outcome; the question is still active in them.\<close>

definition advance :: "player_state \<Rightarrow> outcome \<Rightarrow> player_state" where
  "advance p out =
     (let correct = (oc_correct out = Some True) in
      p\<lparr>ps_score := ps_score p + oc_points out, ps_totalMs := ps_totalMs p + oc_spentMs out,
        ps_resolved := ps_resolved p + 1,
        ps_streak := (if correct then ps_streak p + 1 else 0),
        ps_correct := (if correct then ps_correct p + 1 else ps_correct p)\<rparr>)"

definition result_of :: "player_state \<Rightarrow> active_question \<Rightarrow> outcome \<Rightarrow> player_state \<Rightarrow> bool \<Rightarrow> result" where
  "result_of p a out nxt finished =
     \<lparr>rs_playerID = pl_id (ps_info p), rs_questionID = q_id (aq_question a),
      rs_servedAt = aq_servedAt a, rs_answeredAt = oc_answeredAt out, rs_optionID = oc_optionID out,
      rs_correct = oc_correct out, rs_points = oc_points out, rs_score = ps_score nxt,
      rs_correctCount = ps_correct nxt, rs_totalMs = ps_totalMs nxt,
      rs_currentIndex = ps_resolved nxt, rs_streak = ps_streak nxt, rs_finished = finished\<rparr>"

definition persist :: "('s, 'b) deps \<Rightarrow> player_state \<Rightarrow> active_question \<Rightarrow> outcome \<Rightarrow> player_state \<Rightarrow>
    bool \<Rightarrow> ('s, 'b) room \<Rightarrow> store_error option \<times> ('s, 'b) room" where
  "persist d p a out nxt finished r =
     (let (err, s') = api_SaveResult (d_store d) (result_of p a out nxt finished) (r_store r)
      in (err, r\<lparr>r_store := s'\<rparr>))"

definition rejectFailedSave :: "player_state \<Rightarrow> store_error \<Rightarrow> ('s, 'b) room \<Rightarrow> ('s, 'b) room" where
  "rejectFailedSave p err r =
     (if err = DuplicateAnswer
      then reject p ''q.answer'' codeAnswered ''this question was already answered'' r
      else reject p ''q.answer'' codeInternal ''could not save the answer, try again'' r)"

definition sendResult :: "player_state \<Rightarrow> question \<Rightarrow> outcome \<Rightarrow> bool \<Rightarrow> ('s, 'b) room \<Rightarrow> ('s, 'b) room" where
  "sendResult p q out finished r =
     sendTo p (MResult \<lparr>re_correct = (oc_correct out = Some True),
        re_correctOptionID = correctOptionID (q_options q),
        re_explanation = text_In (q_explanation q) (pl_lang (ps_info p)),
        re_points = oc_points out, re_score = ps_score p, re_streak = ps_streak p,
        re_finished = finished\<rparr>) r"

text \<open>
  \<open>resolve\<close> for the player \<open>pid\<close>, whose state is \<open>p\<close> with the active question \<open>a\<close>; it
  reports whether the result was persisted.
\<close>

definition resolve :: "('s, 'b) deps \<Rightarrow> uid \<Rightarrow> player_state \<Rightarrow> active_question \<Rightarrow> outcome \<Rightarrow> bool \<Rightarrow>
    ('s, 'b) room \<Rightarrow> bool \<times> ('s, 'b) room" where
  "resolve d pid p a out announce r =
     (let nxt = advance p out;
          finished = (ps_resolved nxt \<ge> int (length (r_questions r)));
          (err, r1) = persist d p a out nxt finished r
      in case err of
           Some e \<Rightarrow> (False, rejectFailedSave p e r1)
         | None \<Rightarrow>
             let p' = nxt\<lparr>ps_active := None\<rparr>;
                 r2 = set_player pid p' r1;
                 r3 = saveStanding d p' r2;
                 r4 = (if announce then sendResult p' (aq_question a) out finished r3 else r3);
                 r5 = markLeaderboardDirty d r4;
                 r6 = (if finished then endIfAllFinished d r5 else r5)
             in (True, r6))"

text \<open>\<open>settleExpired\<close> reports whether the player is free to receive a new question.\<close>

definition settleExpired :: "('s, 'b) deps \<Rightarrow> uid \<Rightarrow> player_state \<Rightarrow> ('s, 'b) room \<Rightarrow> bool \<times> ('s, 'b) room" where
  "settleExpired d pid p r =
     (case ps_active p of
        None \<Rightarrow> (True, r)
      | Some a \<Rightarrow>
          if r_status r \<noteq> Running then (False, r)
          else let (now, r1) = read_clock d r in
            if now < aq_deadline a then (False, r1)
            else resolve d pid p a (timeoutOutcome a) False r1)"

subsection \<open>Serving\<close>

definition sendQuestion :: "player_state \<Rightarrow> active_question \<Rightarrow> time \<Rightarrow> ('s, 'b) room \<Rightarrow> ('s, 'b) room" where
  "sendQuestion p a now r =
     (let remaining = max (aq_servedAt a + aq_limit a - now) 0 in
      sendTo p (MShow \<lparr>sh_index = ps_resolved p, sh_total = length (r_questions r),
        sh_site = q_site (aq_question a), sh_level = q_level (aq_question a),
        sh_prompt = text_In (q_prompt (aq_question a)) (pl_lang (ps_info p)),
        sh_options = map (\<lambda>x. (o_id x, text_In (o_label x) (pl_lang (ps_info p)))) (aq_options a),
        sh_limitMs = to_ms remaining\<rparr>) r)"

text \<open>The caller has checked that \<open>ps_resolved p\<close> is a valid index.\<close>

definition serve :: "('s, 'b) deps \<Rightarrow> uid \<Rightarrow> player_state \<Rightarrow> ('s, 'b) room \<Rightarrow> ('s, 'b) room" where
  "serve d pid p r =
     (let q = r_questions r ! nat (ps_resolved p);
          (options, r1) = shuffledOptions d q r;
          (now, r2) = read_clock d r1;
          a = \<lparr>aq_question = q, aq_options = options, aq_servedAt = now,
               aq_limit = questionLimit (q_level q) (r_jenjang r)\<rparr>;
          p' = p\<lparr>ps_active := Some a\<rparr>
      in sendQuestion p' a (aq_servedAt a) (set_player pid p' r2))"

definition resumeActive :: "('s, 'b) deps \<Rightarrow> player_state \<Rightarrow> ('s, 'b) room \<Rightarrow> ('s, 'b) room" where
  "resumeActive d p r =
     (case ps_active p of
        Some a \<Rightarrow> if r_status r = Running
                  then let (now, r1) = read_clock d r in sendQuestion p a now r1 else r
      | None \<Rightarrow> r)"

definition nextQuestion :: "('s, 'b) deps \<Rightarrow> uid \<Rightarrow> ('s, 'b) room \<Rightarrow> ('s, 'b) room" where
  "nextQuestion d pid r =
     (case player_of r pid of
        None \<Rightarrow> r
      | Some p \<Rightarrow>
          if r_status r \<noteq> Running
          then reject p ''q.next'' codeNotStarted ''the session has not started'' r
          else
            let (free, r1) = (if ps_active p \<noteq> None then settleExpired d pid p r else (True, r));
                p1 = player_at r1 pid
            in if \<not> free then reject p1 ''q.next'' codeInProgress ''answer the current question first'' r1
               else if r_status r1 \<noteq> Running then r1
               else if ps_resolved p1 \<ge> int (length (r_questions r1))
               then reject p1 ''q.next'' codeFinished ''you have answered every question'' r1
               else serve d pid p1 r1)"

subsection \<open>Answering\<close>

definition wasResolved :: "player_state \<Rightarrow> string \<Rightarrow> ('s, 'b) room \<Rightarrow> bool" where
  "wasResolved p questionID r \<longleftrightarrow>
     (\<exists>q \<in> set (take (nat (min (ps_resolved p) (int (length (r_questions r))))) (r_questions r)).
        q_id q = questionID)"

definition rejectUnservedAnswer :: "player_state \<Rightarrow> string \<Rightarrow> ('s, 'b) room \<Rightarrow> ('s, 'b) room" where
  "rejectUnservedAnswer p questionID r =
     (if wasResolved p questionID r
      then reject p ''q.answer'' codeAnswered ''this question was already answered'' r
      else reject p ''q.answer'' codeNotServed ''this question is not the active one'' r)"

definition answer :: "('s, 'b) deps \<Rightarrow> uid \<Rightarrow> string \<Rightarrow> string option \<Rightarrow> ('s, 'b) room \<Rightarrow> ('s, 'b) room" where
  "answer d pid questionID optionID r =
     (case player_of r pid of
        None \<Rightarrow> r
      | Some p \<Rightarrow>
          if r_status r \<noteq> Running
          then reject p ''q.answer'' codeNotStarted ''the session has not started'' r
          else
            (case ps_active p of
               None \<Rightarrow> rejectUnservedAnswer p questionID r
             | Some a \<Rightarrow>
                 if q_id (aq_question a) \<noteq> questionID then rejectUnservedAnswer p questionID r
                 else if (case optionID of None \<Rightarrow> False | Some i \<Rightarrow> \<not> hasOption (aq_options a) i)
                 then reject p ''q.answer'' codeBadOption ''unknown option for this question'' r
                 else let (out, r1) = outcomeOf d p a optionID r
                      in snd (resolve d pid p a out True r1)))"

end
