(* ===== verification/Session.thy ===== *)
theory Session
  imports Play
begin

section \<open>The life of a room: room.go, events and the loop\<close>

text \<open>
  Creating a room, connecting and disconnecting, starting, kicking, and the goroutine: the loop
  takes one event at a time, and leaves when the room has ended or the server shuts down.
\<close>

subsection \<open>Creating a room\<close>

definition blank_room :: "room_data \<Rightarrow> question list \<Rightarrow> 's \<Rightarrow> 'b \<Rightarrow> ('s, 'b) room" where
  "blank_room data questions s b =
     \<lparr>r_id = rd_id data, r_pin = rd_pin data, r_hostID = rd_hostID data, r_jenjang = rd_jenjang data,
      r_accuracyMode = rd_accuracyMode data, r_questions = questions, r_status = rd_status data,
      r_players = [], r_order = [], r_host = None, r_deadline = None, r_lbTimer = None,
      r_lbDirty = False, r_lbLast = None, r_lbWaiting = False, r_done = False, r_out = [], r_tick = 0,
      r_draw = 0, r_store = s, r_board = b\<rparr>"

text \<open>
  A running room gets what is left of its 12 minutes. A missing start time is Go's zero time, for
  which nothing is left. The first event of the new goroutine restores the board.
\<close>

definition newRoom :: "('s, 'b) deps \<Rightarrow> room_data \<Rightarrow> player list \<Rightarrow> question list \<Rightarrow> 's \<Rightarrow> 'b \<Rightarrow>
    ('s, 'b) room" where
  "newRoom d data players questions s b =
     (let r = fold addPlayer players (blank_room data questions s b) in
      if rd_status data = Running
      then let (now, r1) = read_clock d r in
           armDeadline d (case rd_startedAt data of None \<Rightarrow> 0 | Some t \<Rightarrow> MaxRoomDuration - (now - t)) r1
      else r)"

subsection \<open>Connections\<close>

datatype attach_error = UnknownPlayer | NotHost

definition attachPlayer :: "('s, 'b) deps \<Rightarrow> uid \<Rightarrow> sink \<Rightarrow> ('s, 'b) room \<Rightarrow>
    attach_error option \<times> ('s, 'b) room" where
  "attachPlayer d pid s r =
     (case player_of r pid of
        None \<Rightarrow> (Some UnknownPlayer, r)
      | Some p \<Rightarrow>
          let r1 = (case ps_sink p of
                      None \<Rightarrow> r
                    | Some old \<Rightarrow> set_player pid (p\<lparr>ps_sink := None\<rparr>) (close old r));
              (free, r2) = settleExpired d pid (player_at r1 pid) r1
          in if r_status r2 = Ended then (None, close s (send s (endedMessage r2) r2))
             else let p' = (player_at r2 pid)\<lparr>ps_sink := Some s\<rparr>;
                      r3 = set_player pid p' r2;
                      r4 = send s (stateMessage (Some p') r3) r3
                  in (None, resumeActive d p' r4))"

definition attachHost :: "uid \<Rightarrow> sink \<Rightarrow> ('s, 'b) room \<Rightarrow> attach_error option \<times> ('s, 'b) room" where
  "attachHost hostID s r =
     (if hostID \<noteq> r_hostID r then (Some NotHost, r)
      else let r1 = (case r_host r of None \<Rightarrow> r | Some old \<Rightarrow> close old r);
               r2 = r1\<lparr>r_host := Some s\<rparr>
           in (None, send s (stateMessage None r2) r2))"

definition detach :: "sink \<Rightarrow> ('s, 'b) room \<Rightarrow> ('s, 'b) room" where
  "detach s r =
     r\<lparr>r_host := (if r_host r = Some s then None else r_host r),
       r_players := map (\<lambda>(pid, p). (pid, if ps_sink p = Some s then p\<lparr>ps_sink := None\<rparr> else p))
                        (r_players r)\<rparr>"

subsection \<open>Commands of the host\<close>

definition startSession :: "('s, 'b) deps \<Rightarrow> ('s, 'b) room \<Rightarrow> ('s, 'b) room" where
  "startSession d r =
     (if r_status r \<noteq> Lobby then r
      else case api_MarkRoomStarted (d_store d) (r_id r) (r_store r) of
             (Inl _, s') \<Rightarrow> r\<lparr>r_store := s'\<rparr>
           | (Inr started, s') \<Rightarrow>
               if \<not> started then r\<lparr>r_store := s'\<rparr>
               else broadcast MRoomStarted
                      (armDeadline d MaxRoomDuration (r\<lparr>r_store := s', r_status := Running\<rparr>)))"

definition removeID :: "uid list \<Rightarrow> uid \<Rightarrow> uid list" where
  "removeID ids i = remove1 i ids"

definition kick :: "('s, 'b) deps \<Rightarrow> uid \<Rightarrow> ('s, 'b) room \<Rightarrow> ('s, 'b) room" where
  "kick d pid r =
     (case player_of r pid of
        None \<Rightarrow> r
      | Some p \<Rightarrow>
          (case api_DeletePlayer (d_store d) pid (r_store r) of
             (Some _, s') \<Rightarrow> r\<lparr>r_store := s'\<rparr>
           | (None, s') \<Rightarrow>
               let r1 = r\<lparr>r_store := s', r_players := AList.delete pid (r_players r),
                          r_order := removeID (r_order r) pid\<rparr>;
                   r2 = forgetStanding d pid r1;
                   r3 = (case ps_sink p of
                           None \<Rightarrow> r2
                         | Some s \<Rightarrow> close s (send s (MPlayerKicked ''kicked by host'') r2));
                   r4 = markLeaderboardDirty d r3
               in endIfAllFinished d r4))"

subsection \<open>Events and the loop\<close>

datatype event =
    EvRestoreBoard
  | EvAddPlayer player
  | EvAttachPlayer uid sink
  | EvAttachHost uid sink
  | EvDetach sink
  | EvStart
  | EvEnd
  | EvKick uid
  | EvNext uid
  | EvAnswer uid string "string option"
  | EvDeadline
  | EvLbTimer
  | EvShutdown

fun handle :: "('s, 'b) deps \<Rightarrow> event \<Rightarrow> ('s, 'b) room \<Rightarrow> ('s, 'b) room" where
  "handle d EvRestoreBoard r = restoreBoard d r"
| "handle d (EvAddPlayer p) r = addPlayerAndNotify p r"
| "handle d (EvAttachPlayer pid s) r = snd (attachPlayer d pid s r)"
| "handle d (EvAttachHost hid s) r = snd (attachHost hid s r)"
| "handle d (EvDetach s) r = detach s r"
| "handle d EvStart r = startSession d r"
| "handle d EvEnd r = endSession d r"
| "handle d (EvKick pid) r = kick d pid r"
| "handle d (EvNext pid) r = nextQuestion d pid r"
| "handle d (EvAnswer pid qid oid) r = answer d pid qid oid r"
| "handle d EvDeadline r = endSession d (r\<lparr>r_deadline := None\<rparr>)"
| "handle d EvLbTimer r = lbTimerFires d r"
| "handle d EvShutdown r = closeAll r"

text \<open>
  A timer's event enters the queue only after the timer was armed and its due time has passed. A
  player is added only by the join handler, with what \<open>JoinRoom\<close> returned: all totals zero.
  Every other event may arrive at any time.
\<close>

definition fresh_player :: "player \<Rightarrow> bool" where
  "fresh_player p \<longleftrightarrow> pl_score p = 0 \<and> pl_correctCount p = 0 \<and> pl_totalMs p = 0 \<and>
     pl_currentIndex p = 0 \<and> pl_streak p = 0"

fun enabled :: "('s, 'b) deps \<Rightarrow> event \<Rightarrow> ('s, 'b) room \<Rightarrow> bool" where
  "enabled d EvDeadline r =
     (case r_deadline r of None \<Rightarrow> False | Some t \<Rightarrow> t \<le> d_clock d (r_tick r))"
| "enabled d EvLbTimer r =
     (case r_lbTimer r of None \<Rightarrow> False | Some t \<Rightarrow> t \<le> d_clock d (r_tick r))"
| "enabled d (EvAddPlayer p) r = fresh_player p"
| "enabled d _ r = True"

text \<open>
  One turn of the loop: the room takes an event. When it has ended, or the server's context is
  done, the loop is left: the timers stop and \<open>done\<close> is closed. A room that has left takes no
  further event. Time may pass between events (\<open>idle\<close>: other readings of the shared clock).
\<close>

definition turn :: "('s, 'b) deps \<Rightarrow> event \<Rightarrow> ('s, 'b) room \<Rightarrow> ('s, 'b) room" where
  "turn d ev r =
     (let r' = handle d ev r
      in if r_status r' = Ended \<or> ev = EvShutdown then (stopTimers r')\<lparr>r_done := True\<rparr> else r')"

inductive room_step :: "('s, 'b) deps \<Rightarrow> ('s, 'b) room \<Rightarrow> ('s, 'b) room \<Rightarrow> bool" for d where
  take_event: "\<not> r_done r \<Longrightarrow> enabled d ev r \<Longrightarrow> room_step d r (turn d ev r)"
| idle: "\<not> r_done r \<Longrightarrow> room_step d r (r\<lparr>r_tick := Suc (r_tick r)\<rparr>)"

inductive room_steps :: "('s, 'b) deps \<Rightarrow> ('s, 'b) room \<Rightarrow> ('s, 'b) room \<Rightarrow> bool" for d where
  refl: "room_steps d r r"
| step: "room_steps d r r' \<Longrightarrow> room_step d r' r'' \<Longrightarrow> room_steps d r r''"

inductive_cases room_stepE: "room_step d r r'"

text \<open>
  \<open>call\<close>: what the caller of an event gets back. A room that has left answers nobody, and its
  caller sees \<open>ErrRoomClosed\<close>.
\<close>

datatype call_error = Rejected attach_error | RoomClosed

definition AttachPlayer :: "('s, 'b) deps \<Rightarrow> uid \<Rightarrow> sink \<Rightarrow> ('s, 'b) room \<Rightarrow>
    call_error option \<times> ('s, 'b) room" where
  "AttachPlayer d pid s r =
     (if r_done r then (Some RoomClosed, r)
      else (map_option Rejected (fst (attachPlayer d pid s r)), turn d (EvAttachPlayer pid s) r))"

definition AttachHost :: "('s, 'b) deps \<Rightarrow> uid \<Rightarrow> sink \<Rightarrow> ('s, 'b) room \<Rightarrow>
    call_error option \<times> ('s, 'b) room" where
  "AttachHost d hid s r =
     (if r_done r then (Some RoomClosed, r)
      else (map_option Rejected (fst (attachHost hid s r)), turn d (EvAttachHost hid s) r))"

text \<open>The loop on a list of events, for evaluation: events that are not enabled are dropped.\<close>

fun run_events :: "('s, 'b) deps \<Rightarrow> event list \<Rightarrow> ('s, 'b) room \<Rightarrow> ('s, 'b) room" where
  "run_events d [] r = r"
| "run_events d (ev # evs) r =
     (if r_done r then r
      else run_events d evs (if enabled d ev r then turn d ev r else r))"

lemma run_events_steps:
  "room_steps d r0 r \<Longrightarrow> room_steps d r0 (run_events d evs r)"
  by (induction evs arbitrary: r) (auto intro: room_steps.step room_step.take_event)

end
