(* ===== verification/RoomInv.thy ===== *)
theory RoomInv
  imports Session
begin

section \<open>The invariant of a room\<close>

text \<open>
  What holds between two events of a room: its players are well-formed, every active question is
  the next unanswered one of the room with its limit and a permutation of its options, totals stay
  in the bounds that make the ranking key exact and the narrowing casts of the store harmless, and
  the leaderboard timer is armed exactly when an update waits. Every operation keeps it, and so
  does every reachable room (\<open>room_inv_reachable\<close>).
\<close>

subsection \<open>Operations that leave the game alone\<close>

text \<open>
  \<open>quiet d r r'\<close>: between \<open>r\<close> and \<open>r'\<close> messages were sent, the clock and the generator were
  read and the leaderboard was updated, and nothing else.
\<close>

definition lb_ok :: "('s, 'b) deps \<Rightarrow> ('s, 'b) room \<Rightarrow> bool" where
  "lb_ok d r \<longleftrightarrow>
     (r_lbDirty r \<longrightarrow> r_lbWaiting r) \<and> (r_lbWaiting r \<longleftrightarrow> r_lbTimer r \<noteq> None) \<and>
     (\<forall>t. r_lbLast r = Some t \<longrightarrow> t \<le> d_clock d (r_tick r)) \<and>
     (\<forall>t. r_lbTimer r = Some t \<longrightarrow> (\<exists>t0. r_lbLast r = Some t0 \<and> t = t0 + d_lbInterval d))"

definition unchanged :: "('s, 'b) room \<Rightarrow> ('s, 'b) room \<Rightarrow> bool" where
  "unchanged r r' \<longleftrightarrow>
     r_id r' = r_id r \<and> r_hostID r' = r_hostID r \<and> r_jenjang r' = r_jenjang r \<and>
     r_accuracyMode r' = r_accuracyMode r \<and> r_questions r' = r_questions r \<and>
     r_status r' = r_status r \<and> r_players r' = r_players r \<and> r_order r' = r_order r \<and>
     r_host r' = r_host r \<and> r_deadline r' = r_deadline r \<and> r_done r' = r_done r \<and>
     r_store r' = r_store r \<and> r_tick r \<le> r_tick r'"

definition quiet :: "('s, 'b) deps \<Rightarrow> ('s, 'b) room \<Rightarrow> ('s, 'b) room \<Rightarrow> bool" where
  "quiet d r r' \<longleftrightarrow> unchanged r r' \<and> (mono (d_clock d) \<longrightarrow> lb_ok d r \<longrightarrow> lb_ok d r')"

lemma unchanged_trans: "unchanged r r' \<Longrightarrow> unchanged r' r'' \<Longrightarrow> unchanged r r''"
  by (simp add: unchanged_def)

lemma quiet_refl [simp, intro!]: "quiet d r r"
  by (simp add: quiet_def unchanged_def)

lemma quiet_trans [trans]: "quiet d r r' \<Longrightarrow> quiet d r' r'' \<Longrightarrow> quiet d r r''"
  by (auto simp: quiet_def intro: unchanged_trans)

lemma quiet_fields:
  assumes "quiet d r r'"
  shows "r_id r' = r_id r" "r_hostID r' = r_hostID r" "r_jenjang r' = r_jenjang r"
    "r_accuracyMode r' = r_accuracyMode r" "r_questions r' = r_questions r"
    "r_status r' = r_status r" "r_players r' = r_players r" "r_order r' = r_order r"
    "r_host r' = r_host r" "r_deadline r' = r_deadline r" "r_done r' = r_done r"
    "r_store r' = r_store r"
  using assms by (simp_all add: quiet_def unchanged_def)

lemma quiet_tick: "quiet d r r' \<Longrightarrow> r_tick r \<le> r_tick r'"
  by (simp add: quiet_def unchanged_def)

lemma quiet_player_of_eq: "quiet d r r' \<Longrightarrow> player_of r' = player_of r"
  by (simp add: quiet_def unchanged_def player_of_def fun_eq_iff)

lemma quiet_lb_ok: "quiet d r r' \<Longrightarrow> mono (d_clock d) \<Longrightarrow> lb_ok d r \<Longrightarrow> lb_ok d r'"
  by (simp add: quiet_def)

lemma lb_ok_later: "mono (d_clock d) \<Longrightarrow> lb_ok d r \<Longrightarrow> lb_ok d (r\<lparr>r_tick := Suc (r_tick r)\<rparr>)"
proof -
  assume m: "mono (d_clock d)" and l: "lb_ok d r"
  have "d_clock d (r_tick r) \<le> d_clock d (Suc (r_tick r))" using m by (simp add: monoD)
  then show ?thesis using l by (force simp: lb_ok_def)
qed

lemma lb_ok_frame [simp]:
  "lb_ok d (r\<lparr>r_out := out\<rparr>) = lb_ok d r" "lb_ok d (r\<lparr>r_board := b\<rparr>) = lb_ok d r"
  "lb_ok d (r\<lparr>r_draw := n\<rparr>) = lb_ok d r" "lb_ok d (r\<lparr>r_players := ps\<rparr>) = lb_ok d r"
  "lb_ok d (r\<lparr>r_order := ids\<rparr>) = lb_ok d r" "lb_ok d (r\<lparr>r_host := h\<rparr>) = lb_ok d r"
  "lb_ok d (r\<lparr>r_status := st\<rparr>) = lb_ok d r" "lb_ok d (r\<lparr>r_store := s\<rparr>) = lb_ok d r"
  "lb_ok d (r\<lparr>r_deadline := dl\<rparr>) = lb_ok d r"
  by (simp_all add: lb_ok_def)

lemma quiet_out: "quiet d r (r\<lparr>r_out := out\<rparr>)"
  by (simp add: quiet_def unchanged_def lb_ok_frame)

lemma quiet_board: "quiet d r (r\<lparr>r_board := b\<rparr>)"
  by (simp add: quiet_def unchanged_def lb_ok_frame)

lemma quiet_draw: "quiet d r (r\<lparr>r_draw := n\<rparr>)"
  by (simp add: quiet_def unchanged_def lb_ok_frame)

lemma quiet_send: "quiet d r (send s m r)"
  by (simp add: send_def quiet_out)

lemma quiet_close: "quiet d r (close s r)"
  by (simp add: close_def quiet_out)

lemma quiet_sendTo: "quiet d r (sendTo p m r)"
  by (simp add: sendTo_def quiet_send split: option.split)

lemma quiet_reject: "quiet d r (reject p ref code msg r)"
  by (simp add: reject_def quiet_sendTo)

lemma quiet_broadcast: "quiet d r (broadcast m r)"
  by (simp add: broadcast_def quiet_out)

lemma quiet_tick_read: "quiet d r (r\<lparr>r_tick := Suc (r_tick r)\<rparr>)"
  using lb_ok_later by (auto simp: quiet_def unchanged_def)

lemma quiet_read_clock: "quiet d r (snd (read_clock d r))"
  by (simp add: read_clock_def quiet_tick_read)

lemma quiet_saveStandings: "quiet d r (saveStandings d ss r)"
  by (simp add: saveStandings_def quiet_board split: option.split prod.split)

lemma quiet_forgetStanding: "quiet d r (forgetStanding d pid r)"
  by (simp add: forgetStanding_def quiet_board split: option.split prod.split)

lemma quiet_rankedIDs: "quiet d r (snd (rankedIDs d r))"
  by (auto simp: rankedIDs_def Let_def quiet_board
      intro: quiet_trans [OF quiet_board quiet_saveStandings] split: option.split prod.split)

subsection \<open>The leaderboard\<close>

lemma rankedIDs_lb:
  "r_lbWaiting (snd (rankedIDs d r)) = r_lbWaiting r"
  "r_lbTimer (snd (rankedIDs d r)) = r_lbTimer r"
  "r_lbLast (snd (rankedIDs d r)) = r_lbLast r"
  "r_tick (snd (rankedIDs d r)) = r_tick r"
  by (auto simp: rankedIDs_def saveStandings_def Let_def split: option.split prod.split)

lemma sendLeaderboard_fields:
  "r_lbWaiting (sendLeaderboard d r) = r_lbWaiting r"
  "r_lbTimer (sendLeaderboard d r) = r_lbTimer r"
  "r_lbDirty (sendLeaderboard d r) = False"
  "r_lbLast (sendLeaderboard d r) = Some (d_clock d (r_tick r))"
  "r_tick (sendLeaderboard d r) = Suc (r_tick r)"
  using rankedIDs_lb [of d r]
  by (simp_all add: sendLeaderboard_def read_clock_def broadcast_def Let_def split_beta)

lemma unchanged_sendLeaderboard: "unchanged r (sendLeaderboard d r)"
proof -
  have "unchanged r (snd (rankedIDs d r))" using quiet_rankedIDs [of d r] by (simp add: quiet_def)
  then show ?thesis
    by (simp add: sendLeaderboard_def read_clock_def broadcast_def Let_def split_beta unchanged_def)
qed

lemma lb_ok_sendLeaderboard:
  "mono (d_clock d) \<Longrightarrow> \<not> r_lbWaiting r \<Longrightarrow> r_lbTimer r = None \<Longrightarrow> lb_ok d (sendLeaderboard d r)"
  by (simp add: lb_ok_def sendLeaderboard_fields monoD)

lemma quiet_markLeaderboardDirty: "quiet d r (markLeaderboardDirty d r)"
proof -
  let ?r = "r\<lparr>r_lbDirty := True, r_tick := Suc (r_tick r)\<rparr>"
  have "unchanged r ?r" "unchanged r (r\<lparr>r_lbDirty := True\<rparr>)" by (simp_all add: unchanged_def)
  then have u: "unchanged r (markLeaderboardDirty d r)"
    using unchanged_trans [OF _ unchanged_sendLeaderboard [of ?r d]]
    by (auto simp: markLeaderboardDirty_def read_clock_def Let_def unchanged_def split: option.split)
  have "lb_ok d (markLeaderboardDirty d r)" if m: "mono (d_clock d)" and l: "lb_ok d r"
  proof (cases "r_lbWaiting r")
    case True
    then show ?thesis using l by (simp add: markLeaderboardDirty_def lb_ok_def)
  next
    case False
    have t: "d_clock d (r_tick r) \<le> d_clock d (Suc (r_tick r))" using m by (simp add: monoD)
    have s: "lb_ok d (sendLeaderboard d ?r)"
      using False l by (intro lb_ok_sendLeaderboard m) (simp_all add: lb_ok_def)
    show ?thesis
    proof (cases "r_lbLast r")
      case None
      then show ?thesis using False s by (simp add: markLeaderboardDirty_def read_clock_def)
    next
      case (Some t0)
      then have "t0 \<le> d_clock d (Suc (r_tick r))" using l t by (auto simp: lb_ok_def)
      have w: "lb_ok d (?r\<lparr>r_lbWaiting := True, r_lbTimer := Some (t0 + d_lbInterval d)\<rparr>)"
        using \<open>t0 \<le> _\<close> Some by (simp add: lb_ok_def)
      show ?thesis
      proof (cases "d_lbInterval d \<le> d_clock d (r_tick r) - t0")
        case True
        then show ?thesis using False s Some by (simp add: markLeaderboardDirty_def read_clock_def)
      next
        case late: False
        have "d_clock d (r_tick r) + (d_lbInterval d - (d_clock d (r_tick r) - t0)) = t0 + d_lbInterval d"
          by simp
        then show ?thesis using False late w Some
          by (simp add: markLeaderboardDirty_def read_clock_def Let_def add.commute)
      qed
    qed
  qed
  then show ?thesis using u by (simp add: quiet_def)
qed

lemma quiet_lbTimerFires: "r_status r \<noteq> Ended \<Longrightarrow> quiet d r (lbTimerFires d r)"
proof -
  assume live: "r_status r \<noteq> Ended"
  let ?r = "r\<lparr>r_lbWaiting := False, r_lbTimer := None\<rparr>"
  have u: "unchanged r ?r" by (simp add: unchanged_def)
  have "lb_ok d (lbTimerFires d r)" if m: "mono (d_clock d)" and l: "lb_ok d r"
  proof (cases "r_lbDirty r")
    case True
    then show ?thesis using live lb_ok_sendLeaderboard [OF m, of ?r] by (simp add: lbTimerFires_def)
  next
    case False
    then show ?thesis using live l by (simp add: lbTimerFires_def lb_ok_def)
  qed
  moreover have "unchanged r (lbTimerFires d r)"
    using live u unchanged_trans [OF u unchanged_sendLeaderboard [of ?r d]]
    by (simp add: lbTimerFires_def Let_def)
  ultimately show ?thesis by (simp add: quiet_def)
qed

subsection \<open>The invariant\<close>

text \<open>
  The running totals of a player who has resolved some of \<open>n\<close> questions. A question is worth at
  most 1250 points (1000 and the capped bonus) and only if it is answered correctly, and takes at
  most 31250 ms (the longest timer, for the youngest pupils).
\<close>

definition totals_ok :: "nat \<Rightarrow> player_state \<Rightarrow> bool" where
  "totals_ok n p \<longleftrightarrow>
     0 \<le> ps_streak p \<and> ps_streak p \<le> ps_correct p \<and> ps_correct p \<le> ps_resolved p \<and>
     ps_resolved p \<le> int n \<and> 0 \<le> ps_score p \<and> ps_score p \<le> 1250 * ps_correct p \<and>
     0 \<le> ps_totalMs p \<and> ps_totalMs p \<le> 31250 * ps_resolved p"

definition active_ok :: "question list \<Rightarrow> string \<Rightarrow> time \<Rightarrow> int \<Rightarrow> active_question \<Rightarrow> bool" where
  "active_ok qs jenjang now n a \<longleftrightarrow>
     n < int (length qs) \<and> aq_question a = qs ! nat n \<and>
     mset (aq_options a) = mset (q_options (aq_question a)) \<and>
     aq_limit a = questionLimit (q_level (aq_question a)) jenjang \<and> aq_servedAt a \<le> now"

definition player_ok :: "('s, 'b) deps \<Rightarrow> ('s, 'b) room \<Rightarrow> uid \<Rightarrow> player_state \<Rightarrow> bool" where
  "player_ok d r pid p \<longleftrightarrow>
     pl_id (ps_info p) = pid \<and> totals_ok (length (r_questions r)) p \<and>
     (\<forall>a. ps_active p = Some a \<longrightarrow>
        active_ok (r_questions r) (r_jenjang r) (d_clock d (r_tick r)) (ps_resolved p) a)"

text \<open>\<open>order\<close> lists the keys of \<open>players\<close>, each once.\<close>

definition order_ok :: "('s, 'b) room \<Rightarrow> bool" where
  "order_ok r \<longleftrightarrow> distinct (keys (r_players r)) \<and> distinct (r_order r) \<and>
     set (r_order r) = set (keys (r_players r))"

definition status_ok :: "('s, 'b) room \<Rightarrow> player_state \<Rightarrow> bool" where
  "status_ok r p \<longleftrightarrow> (r_status r = Lobby \<longrightarrow> ps_active p = None) \<and>
     (r_status r = Ended \<longrightarrow> ps_sink p = None)"

definition room_inv :: "('s, 'b) deps \<Rightarrow> ('s, 'b) room \<Rightarrow> bool" where
  "room_inv d r \<longleftrightarrow> order_ok r \<and>
     (\<forall>pid p. player_of r pid = Some p \<longrightarrow> player_ok d r pid p \<and> status_ok r p) \<and>
     (r_status r = Ended \<longrightarrow> r_host r = None) \<and> (r_done r \<or> lb_ok d r)"

lemma room_invD:
  assumes "room_inv d r" "player_of r pid = Some p"
  shows "player_ok d r pid p" "status_ok r p"
  using assms by (simp_all add: room_inv_def)

lemma active_ok_later: "active_ok qs j now n a \<Longrightarrow> now \<le> now' \<Longrightarrow> active_ok qs j now' n a"
  unfolding active_ok_def by linarith

lemma player_ok_later:
  assumes "player_ok d r pid p" "mono (d_clock d)" "r_tick r \<le> r_tick r'"
    and "r_questions r' = r_questions r" "r_jenjang r' = r_jenjang r"
  shows "player_ok d r' pid p"
proof -
  have "d_clock d (r_tick r) \<le> d_clock d (r_tick r')" using assms by (simp add: monoD)
  then show ?thesis using assms(1,4,5) by (auto simp: player_ok_def intro: active_ok_later)
qed

lemma room_inv_quiet:
  assumes "quiet d r r'" "mono (d_clock d)" "room_inv d r"
  shows "room_inv d r'"
proof -
  note f = quiet_fields [OF assms(1)]
  have "player_ok d r' pid p" if "player_of r pid = Some p" for pid p
    using player_ok_later [OF room_invD(1) [OF assms(3) that] assms(2) quiet_tick [OF assms(1)]] f by simp
  then show ?thesis
    using assms(3) quiet_lb_ok [OF assms(1,2)] quiet_player_of_eq [OF assms(1)]
    by (auto simp: room_inv_def order_ok_def status_ok_def f)
qed

lemma room_inv_store [simp]: "room_inv d (r\<lparr>r_store := s\<rparr>) = room_inv d r"
  by (simp add: room_inv_def order_ok_def player_of_def player_ok_def status_ok_def)

lemma room_inv_deadline [simp]: "room_inv d (r\<lparr>r_deadline := t\<rparr>) = room_inv d r"
  by (simp add: room_inv_def order_ok_def player_of_def player_ok_def status_ok_def)

lemma player_of_set_player [simp]: "player_of (set_player pid p r) = (player_of r)(pid \<mapsto> p)"
  by (simp add: player_of_def set_player_def fun_eq_iff)

lemma set_player_fields [simp]:
  "r_id (set_player pid p r) = r_id r" "r_hostID (set_player pid p r) = r_hostID r"
  "r_jenjang (set_player pid p r) = r_jenjang r" "r_accuracyMode (set_player pid p r) = r_accuracyMode r"
  "r_questions (set_player pid p r) = r_questions r" "r_status (set_player pid p r) = r_status r"
  "r_order (set_player pid p r) = r_order r" "r_host (set_player pid p r) = r_host r"
  "r_deadline (set_player pid p r) = r_deadline r" "r_done (set_player pid p r) = r_done r"
  "r_store (set_player pid p r) = r_store r" "r_tick (set_player pid p r) = r_tick r"
  "lb_ok d (set_player pid p r) = lb_ok d r"
  by (simp_all add: set_player_def)

lemma room_inv_set_player:
  assumes "room_inv d r" "player_of r pid = Some p" "player_ok d r pid p'" "status_ok r p'"
  shows "room_inv d (set_player pid p' r)"
proof -
  have "keys (r_players (set_player pid p' r)) = keys (r_players r)"
    using map_of_Some_key [of "r_players r" pid p] assms(2)
    by (simp add: set_player_def player_of_def keys_update_present)
  then show ?thesis
    using assms by (auto simp: room_inv_def order_ok_def player_ok_def status_ok_def)
qed

end
