(* ===== verification/PlayInv.thy ===== *)
theory PlayInv
  imports RoomInv
begin

section \<open>Gameplay keeps the invariant\<close>

text \<open>
  The operations of \<open>play.go\<close>: what each leaves alone, and that each keeps \<open>room_inv\<close>. The heart
  is \<open>resolve\<close>: \<open>advance_totals_ok\<close> bounds the new totals and \<open>outcome_ok\<close> the outcome that
  \<open>outcomeOf\<close> computes.
\<close>

subsection \<open>Quiet operations\<close>

lemma quiet_sendQuestion: "quiet d r (sendQuestion p a now r)"
  by (simp add: sendQuestion_def Let_def quiet_sendTo)

lemma quiet_resumeActive: "quiet d r (resumeActive d p r)"
  by (simp add: resumeActive_def read_clock_def quiet_trans [OF quiet_tick_read quiet_sendQuestion]
      split: option.split)

lemma quiet_shuffledOptions: "quiet d r (snd (shuffledOptions d q r))"
  by (simp add: shuffledOptions_def quiet_draw split_beta Let_def)

lemma mset_shuffledOptions: "mset (fst (shuffledOptions d q r)) = mset (q_options q)"
proof -
  have "fst (shuffledOptions d q r) = fst (shuffle (d_rng d) (r_draw r) (q_options q)) \<or>
    fst (shuffledOptions d q r) = q_options q"
    by (simp add: shuffledOptions_def split_beta Let_def)
  then show ?thesis using mset_shuffle [of "d_rng d" "r_draw r" "q_options q"] by metis
qed

lemma snd_outcomeOf: "snd (outcomeOf d p a oid r) = r\<lparr>r_tick := Suc (r_tick r)\<rparr>"
  by (simp add: outcomeOf_def read_clock_def Let_def split: option.split)

lemma quiet_outcomeOf: "quiet d r (snd (outcomeOf d p a oid r))"
  by (simp add: snd_outcomeOf quiet_tick_read)

lemma quiet_rejectFailedSave: "quiet d r (rejectFailedSave p e r)"
  by (simp add: rejectFailedSave_def quiet_reject)

lemma quiet_rejectUnservedAnswer: "quiet d r (rejectUnservedAnswer p q r)"
  by (simp add: rejectUnservedAnswer_def quiet_reject)

lemma quiet_sendResult: "quiet d r (sendResult p q out fin r)"
  by (simp add: sendResult_def quiet_sendTo)

lemma quiet_saveStanding: "quiet d r (saveStanding d p r)"
  by (simp add: saveStanding_def quiet_saveStandings)

lemma quiet_restoreBoard: "quiet d r (restoreBoard d r)"
  by (simp add: restoreBoard_def quiet_saveStandings)

subsection \<open>Ending a session\<close>

definition disconnected :: "player_state \<Rightarrow> player_state" where
  "disconnected p = p\<lparr>ps_sink := None\<rparr>"

lemma player_ok_sink [simp]:
  "player_ok d r pid (p\<lparr>ps_sink := s\<rparr>) = player_ok d r pid p"
  by (simp add: player_ok_def totals_ok_def)

lemma player_of_closeAll: "player_of (closeAll r) pid = map_option disconnected (player_of r pid)"
proof -
  have "disconnected = (\<lambda>p. p\<lparr>ps_sink := None\<rparr>)" by (simp add: fun_eq_iff disconnected_def)
  then show ?thesis by (simp add: closeAll_def player_of_def map_of_mapped)
qed

lemma closeAll_fields [simp]:
  "r_id (closeAll r) = r_id r" "r_questions (closeAll r) = r_questions r"
  "r_jenjang (closeAll r) = r_jenjang r" "r_status (closeAll r) = r_status r"
  "r_order (closeAll r) = r_order r" "r_host (closeAll r) = None" "r_done (closeAll r) = r_done r"
  "r_tick (closeAll r) = r_tick r" "r_store (closeAll r) = r_store r"
  "keys (r_players (closeAll r)) = keys (r_players r)" "lb_ok d (closeAll r) = lb_ok d r"
  using keys_mapped [of "\<lambda>_ p. p\<lparr>ps_sink := None\<rparr>" "r_players r"]
  by (simp_all add: closeAll_def lb_ok_def del: keys_mapped map_map)

lemma room_inv_closeAll:
  assumes "order_ok r" "r_done r \<or> lb_ok d r"
    and p: "\<And>pid p. player_of r pid = Some p \<Longrightarrow>
      player_ok d r pid p \<and> (r_status r = Lobby \<longrightarrow> ps_active p = None)"
  shows "room_inv d (closeAll r)"
proof -
  have "player_ok d (closeAll r) pid p = player_ok d r pid p" for pid p
    by (simp add: player_ok_def)
  then show ?thesis
    using assms unfolding room_inv_def
    by (auto simp: order_ok_def player_of_closeAll disconnected_def status_ok_def)
qed

lemma endSession_eq:
  assumes "r_status r \<noteq> Ended"
  obtains s out where "endSession d r = closeAll (r\<lparr>r_store := s, r_status := Ended, r_out := out\<rparr>)"
    and "s = snd (api_MarkRoomEnded (d_store d) (r_id r) (r_store r))"
  using assms by (auto simp: endSession_def broadcast_def split_beta Let_def)

lemma room_inv_endSession: "room_inv d r \<Longrightarrow> room_inv d (endSession d r)"
proof (cases "r_status r = Ended")
  case False
  assume i: "room_inv d r"
  obtain s out where e: "endSession d r = closeAll (r\<lparr>r_store := s, r_status := Ended, r_out := out\<rparr>)"
    using endSession_eq [OF False] by blast
  show ?thesis
    unfolding e using i
    by (intro room_inv_closeAll) (auto simp: room_inv_def order_ok_def player_ok_def player_of_def)
qed (simp add: endSession_def)

lemma endSession_fields:
  "r_status (endSession d r) = Ended" "keys (r_players (endSession d r)) = keys (r_players r)"
  "r_order (endSession d r) = r_order r" "r_questions (endSession d r) = r_questions r"
  "r_jenjang (endSession d r) = r_jenjang r" "r_done (endSession d r) = r_done r"
  "r_tick (endSession d r) = r_tick r" "r_id (endSession d r) = r_id r"
  by (cases "r_status r = Ended"; auto simp: endSession_def broadcast_def split_beta Let_def)+

lemma endIfAllFinished_cases:
  "endIfAllFinished d r = r \<or> r_status r = Running \<and> endIfAllFinished d r = endSession d r"
  by (simp add: endIfAllFinished_def)

lemma player_of_endSession:
  assumes "r_status r \<noteq> Ended"
  shows "player_of (endSession d r) pid = map_option disconnected (player_of r pid)"
proof -
  obtain s out where "endSession d r = closeAll (r\<lparr>r_store := s, r_status := Ended, r_out := out\<rparr>)"
    using endSession_eq [OF assms] by blast
  then show ?thesis by (simp add: player_of_closeAll) (simp add: player_of_def)
qed

lemma player_of_endIfAllFinished:
  "player_of (endIfAllFinished d r) pid =
     (if endIfAllFinished d r = r then player_of r pid else map_option disconnected (player_of r pid))"
  using endIfAllFinished_cases [of d r] player_of_endSession [of r d pid] by auto

lemma room_inv_endIfAllFinished: "room_inv d r \<Longrightarrow> room_inv d (endIfAllFinished d r)"
  using endIfAllFinished_cases [of d r] room_inv_endSession [of d r] by auto

subsection \<open>Outcomes\<close>

definition outcome_ok :: "outcome \<Rightarrow> bool" where
  "outcome_ok out \<longleftrightarrow> 0 \<le> oc_points out \<and> oc_points out \<le> 1250 \<and>
     (oc_correct out \<noteq> Some True \<longrightarrow> oc_points out = 0) \<and>
     0 \<le> oc_spentMs out \<and> oc_spentMs out \<le> 31250"

lemma timeoutOutcome_ok: "active_ok qs j now n a \<Longrightarrow> outcome_ok (timeoutOutcome a)"
  using questionLimit_ms_bounds by (simp add: timeoutOutcome_def outcome_ok_def active_ok_def)

lemma outcomeOf_ok:
  assumes "active_ok qs j (d_clock d (r_tick r)) n a" "0 \<le> ps_streak p"
  shows "outcome_ok (fst (outcomeOf d p a oid r))"
proof -
  let ?el = "d_clock d (r_tick r) - aq_servedAt a"
  obtain l where l: "aq_limit a = questionLimit l j" using assms(1) by (auto simp: active_ok_def)
  have "0 \<le> ?el" using assms(1) by (simp add: active_ok_def)
  then have "0 \<le> min ?el (aq_limit a)" "min ?el (aq_limit a) \<le> aq_limit a"
    using questionLimit_bounds [of l j] l by auto
  then have "to_ms 0 \<le> to_ms (min ?el (aq_limit a))" "to_ms (min ?el (aq_limit a)) \<le> to_ms (aq_limit a)"
    by (intro to_ms_mono; simp)+
  then have "0 \<le> to_ms (min ?el (aq_limit a))" "to_ms (min ?el (aq_limit a)) \<le> 31250"
    using questionLimit_ms_bounds [of l j] l by (simp_all add: to_ms_nonneg)
  moreover have "0 \<le> Score (score_input_of r p a c e)" "Score (score_input_of r p a c e) \<le> 1250"
    "Score (score_input_of r p a False e) = 0" for c e
    using assms(2) by (simp_all add: Score_nonneg Score_le score_input_of_def) (simp add: Score_def)
  ultimately show ?thesis
    using timeoutOutcome_ok [OF assms(1)]
    by (auto simp: outcomeOf_def read_clock_def Let_def outcome_ok_def score_input_of_def
        split: option.split)
qed

lemma advance_totals_ok:
  "totals_ok n p \<Longrightarrow> ps_resolved p < int n \<Longrightarrow> outcome_ok out \<Longrightarrow> totals_ok n (advance p out)"
  by (auto simp: totals_ok_def outcome_ok_def advance_def Let_def)

lemma advance_fields [simp]:
  "ps_info (advance p out) = ps_info p" "ps_sink (advance p out) = ps_sink p"
  "ps_active (advance p out) = ps_active p" "ps_resolved (advance p out) = ps_resolved p + 1"
  by (simp_all add: advance_def Let_def)

subsection \<open>Resolving\<close>

text \<open>The two ways \<open>resolve\<close> goes: the store refuses, or the player moves on.\<close>

definition settled :: "player_state \<Rightarrow> outcome \<Rightarrow> player_state" where
  "settled p out = (advance p out)\<lparr>ps_active := None\<rparr>"

definition finishes :: "('s, 'b) room \<Rightarrow> player_state \<Rightarrow> bool" where
  "finishes r p \<longleftrightarrow> ps_resolved p + 1 \<ge> int (length (r_questions r))"

definition save_call :: "('s, 'b) deps \<Rightarrow> player_state \<Rightarrow> active_question \<Rightarrow> outcome \<Rightarrow>
    ('s, 'b) room \<Rightarrow> store_error option \<times> 's" where
  "save_call d p a out r =
     api_SaveResult (d_store d) (result_of p a out (advance p out) (finishes r p)) (r_store r)"

lemma resolve_refused:
  "save_call d p a out r = (Some e, s) \<Longrightarrow>
   resolve d pid p a out ann r = (False, rejectFailedSave p e (r\<lparr>r_store := s\<rparr>))"
  by (simp add: resolve_def persist_def save_call_def finishes_def Let_def)

lemma resolve_saved:
  assumes "save_call d p a out r = (None, s)"
  obtains r5 where "quiet d (set_player pid (settled p out) (r\<lparr>r_store := s\<rparr>)) r5"
    and "resolve d pid p a out ann r =
      (True, if finishes r p then endIfAllFinished d r5 else r5)"
proof -
  let ?r2 = "set_player pid (settled p out) (r\<lparr>r_store := s\<rparr>)"
  let ?r3 = "saveStanding d (settled p out) ?r2"
  let ?r4 = "if ann then sendResult (settled p out) (aq_question a) out (finishes r p) ?r3 else ?r3"
  have "quiet d ?r2 ?r3" by (rule quiet_saveStanding)
  also have "quiet d ?r3 ?r4" by (simp add: quiet_sendResult)
  also have "quiet d ?r4 (markLeaderboardDirty d ?r4)" by (rule quiet_markLeaderboardDirty)
  finally have q: "quiet d ?r2 (markLeaderboardDirty d ?r4)" .
  have "resolve d pid p a out ann r =
      (True, if finishes r p then endIfAllFinished d (markLeaderboardDirty d ?r4)
             else markLeaderboardDirty d ?r4)"
    using assms
    by (simp add: resolve_def persist_def save_call_def finishes_def settled_def Let_def)
  then show ?thesis using q that by blast
qed

lemma player_ok_settled:
  assumes "player_ok d r pid p" "ps_active p = Some a" "outcome_ok out"
  shows "player_ok d r pid (settled p out)"
proof -
  have "totals_ok (length (r_questions r)) (advance p out)"
    using assms by (intro advance_totals_ok) (auto simp: player_ok_def active_ok_def)
  then show ?thesis using assms by (auto simp: player_ok_def settled_def totals_ok_def)
qed

lemma player_of_store [simp]: "player_of (r\<lparr>r_store := s\<rparr>) = player_of r"
  by (simp add: player_of_def fun_eq_iff)

lemma player_ok_store [simp]: "player_ok d (r\<lparr>r_store := s\<rparr>) pid p = player_ok d r pid p"
  by (simp add: player_ok_def)

lemma room_inv_resolve:
  assumes m: "mono (d_clock d)" and i: "room_inv d r" and p: "player_of r pid = Some p"
    and a: "ps_active p = Some a" and run: "r_status r = Running" and out: "outcome_ok out"
  shows "room_inv d (snd (resolve d pid p a out ann r))"
proof (cases "save_call d p a out r")
  case (Pair err s)
  show ?thesis
  proof (cases err)
    case (Some e)
    have "room_inv d (r\<lparr>r_store := s\<rparr>)" using i by simp
    then have "room_inv d (rejectFailedSave p e (r\<lparr>r_store := s\<rparr>))"
      by (rule room_inv_quiet [OF quiet_rejectFailedSave m])
    then show ?thesis using Pair Some by (simp add: resolve_refused)
  next
    case None
    have "save_call d p a out r = (None, s)" using Pair None by simp
    then obtain r5 where q: "quiet d (set_player pid (settled p out) (r\<lparr>r_store := s\<rparr>)) r5"
      and e: "resolve d pid p a out ann r = (True, if finishes r p then endIfAllFinished d r5 else r5)"
      by (rule resolve_saved [where pid = pid and ann = ann])
    have "room_inv d (set_player pid (settled p out) (r\<lparr>r_store := s\<rparr>))"
      using i p run player_ok_settled [OF room_invD(1) [OF i p] a out]
      by (intro room_inv_set_player [where p = p]) (simp_all add: status_ok_def)
    then have "room_inv d r5" by (rule room_inv_quiet [OF q m])
    then show ?thesis by (simp add: e room_inv_endIfAllFinished)
  qed
qed

subsection \<open>The other operations\<close>

text \<open>Whatever happens, the same players stay, and so do the questions.\<close>

definition same_game :: "('s, 'b) room \<Rightarrow> ('s, 'b) room \<Rightarrow> bool" where
  "same_game r r' \<longleftrightarrow> keys (r_players r') = keys (r_players r) \<and> r_order r' = r_order r \<and>
     r_questions r' = r_questions r \<and> r_jenjang r' = r_jenjang r \<and> r_done r' = r_done r \<and>
     r_id r' = r_id r"

lemma same_game_trans [trans]: "same_game r r' \<Longrightarrow> same_game r' r'' \<Longrightarrow> same_game r r''"
  by (simp add: same_game_def)

lemma same_game_quiet: "quiet d r r' \<Longrightarrow> same_game r r'"
  by (simp add: same_game_def quiet_def unchanged_def)

lemma same_game_store: "same_game r (r\<lparr>r_store := s\<rparr>)"
  by (simp add: same_game_def)

lemma same_game_set_player: "player_of r pid = Some p \<Longrightarrow> same_game r (set_player pid p' r)"
  using map_of_Some_key [of "r_players r" pid p]
  by (simp add: same_game_def set_player_def player_of_def keys_update_present)

lemma same_game_endIfAllFinished: "same_game r (endIfAllFinished d r)"
  using endIfAllFinished_cases [of d r] endSession_fields [of d r] by (auto simp: same_game_def)

lemma same_game_player:
  "same_game r r' \<Longrightarrow> player_of r' pid = None \<longleftrightarrow> player_of r pid = None"
  by (simp add: same_game_def player_of_def map_of_None_key)

lemma same_game_player_at:
  "same_game r r' \<Longrightarrow> player_of r pid = Some p \<Longrightarrow> player_of r' pid = Some (player_at r' pid)"
  using same_game_player [of r r' pid] by (auto simp: player_at_def)

lemma same_game_resolve:
  assumes p: "player_of r pid = Some p'"
  shows "same_game r (snd (resolve d pid p a out ann r))"
proof (cases "save_call d p a out r")
  case (Pair err s)
  show ?thesis
  proof (cases err)
    case (Some e)
    have "same_game r (rejectFailedSave p e (r\<lparr>r_store := s\<rparr>))"
      using same_game_store same_game_quiet [OF quiet_rejectFailedSave] by (rule same_game_trans)
    then show ?thesis using Pair Some by (simp add: resolve_refused)
  next
    case None
    have "save_call d p a out r = (None, s)" using Pair None by simp
    then obtain r5 where q: "quiet d (set_player pid (settled p out) (r\<lparr>r_store := s\<rparr>)) r5"
      and e: "resolve d pid p a out ann r = (True, if finishes r p then endIfAllFinished d r5 else r5)"
      by (rule resolve_saved [where pid = pid and ann = ann])
    have "same_game r (r\<lparr>r_store := s\<rparr>)" by (rule same_game_store)
    also have "same_game \<dots> (set_player pid (settled p out) (r\<lparr>r_store := s\<rparr>))"
      using p by (intro same_game_set_player) simp
    also have "same_game \<dots> r5" using q by (rule same_game_quiet)
    finally have "same_game r r5" .
    moreover from this have "same_game r (endIfAllFinished d r5)"
      using same_game_endIfAllFinished by (rule same_game_trans)
    ultimately show ?thesis by (simp add: e)
  qed
qed

lemma room_inv_settleExpired:
  assumes m: "mono (d_clock d)" and i: "room_inv d r" and p: "player_of r pid = Some p"
  shows "room_inv d (snd (settleExpired d pid p r))"
proof (cases "ps_active p")
  case None
  then show ?thesis using i by (simp add: settleExpired_def)
next
  case (Some a)
  let ?r = "r\<lparr>r_tick := Suc (r_tick r)\<rparr>"
  have i': "room_inv d ?r" by (rule room_inv_quiet [OF quiet_tick_read m i])
  have p': "player_of ?r pid = Some p" using p by (simp add: player_of_def)
  have "outcome_ok (timeoutOutcome a)"
    using room_invD(1) [OF i p] Some timeoutOutcome_ok by (auto simp: player_ok_def)
  then have "r_status r = Running \<Longrightarrow> room_inv d (snd (resolve d pid p a (timeoutOutcome a) False ?r))"
    using Some by (intro room_inv_resolve [OF m i' p']) simp_all
  then show ?thesis using Some i i' by (simp add: settleExpired_def read_clock_def Let_def)
qed

lemma same_game_settleExpired:
  assumes p: "player_of r pid = Some p'"
  shows "same_game r (snd (settleExpired d pid p r))"
proof -
  let ?r = "r\<lparr>r_tick := Suc (r_tick r)\<rparr>"
  have t: "same_game r ?r" by (simp add: same_game_def)
  have "player_of ?r pid = Some p'" using p by (simp add: player_of_def)
  then have "same_game r (snd (resolve d pid p a out ann ?r))" for a out ann
    using t same_game_resolve same_game_trans by blast
  moreover have "same_game r r" by (simp add: same_game_def)
  ultimately show ?thesis using t
    by (simp add: settleExpired_def read_clock_def Let_def split: option.split)
qed

text \<open>A player who is free has no active question.\<close>

lemma settleExpired_free:
  assumes "player_of r pid = Some p" "fst (settleExpired d pid p r)"
  shows "\<exists>p'. player_of (snd (settleExpired d pid p r)) pid = Some p' \<and> ps_active p' = None"
proof (cases "ps_active p")
  case None
  then show ?thesis using assms by (simp add: settleExpired_def)
next
  case (Some a)
  let ?r = "r\<lparr>r_tick := Suc (r_tick r)\<rparr>"
  let ?x = "resolve d pid p a (timeoutOutcome a) False ?r"
  have e: "settleExpired d pid p r = ?x" "fst ?x"
    using assms Some by (auto simp: settleExpired_def read_clock_def Let_def split: if_splits)
  obtain err s where c: "save_call d p a (timeoutOutcome a) ?r = (err, s)" by fastforce
  then have n: "err = None" using e(2) by (cases err) (simp_all add: resolve_refused)
  obtain r5 where q: "quiet d (set_player pid (settled p (timeoutOutcome a)) (?r\<lparr>r_store := s\<rparr>)) r5"
    and x: "?x = (True, if finishes ?r p then endIfAllFinished d r5 else r5)"
    by (rule resolve_saved [OF c [unfolded n]])
  have "player_of r5 pid = Some (settled p (timeoutOutcome a))"
    using quiet_player_of_eq [OF q] by simp
  moreover have "ps_active (settled p (timeoutOutcome a)) = None" by (simp add: settled_def)
  ultimately show ?thesis
    using player_of_endIfAllFinished [of d r5 pid] by (auto simp: e(1) x disconnected_def)
qed

lemma room_inv_serve:
  assumes m: "mono (d_clock d)" and i: "room_inv d r" and p: "player_of r pid = Some p"
    and run: "r_status r = Running" and more: "ps_resolved p < int (length (r_questions r))"
  shows "room_inv d (serve d pid p r)"
proof -
  let ?q = "r_questions r ! nat (ps_resolved p)"
  let ?r1 = "snd (shuffledOptions d ?q r)"
  let ?r2 = "?r1\<lparr>r_tick := Suc (r_tick ?r1)\<rparr>"
  let ?a = "\<lparr>aq_question = ?q, aq_options = fst (shuffledOptions d ?q r),
    aq_servedAt = d_clock d (r_tick ?r1), aq_limit = questionLimit (q_level ?q) (r_jenjang r)\<rparr>"
  let ?p = "p\<lparr>ps_active := Some ?a\<rparr>"
  have q: "quiet d r ?r2" using quiet_shuffledOptions quiet_tick_read by (rule quiet_trans)
  note f = quiet_fields [OF q] quiet_fields [OF quiet_shuffledOptions, of d ?q r]
  have i2: "room_inv d ?r2" by (rule room_inv_quiet [OF q m i])
  have p2: "player_of ?r2 pid = Some p" using quiet_player_of_eq [OF q] p by simp
  have "d_clock d (r_tick ?r1) \<le> d_clock d (Suc (r_tick ?r1))" using m by (simp add: monoD)
  then have "player_ok d ?r2 pid ?p"
    using room_invD(1) [OF i2 p2] more mset_shuffledOptions [of d ?q r]
    by (simp add: player_ok_def active_ok_def totals_ok_def f)
  then have "room_inv d (set_player pid ?p ?r2)"
    using run f by (intro room_inv_set_player [OF i2 p2]) (simp_all add: status_ok_def)
  then have "room_inv d (sendQuestion ?p ?a (aq_servedAt ?a) (set_player pid ?p ?r2))"
    by (rule room_inv_quiet [OF quiet_sendQuestion m])
  then show ?thesis by (simp add: serve_def read_clock_def split_beta Let_def f)
qed

lemma nextQuestion_running:
  assumes "player_of r pid = Some p" "r_status r = Running"
  shows "nextQuestion d pid r =
    (let (free, r1) = settleExpired d pid p r; p1 = player_at r1 pid in
     if \<not> free then reject p1 ''q.next'' codeInProgress ''answer the current question first'' r1
     else if r_status r1 \<noteq> Running then r1
     else if ps_resolved p1 \<ge> int (length (r_questions r1))
     then reject p1 ''q.next'' codeFinished ''you have answered every question'' r1
     else serve d pid p1 r1)"
proof -
  have "(if ps_active p \<noteq> None then settleExpired d pid p r else (True, r)) = settleExpired d pid p r"
    by (auto simp: settleExpired_def)
  then show ?thesis using assms by (simp add: nextQuestion_def cong: if_cong)
qed

lemma room_inv_nextQuestion:
  assumes m: "mono (d_clock d)" and i: "room_inv d r"
  shows "room_inv d (nextQuestion d pid r)"
proof (cases "player_of r pid")
  case None
  then show ?thesis using i by (simp add: nextQuestion_def)
next
  case (Some p)
  obtain free r1 where x: "settleExpired d pid p r = (free, r1)" by fastforce
  have i1: "room_inv d r1" using room_inv_settleExpired [OF m i Some] x by simp
  have rej: "room_inv d (reject q a b c r')" if "room_inv d r'" for q a b c r'
    using that by (rule room_inv_quiet [OF quiet_reject m])
  have "same_game r r1" using same_game_settleExpired [OF Some, of d p] x by simp
  then have p1: "player_of r1 pid = Some (player_at r1 pid)"
    using Some by (rule same_game_player_at)
  show ?thesis
  proof (cases "r_status r = Running")
    case False
    then show ?thesis using Some rej [OF i] by (simp add: nextQuestion_def)
  next
    case True
    show ?thesis
      using i1 rej [OF i1] room_inv_serve [OF m i1 p1]
      by (simp add: nextQuestion_running [OF Some True] x Let_def)
  qed
qed

lemma room_inv_answer:
  assumes m: "mono (d_clock d)" and i: "room_inv d r"
  shows "room_inv d (answer d pid qid oid r)"
proof (cases "player_of r pid")
  case None
  then show ?thesis using i by (simp add: answer_def)
next
  case p: (Some p)
  have rej: "room_inv d (reject p a b c r)" "room_inv d (rejectUnservedAnswer p qid r)" for a b c
    using i by (rule room_inv_quiet [OF quiet_reject m], rule room_inv_quiet [OF quiet_rejectUnservedAnswer m])
  have res: "room_inv d (snd (resolve d pid p a (fst (outcomeOf d p a oid r)) True (snd (outcomeOf d p a oid r))))"
    if a: "ps_active p = Some a" and run: "r_status r = Running" for a
  proof (rule room_inv_resolve [OF m _ _ a])
    note q = quiet_outcomeOf [of d r p a oid]
    show "room_inv d (snd (outcomeOf d p a oid r))" by (rule room_inv_quiet [OF q m i])
    show "player_of (snd (outcomeOf d p a oid r)) pid = Some p" using quiet_player_of_eq [OF q] p by simp
    show "r_status (snd (outcomeOf d p a oid r)) = Running" using quiet_fields(6) [OF q] run by simp
    show "outcome_ok (fst (outcomeOf d p a oid r))"
      using room_invD(1) [OF i p] a by (intro outcomeOf_ok) (auto simp: player_ok_def totals_ok_def)
  qed
  show ?thesis
    using p rej res by (simp add: answer_def split_beta split: option.split)
qed

end
