(* ===== verification/SessionInv.thy ===== *)
theory SessionInv
  imports PlayInv
begin

section \<open>Every reachable room keeps the invariant\<close>

text \<open>
  The operations of \<open>room.go\<close> and the loop: each keeps \<open>room_inv\<close>, hence so does every run. The
  first consequences follow: the status only moves forward, and the totals of every player stay
  in range.
\<close>

subsection \<open>Players join\<close>

lemma player_of_addPlayer:
  "player_of (addPlayer p r) = (if player_of r (pl_id p) = None
     then (player_of r)(pl_id p \<mapsto> new_player_state p) else player_of r)"
  by (auto simp: addPlayer_def player_of_def fun_eq_iff set_player_def split: option.split)

lemma addPlayer_fields [simp]:
  "r_id (addPlayer p r) = r_id r" "r_questions (addPlayer p r) = r_questions r"
  "r_jenjang (addPlayer p r) = r_jenjang r" "r_status (addPlayer p r) = r_status r"
  "r_host (addPlayer p r) = r_host r" "r_done (addPlayer p r) = r_done r"
  "r_tick (addPlayer p r) = r_tick r" "r_store (addPlayer p r) = r_store r"
  "r_deadline (addPlayer p r) = r_deadline r" "lb_ok d (addPlayer p r) = lb_ok d r"
  by (auto simp: addPlayer_def set_player_def lb_ok_def split: option.split)

lemma order_ok_addPlayer: "order_ok r \<Longrightarrow> order_ok (addPlayer p r)"
proof (cases "player_of r (pl_id p)")
  case None
  assume "order_ok r"
  moreover have "pl_id p \<notin> set (keys (r_players r))"
    using None by (simp add: player_of_def map_of_None_key)
  ultimately show ?thesis
    using None by (auto simp: order_ok_def addPlayer_def set_player_def keys_update_absent)
qed (simp add: addPlayer_def)

lemma room_inv_addPlayer:
  assumes i: "room_inv d r" and t: "totals_ok (length (r_questions r)) (new_player_state p)"
  shows "room_inv d (addPlayer p r)"
proof -
  have "player_ok d r pid x \<Longrightarrow> player_ok d (addPlayer p r) pid x" for pid x
    by (simp add: player_ok_def)
  moreover have "player_ok d (addPlayer p r) (pl_id p) (new_player_state p)"
    using t by (simp add: player_ok_def new_player_state_def)
  moreover have "status_ok (addPlayer p r) (new_player_state p)"
    by (simp add: status_ok_def new_player_state_def)
  moreover have "order_ok (addPlayer p r)" using i by (simp add: room_inv_def order_ok_addPlayer)
  ultimately show ?thesis
    using i by (auto simp: room_inv_def player_of_addPlayer status_ok_def)
qed

lemma totals_ok_fresh: "fresh_player p \<Longrightarrow> totals_ok n (new_player_state p)"
  by (simp add: fresh_player_def totals_ok_def new_player_state_def)

lemma room_inv_addPlayerAndNotify:
  assumes m: "mono (d_clock d)" and i: "room_inv d r" and f: "fresh_player p"
  shows "room_inv d (addPlayerAndNotify p r)"
proof -
  have a: "room_inv d (addPlayer p r)" by (rule room_inv_addPlayer [OF i totals_ok_fresh [OF f]])
  then have "room_inv d (send s msg (addPlayer p r))" for s msg
    by (rule room_inv_quiet [OF quiet_send m])
  then show ?thesis using a by (simp add: addPlayerAndNotify_def Let_def split: option.split)
qed

subsection \<open>Connections\<close>

lemma detach_fields [simp]:
  "r_id (detach s r) = r_id r" "r_questions (detach s r) = r_questions r"
  "r_jenjang (detach s r) = r_jenjang r" "r_status (detach s r) = r_status r"
  "r_order (detach s r) = r_order r" "r_done (detach s r) = r_done r"
  "r_tick (detach s r) = r_tick r" "r_store (detach s r) = r_store r"
  "r_host (detach s r) = (if r_host r = Some s then None else r_host r)"
  "lb_ok d (detach s r) = lb_ok d r"
  by (simp_all add: detach_def lb_ok_def)

lemma room_inv_detach: "room_inv d r \<Longrightarrow> room_inv d (detach s r)"
proof -
  assume i: "room_inv d r"
  let ?f = "\<lambda>p. if ps_sink p = Some s then p\<lparr>ps_sink := None\<rparr> else p"
  have k: "keys (r_players (detach s r)) = keys (r_players r)"
    using keys_mapped [of "\<lambda>_. ?f" "r_players r"] by (simp add: detach_def)
  have p: "player_of (detach s r) pid = map_option ?f (player_of r pid)" for pid
    by (simp add: detach_def player_of_def map_of_mapped)
  have "player_ok d r pid x \<Longrightarrow> player_ok d (detach s r) pid (?f x)" for pid x
    by (simp add: player_ok_def totals_ok_def)
  moreover have "status_ok r x \<Longrightarrow> status_ok (detach s r) (?f x)" for x by (simp add: status_ok_def)
  ultimately have "\<forall>pid x. player_of (detach s r) pid = Some x \<longrightarrow>
      player_ok d (detach s r) pid x \<and> status_ok (detach s r) x"
    using i p unfolding room_inv_def by fastforce
  then show ?thesis using i k by (simp add: room_inv_def order_ok_def)
qed

lemma room_inv_host:
  "room_inv d r \<Longrightarrow> r_status r \<noteq> Ended \<Longrightarrow> room_inv d (r\<lparr>r_host := h\<rparr>)"
  by (simp add: room_inv_def order_ok_def player_of_def player_ok_def status_ok_def)

lemma room_inv_attachHost:
  assumes m: "mono (d_clock d)" and i: "room_inv d r" and live: "r_status r \<noteq> Ended"
  shows "room_inv d (snd (attachHost hid s r))"
proof -
  let ?r = "case r_host r of None \<Rightarrow> r | Some old \<Rightarrow> close old r"
  have q: "quiet d r ?r" by (simp add: quiet_close split: option.split)
  have "room_inv d (?r\<lparr>r_host := Some s\<rparr>)"
    using room_inv_quiet [OF q m i] live quiet_fields(6) [OF q] by (intro room_inv_host) simp_all
  then have "room_inv d (send s msg (?r\<lparr>r_host := Some s\<rparr>))" for msg
    by (rule room_inv_quiet [OF quiet_send m])
  then show ?thesis using i by (simp add: attachHost_def Let_def)
qed

lemma room_inv_attachPlayer:
  assumes m: "mono (d_clock d)" and i: "room_inv d r"
  shows "room_inv d (snd (attachPlayer d pid s r))"
proof (cases "player_of r pid")
  case None
  then show ?thesis using i by (simp add: attachPlayer_def)
next
  case (Some p)
  let ?r1 = "case ps_sink p of None \<Rightarrow> r | Some old \<Rightarrow> set_player pid (p\<lparr>ps_sink := None\<rparr>) (close old r)"
  have close: "room_inv d (close old r)" for old by (rule room_inv_quiet [OF quiet_close m i])
  have po: "player_of (close old r) = player_of r" for old by (rule quiet_player_of_eq [OF quiet_close])
  have i1: "room_inv d ?r1"
  proof (cases "ps_sink p")
    case s: (Some old)
    have "player_ok d (close old r) pid p" using room_invD(1) [OF close, of old pid p] po Some by simp
    moreover have "status_ok (close old r) p" using room_invD(2) [OF close, of old pid p] po Some by simp
    ultimately show ?thesis
      using s po Some by (auto intro!: room_inv_set_player [OF close] simp: status_ok_def)
  qed (simp add: i)
  have "player_of ?r1 pid = Some (player_at ?r1 pid)"
    using Some po by (auto simp: player_at_def split: option.split)
  then obtain r1 where r1: "?r1 = r1" and i1: "room_inv d r1" and
    p1: "player_of r1 pid = Some (player_at r1 pid)" using i1 by blast
  obtain free r2 where x: "settleExpired d pid (player_at r1 pid) r1 = (free, r2)" by fastforce
  have i2: "room_inv d r2" using room_inv_settleExpired [OF m i1 p1] x by simp
  have "same_game r1 r2" using same_game_settleExpired [OF p1, of d "player_at r1 pid"] x by simp
  then have p2: "player_of r2 pid = Some (player_at r2 pid)"
    using p1 by (rule same_game_player_at)
  let ?p = "(player_at r2 pid)\<lparr>ps_sink := Some s\<rparr>"
  have "room_inv d (resumeActive d ?p (send s msg (set_player pid ?p r2)))"
    if "r_status r2 \<noteq> Ended" for msg
  proof -
    have "room_inv d (set_player pid ?p r2)"
      using room_invD [OF i2 p2] that by (intro room_inv_set_player [OF i2 p2]) (simp_all add: status_ok_def)
    then show ?thesis
      by (rule room_inv_quiet [OF quiet_trans [OF quiet_send quiet_resumeActive] m])
  qed
  moreover have "room_inv d (close s (send s msg r2))" for msg
    using i2 by (rule room_inv_quiet [OF quiet_trans [OF quiet_send quiet_close] m])
  ultimately show ?thesis using Some x by (simp add: attachPlayer_def r1 Let_def)
qed

subsection \<open>Commands of the host\<close>

lemma room_inv_running:
  "room_inv d r \<Longrightarrow> r_status r = Lobby \<Longrightarrow> room_inv d (r\<lparr>r_status := Running\<rparr>)"
  by (simp add: room_inv_def order_ok_def player_of_def player_ok_def status_ok_def)

lemma room_inv_armDeadline:
  assumes "mono (d_clock d)" "room_inv d r"
  shows "room_inv d (armDeadline d t r)"
  using room_inv_quiet [OF quiet_tick_read assms] by (simp add: armDeadline_def read_clock_def)

lemma room_inv_startSession:
  assumes m: "mono (d_clock d)" and i: "room_inv d r"
  shows "room_inv d (startSession d r)"
proof -
  obtain res s where x: "api_MarkRoomStarted (d_store d) (r_id r) (r_store r) = (res, s)" by fastforce
  have "room_inv d (broadcast MRoomStarted
      (armDeadline d MaxRoomDuration (r\<lparr>r_store := s, r_status := Running\<rparr>)))"
    if "r_status r = Lobby"
  proof -
    have "room_inv d (r\<lparr>r_store := s, r_status := Running\<rparr>)"
      using room_inv_running [of d "r\<lparr>r_store := s\<rparr>"] i that by simp
    then show ?thesis
      using room_inv_quiet [OF quiet_broadcast m room_inv_armDeadline [OF m]] by blast
  qed
  then show ?thesis using i x by (simp add: startSession_def split: sum.split)
qed

lemma room_inv_remove:
  assumes "room_inv d r"
  shows "room_inv d (r\<lparr>r_store := s, r_players := AList.delete pid (r_players r),
    r_order := removeID (r_order r) pid\<rparr>)" (is "room_inv d ?r")
proof -
  have "order_ok ?r"
    using assms by (auto simp: room_inv_def order_ok_def removeID_def keys_delete set_remove1_eq
        simp del: map_of_delete)
  moreover have "player_of ?r k = (if k = pid then None else player_of r k)" for k
    by (simp add: player_of_def)
  ultimately show ?thesis
    using assms by (auto simp: room_inv_def player_ok_def status_ok_def lb_ok_def)
qed

lemma room_inv_kick:
  assumes m: "mono (d_clock d)" and i: "room_inv d r"
  shows "room_inv d (kick d pid r)"
proof (cases "player_of r pid")
  case (Some p)
  obtain err s where x: "api_DeletePlayer (d_store d) pid (r_store r) = (err, s)" by fastforce
  let ?r1 = "r\<lparr>r_store := s, r_players := AList.delete pid (r_players r), r_order := removeID (r_order r) pid\<rparr>"
  let ?r2 = "forgetStanding d pid ?r1"
  let ?r3 = "case ps_sink p of None \<Rightarrow> ?r2
    | Some k \<Rightarrow> close k (send k (MPlayerKicked ''kicked by host'') ?r2)"
  have "quiet d ?r1 ?r2" by (rule quiet_forgetStanding)
  also have "quiet d ?r2 ?r3"
    by (simp add: quiet_trans [OF quiet_send quiet_close] split: option.split)
  also have "quiet d ?r3 (markLeaderboardDirty d ?r3)" by (rule quiet_markLeaderboardDirty)
  finally have q: "quiet d ?r1 (markLeaderboardDirty d ?r3)" .
  have "room_inv d (endIfAllFinished d (markLeaderboardDirty d ?r3))"
    by (rule room_inv_endIfAllFinished [OF room_inv_quiet [OF q m room_inv_remove [OF i]]])
  then show ?thesis using Some x i by (simp add: kick_def Let_def split: option.split)
qed (simp add: kick_def i)

subsection \<open>One turn, and every run\<close>

lemma room_inv_handle:
  assumes m: "mono (d_clock d)" and i: "room_inv d r" and live: "r_status r \<noteq> Ended"
    and en: "enabled d ev r"
  shows "room_inv d (handle d ev r)"
proof (cases ev)
  case EvRestoreBoard
  then show ?thesis using room_inv_quiet [OF quiet_restoreBoard m i] by simp
next
  case (EvAddPlayer p)
  then show ?thesis using en room_inv_addPlayerAndNotify [OF m i] by simp
next
  case EvLbTimer
  then show ?thesis using room_inv_quiet [OF quiet_lbTimerFires [OF live] m i] by simp
next
  case EvDeadline
  then show ?thesis using room_inv_endSession [of d "r\<lparr>r_deadline := None\<rparr>"] i by simp
next
  case EvShutdown
  then show ?thesis
    using i room_inv_closeAll [of r d] by (simp add: room_inv_def status_ok_def)
qed (use i live in \<open>simp_all add: room_inv_attachPlayer room_inv_attachHost room_inv_detach
  room_inv_startSession room_inv_endSession room_inv_kick room_inv_nextQuestion room_inv_answer m\<close>)

lemma room_inv_leave: "room_inv d r \<Longrightarrow> room_inv d ((stopTimers r)\<lparr>r_done := True\<rparr>)"
  by (simp add: room_inv_def stopTimers_def order_ok_def player_of_def player_ok_def status_ok_def)

lemma room_inv_turn:
  "mono (d_clock d) \<Longrightarrow> room_inv d r \<Longrightarrow> r_status r \<noteq> Ended \<Longrightarrow> enabled d ev r \<Longrightarrow>
   room_inv d (turn d ev r)"
  using room_inv_handle [of d r ev] by (simp add: turn_def room_inv_leave Let_def)

subsection \<open>Starting a room\<close>

text \<open>
  The rows the store returns for the room's players, in the bounds the game itself keeps
  (\<open>Sync\<close> shows that what a room saves stays in them).
\<close>

definition players_loaded_ok :: "question list \<Rightarrow> player list \<Rightarrow> bool" where
  "players_loaded_ok questions players \<longleftrightarrow>
     list_all (\<lambda>p. totals_ok (length questions) (new_player_state p)) players"

lemma room_inv_fold_addPlayer:
  "room_inv d r \<Longrightarrow> list_all (\<lambda>p. totals_ok (length (r_questions r)) (new_player_state p)) ps \<Longrightarrow>
   room_inv d (fold addPlayer ps r)"
  by (induction ps arbitrary: r) (simp_all add: room_inv_addPlayer)

lemma room_inv_newRoom:
  assumes m: "mono (d_clock d)" and "players_loaded_ok questions players"
  shows "room_inv d (newRoom d data players questions s b)"
proof -
  let ?b = "blank_room data questions s b"
  have "room_inv d ?b"
    by (simp add: blank_room_def room_inv_def order_ok_def player_of_def lb_ok_def)
  then have f: "room_inv d (fold addPlayer players ?b)"
    using assms(2) by (intro room_inv_fold_addPlayer) (simp_all add: players_loaded_ok_def blank_room_def)
  then have "room_inv d ((fold addPlayer players ?b)\<lparr>r_tick := Suc (r_tick (fold addPlayer players ?b))\<rparr>)"
    by (rule room_inv_quiet [OF quiet_tick_read m])
  then have "room_inv d (armDeadline d t ((fold addPlayer players ?b)\<lparr>r_tick := Suc (r_tick (fold addPlayer players ?b))\<rparr>))" for t
    by (rule room_inv_armDeadline [OF m])
  then show ?thesis using f by (simp add: newRoom_def read_clock_def Let_def)
qed

lemma newRoom_fields:
  "r_status (newRoom d data players questions s b) = rd_status data"
  "r_questions (newRoom d data players questions s b) = questions"
  "r_id (newRoom d data players questions s b) = rd_id data"
  "r_done (newRoom d data players questions s b) = False"
proof -
  have f: "r_status (fold addPlayer ps r) = r_status r \<and> r_questions (fold addPlayer ps r) = r_questions r \<and>
    r_id (fold addPlayer ps r) = r_id r \<and> r_done (fold addPlayer ps r) = r_done r" for ps and r :: "('a, 'b) room"
    by (induction ps arbitrary: r) simp_all
  show "r_status (newRoom d data players questions s b) = rd_status data"
    "r_questions (newRoom d data players questions s b) = questions"
    "r_id (newRoom d data players questions s b) = rd_id data"
    "r_done (newRoom d data players questions s b) = False"
    by (simp_all add: newRoom_def read_clock_def armDeadline_def Let_def f) (simp_all add: blank_room_def)
qed

subsection \<open>Reachable rooms\<close>

lemma room_inv_step:
  assumes m: "mono (d_clock d)" and s: "room_step d r r'"
    and i: "room_inv d r" and live: "r_status r = Ended \<longrightarrow> r_done r"
  shows "room_inv d r' \<and> (r_status r' = Ended \<longrightarrow> r_done r')"
  using s
proof cases
  case (take_event ev)
  have "room_inv d r'" using take_event live by (auto intro: room_inv_turn [OF m i])
  then show ?thesis using take_event by (simp add: turn_def Let_def stopTimers_def)
next
  case idle
  then show ?thesis using live room_inv_quiet [OF quiet_tick_read m i] by simp
qed

lemma room_inv_steps:
  assumes "room_steps d r r'" "mono (d_clock d)" "room_inv d r" "r_status r = Ended \<longrightarrow> r_done r"
  shows "room_inv d r' \<and> (r_status r' = Ended \<longrightarrow> r_done r')"
  using assms by (induction rule: room_steps.induct) (auto dest: room_inv_step)

text \<open>
  Whatever events a room takes after it was created from rows in range, its state is
  well-formed: the join order lists its players once each, every question on a screen is the
  player's next one with its own time limit and a permutation of its options, nobody answers more
  questions than there are, no question counts for more than 1250 points or 31.25 s, no question
  is active in the lobby, nobody is connected once it has ended, and while the loop runs the
  leaderboard timer is armed exactly when an update waits.
\<close>

theorem room_inv_reachable:
  assumes "mono (d_clock d)" "players_loaded_ok questions players" "rd_status data \<noteq> Ended"
    and "room_steps d (newRoom d data players questions s b) r"
  shows "room_inv d r"
  using room_inv_steps [OF assms(4,1) room_inv_newRoom [OF assms(1,2)]] assms(3)
  by (simp add: newRoom_fields)

end
