(* ===== verification/Frame.thy ===== *)
theory Frame
  imports SessionInv
begin

section \<open>What one player's events can touch\<close>

text \<open>
  The locale \<open>player_frame\<close> collects what a relation between the states of a room must satisfy
  to survive the events of one player: it is transitive and holds for the steps those events are
  made of. The interpretation here says that the events of a player leave every other player alone;
  \<open>Gameplay\<close> has another, for the status of the room.
\<close>

locale player_frame =
  fixes d :: "('s, 'b) deps" and pid :: uid and rel :: "('s, 'b) room \<Rightarrow> ('s, 'b) room \<Rightarrow> bool"
  assumes rel_trans: "rel r r' \<Longrightarrow> rel r' r'' \<Longrightarrow> rel r r''"
    and rel_quiet: "quiet d r r' \<Longrightarrow> rel r r'"
    and rel_store: "rel r (r\<lparr>r_store := s\<rparr>)"
    and rel_set: "player_of r pid = Some p \<Longrightarrow> rel r (set_player pid p' r)"
    and rel_end: "rel r (endIfAllFinished d r)"
begin

lemma rel_resolve:
  assumes "player_of r pid = Some p0"
  shows "rel r (snd (resolve d pid p a out ann r))"
proof (cases "save_call d p a out r")
  case (Pair err s)
  show ?thesis
  proof (cases err)
    case (Some e)
    have "rel r (rejectFailedSave p e (r\<lparr>r_store := s\<rparr>))"
      by (rule rel_trans [OF rel_store rel_quiet [OF quiet_rejectFailedSave]])
    then show ?thesis using Pair Some by (simp add: resolve_refused)
  next
    case None
    have "save_call d p a out r = (None, s)" using Pair None by simp
    then obtain r5 where q: "quiet d (set_player pid (settled p out) (r\<lparr>r_store := s\<rparr>)) r5"
      and e: "resolve d pid p a out ann r = (True, if finishes r p then endIfAllFinished d r5 else r5)"
      by (rule resolve_saved [where pid = pid and ann = ann])
    have "rel r (set_player pid (settled p out) (r\<lparr>r_store := s\<rparr>))"
      using assms by (intro rel_trans [OF rel_store rel_set]) simp
    then have "rel r r5" using rel_quiet [OF q] by (rule rel_trans)
    moreover from this have "rel r (endIfAllFinished d r5)" using rel_end by (rule rel_trans)
    ultimately show ?thesis by (simp add: e)
  qed
qed

lemma rel_tick: "rel r (r\<lparr>r_tick := Suc (r_tick r)\<rparr>)"
  by (rule rel_quiet [OF quiet_tick_read])

lemma rel_settleExpired:
  assumes "player_of r pid = Some p0"
  shows "rel r (snd (settleExpired d pid p r))"
proof -
  have "player_of (r\<lparr>r_tick := Suc (r_tick r)\<rparr>) pid = Some p0" using assms by (simp add: player_of_def)
  then have "rel r (snd (resolve d pid p a out ann (r\<lparr>r_tick := Suc (r_tick r)\<rparr>)))" for a out ann
    by (intro rel_trans [OF rel_tick rel_resolve])
  then show ?thesis
    using rel_tick rel_quiet [OF quiet_refl] by (simp add: settleExpired_def read_clock_def Let_def split: option.split)
qed

lemma rel_serve:
  assumes "player_of r pid = Some p0"
  shows "rel r (serve d pid p r)"
proof -
  let ?r1 = "snd (shuffledOptions d (r_questions r ! nat (ps_resolved p)) r)"
  have q: "quiet d r (snd (read_clock d ?r1))"
    by (rule quiet_trans [OF quiet_shuffledOptions quiet_read_clock])
  then have "player_of (snd (read_clock d ?r1)) pid = Some p0" using assms by (simp add: quiet_player_of_eq)
  then show ?thesis
    unfolding serve_def Let_def split_beta
    by (intro rel_trans [OF rel_trans [OF rel_quiet [OF q] rel_set] rel_quiet [OF quiet_sendQuestion]])
qed

lemma rel_answer: "rel r (answer d pid qid oid r)"
proof (cases "player_of r pid")
  case (Some p)
  have rej: "rel r (reject p a b c r)" "rel r (rejectUnservedAnswer p qid r)" for a b c
    by (rule rel_quiet [OF quiet_reject], rule rel_quiet [OF quiet_rejectUnservedAnswer])
  have "player_of (snd (outcomeOf d p a oid r)) pid = Some p" for a
    using Some by (simp add: quiet_player_of_eq [OF quiet_outcomeOf])
  then have "rel r (snd (resolve d pid p a out True (snd (outcomeOf d p a oid r))))" for a out
    by (intro rel_trans [OF rel_quiet [OF quiet_outcomeOf] rel_resolve])
  then show ?thesis using Some rej by (simp add: answer_def split_beta split: option.split)
qed (simp add: answer_def rel_quiet)

end

text \<open>
  Everybody but the player is as before; if the game ended, disconnected. The roster and what the
  room is stay the same.
\<close>

definition spares :: "uid \<Rightarrow> ('s, 'b) room \<Rightarrow> ('s, 'b) room \<Rightarrow> bool" where
  "spares pid r r' \<longleftrightarrow> dom (player_of r') = dom (player_of r) \<and> r_id r' = r_id r \<and>
     (\<exists>f \<in> {\<lambda>p. p, disconnected}. \<forall>k. k \<noteq> pid \<longrightarrow> player_of r' k = map_option f (player_of r k))"

lemma disconnected_twice [simp]: "disconnected (disconnected p) = disconnected p"
  by (simp add: disconnected_def)

lemma map_option_disconnected_twice [simp]:
  "map_option disconnected (map_option disconnected x) = map_option disconnected x"
  by (cases x) simp_all

lemma spares_same: "player_of r' = player_of r \<Longrightarrow> r_id r' = r_id r \<Longrightarrow> spares pid r r'"
  by (simp add: spares_def option.map_ident)

lemma spares_trans: "spares pid r r' \<Longrightarrow> spares pid r' r'' \<Longrightarrow> spares pid r r''"
  unfolding spares_def by (auto simp: option.map_ident)

lemma spares_end: "spares pid r (endIfAllFinished d r)"
proof (cases "endIfAllFinished d r = r")
  case False
  then have "player_of (endIfAllFinished d r) k = map_option disconnected (player_of r k)" for k
    by (simp add: player_of_endIfAllFinished)
  moreover have "r_id (endIfAllFinished d r) = r_id r"
    using endIfAllFinished_cases [of d r] by (auto simp: endSession_fields)
  ultimately show ?thesis by (auto simp: spares_def dom_def)
qed (simp add: spares_same)

interpretation spare: player_frame d pid "spares pid" for d :: "('s, 'b) deps" and pid
proof
  show "player_of r pid = Some p \<Longrightarrow> spares pid r (set_player pid p' r)" for r :: "('s, 'b) room" and p p'
    by (auto simp: spares_def option.map_ident)
qed (auto simp: spares_same spares_end quiet_player_of_eq quiet_fields player_of_def fun_eq_iff
    intro: spares_trans)

lemma spares_keeps: "spares pid r r' \<Longrightarrow> player_of r k \<noteq> None \<Longrightarrow> player_of r' k \<noteq> None"
  by (auto simp: spares_def)

lemma settle_keeps:
  assumes "player_of r pid = Some p0"
  shows "player_of (snd (settleExpired d pid p r)) pid \<noteq> None"
  using assms by (intro spares_keeps [OF spare.rel_settleExpired [OF assms]]) simp

context player_frame begin

lemma rel_nextQuestion: "rel r (nextQuestion d pid r)"
proof (cases "player_of r pid")
  case (Some p)
  obtain free r1 where x: "settleExpired d pid p r = (free, r1)" by fastforce
  have r1: "rel r r1" using rel_settleExpired [OF Some, of p] x by simp
  obtain p1 where p1: "player_of r1 pid = Some p1" using settle_keeps [OF Some, of d p] x by auto
  have "rel r (reject q a b c r1)" "rel r (reject q a b c r)" "rel r (serve d pid q r1)" for q a b c
    by (rule rel_trans [OF r1 rel_quiet [OF quiet_reject]],
        rule rel_quiet [OF quiet_reject], rule rel_trans [OF r1 rel_serve [OF p1]])
  then show ?thesis
    using r1 nextQuestion_running [OF Some] Some
    by (cases "r_status r = Running") (simp_all add: x Let_def nextQuestion_def)
qed (simp add: nextQuestion_def rel_quiet)

lemma rel_attachPlayer: "rel r (snd (attachPlayer d pid s r))"
proof (cases "player_of r pid")
  case (Some p)
  let ?r1 = "case ps_sink p of None \<Rightarrow> r | Some old \<Rightarrow> set_player pid (p\<lparr>ps_sink := None\<rparr>) (close old r)"
  have c: "player_of (close k r) pid = Some p" for k using Some by (simp add: quiet_player_of_eq [OF quiet_close])
  have r1: "rel r ?r1"
    using rel_quiet [OF quiet_refl] rel_trans [OF rel_quiet [OF quiet_close] rel_set [OF c]]
    by (simp split: option.split)
  obtain p1 where p1: "player_of ?r1 pid = Some p1" using Some c by (cases "ps_sink p") auto
  obtain free r2 where x: "settleExpired d pid (player_at ?r1 pid) ?r1 = (free, r2)" by fastforce
  have "rel ?r1 r2" using rel_settleExpired [OF p1, of "player_at ?r1 pid"] x by simp
  with r1 have r2: "rel r r2" by (rule rel_trans)
  obtain p2 where p2: "player_of r2 pid = Some p2" using settle_keeps [OF p1, of d "player_at ?r1 pid"] x by auto
  have "rel r (close s (send s m r2))" "rel r (resumeActive d q (send s m (set_player pid q r2)))" for q m
    by (rule rel_trans [OF r2 rel_quiet [OF quiet_trans [OF quiet_send quiet_close]]],
        rule rel_trans [OF rel_trans [OF r2 rel_set [OF p2]] rel_quiet [OF quiet_trans [OF quiet_send quiet_resumeActive]]])
  then show ?thesis using Some x by (simp add: attachPlayer_def Let_def)
qed (simp add: attachPlayer_def rel_quiet)

end

end
