(* ===== verification/StoreInv.thy ===== *)
theory StoreInv
  imports Store
begin

section \<open>What the store keeps\<close>

text \<open>
  \<open>keeps P s\<close> says that a statement keeps a property of the tables; from there the round trips
  (\<open>exec\<close> and the transaction steps) and the operations keep it, whatever faults occur. The
  properties are the keys and checks of the schema (\<open>tables_ok\<close>) and the caps of the game. Then
  come what \<open>SaveResult\<close>, \<open>JoinRoom\<close> and \<open>CreateRoom\<close> do on every branch.
\<close>

subsection \<open>Statements and round trips\<close>

definition keeps :: "(tables \<Rightarrow> bool) \<Rightarrow> (time \<Rightarrow> 'a stmt) \<Rightarrow> bool" where
  "keeps P s \<longleftrightarrow> (\<forall>now t a t'. P t \<longrightarrow> s now t = Inr (a, t') \<longrightarrow> P t')"

lemma keepsI: "(\<And>now t a t'. P t \<Longrightarrow> s now t = Inr (a, t') \<Longrightarrow> P t') \<Longrightarrow> keeps P s"
  by (simp add: keeps_def)

lemma exec_keeps: "keeps P s \<Longrightarrow> P (tabs d) \<Longrightarrow> P (tabs (snd (exec pg s d)))"
  by (auto simp: exec_def keeps_def Let_def split: fault.split sum.split)

lemma exec_keeps': "exec pg s d = (x, d') \<Longrightarrow> keeps P s \<Longrightarrow> P (tabs d) \<Longrightarrow> P (tabs d')"
  using exec_keeps [of P s d pg] by simp

lemma tx_begin_tabs:
  "tx_begin pg d = (x, d') \<Longrightarrow> tabs d' = tabs d" "tx_begin pg d = (Inr t, d') \<Longrightarrow> t = tabs d"
  by (auto simp: tx_begin_def split: if_splits)

lemma tx_exec_tabs: "tx_exec pg s t d = (x, d') \<Longrightarrow> tabs d' = tabs d"
  by (auto simp: tx_exec_def)

lemma tx_exec_ok: "tx_exec pg s t d = (Inr (a, t'), d') \<Longrightarrow> \<exists>now. s now t = Inr (a, t')"
  by (auto simp: tx_exec_def split: if_splits)

lemma tx_exec_err: "tx_exec pg s t d = (Inl e, d') \<Longrightarrow> e \<noteq> Unavailable \<Longrightarrow> \<exists>now. s now t = Inl e"
  by (auto simp: tx_exec_def split: if_splits)

lemma tx_exec_keeps: "tx_exec pg s t d = (Inr (a, t'), d') \<Longrightarrow> keeps P s \<Longrightarrow> P t \<Longrightarrow> P t'"
  using tx_exec_ok [of pg s t d a t' d'] by (auto simp: keeps_def)

lemma tx_commit_tabs:
  "tx_commit pg t d = (True, d') \<Longrightarrow> tabs d' = t"
  "tx_commit pg t d = (False, d') \<Longrightarrow> tabs d' = t \<and> fault pg (trips d) = AckLost \<or> tabs d' = tabs d"
  by (auto simp: tx_commit_def Let_def split: fault.splits)

lemma tx_commit_keeps: "tx_commit pg t d = (x, d') \<Longrightarrow> P t \<Longrightarrow> P (tabs d) \<Longrightarrow> P (tabs d')"
  by (auto simp: tx_commit_def Let_def split: fault.splits)

text \<open>Reasoning along a transaction: one rule per step, for a property of the whole result.\<close>

lemma tx_begin_split:
  assumes "\<And>e d1. tabs d1 = tabs d \<Longrightarrow> trips d1 = Suc (trips d) \<Longrightarrow> P (f e d1)"
    and "\<And>d1. tabs d1 = tabs d \<Longrightarrow> trips d1 = Suc (trips d) \<Longrightarrow> P (g (tabs d) d1)"
  shows "P (case tx_begin pg d of (Inl e, d1) \<Rightarrow> f e d1 | (Inr t, d1) \<Rightarrow> g t d1)"
  using assms by (simp add: tx_begin_def)

lemma tx_exec_split_at:
  assumes "\<And>e d1. tabs d1 = tabs d \<Longrightarrow> trips d1 = Suc (trips d) \<Longrightarrow>
      e = Unavailable \<or> s (server_now pg (trips d)) t = Inl e \<Longrightarrow> P (f e d1)"
    and "\<And>a t' d1. tabs d1 = tabs d \<Longrightarrow> trips d1 = Suc (trips d) \<Longrightarrow>
      s (server_now pg (trips d)) t = Inr (a, t') \<Longrightarrow> P (g (a, t') d1)"
  shows "P (case tx_exec pg s t d of (Inl e, d1) \<Rightarrow> f e d1 | (Inr x, d1) \<Rightarrow> g x d1)"
proof (cases "fault pg (trips d) = NoFault")
  case True
  then show ?thesis
    using assms(1) [of "d\<lparr>trips := Suc (trips d)\<rparr>"] assms(2) [of "d\<lparr>trips := Suc (trips d)\<rparr>"]
    by (auto simp: tx_exec_def split: sum.split)
next
  case False
  then show ?thesis
    using assms(1) [of "d\<lparr>trips := Suc (trips d)\<rparr>" Unavailable] by (simp add: tx_exec_def)
qed

lemma tx_exec_split:
  assumes "\<And>e d1. tabs d1 = tabs d \<Longrightarrow> e = Unavailable \<or> (\<exists>now. s now t = Inl e) \<Longrightarrow> P (f e d1)"
    and "\<And>now a t' d1. tabs d1 = tabs d \<Longrightarrow> s now t = Inr (a, t') \<Longrightarrow> P (g (a, t') d1)"
  shows "P (case tx_exec pg s t d of (Inl e, d1) \<Rightarrow> f e d1 | (Inr x, d1) \<Rightarrow> g x d1)"
  by (rule tx_exec_split_at [where P = P]) (auto intro: assms)

lemma tx_commit_split:
  assumes "\<And>d1. tabs d1 = t \<Longrightarrow> trips d1 = Suc (trips d) \<Longrightarrow> P (g d1)"
    and "\<And>d1. tabs d1 = tabs d \<Longrightarrow> trips d1 = Suc (trips d) \<Longrightarrow> P (f d1)"
    and "\<And>d1. tabs d1 = t \<Longrightarrow> trips d1 = Suc (trips d) \<Longrightarrow> fault pg (trips d) = AckLost \<Longrightarrow> P (f d1)"
  shows "P (case tx_commit pg t d of (True, d1) \<Rightarrow> g d1 | (False, d1) \<Rightarrow> f d1)"
  using assms by (auto simp: tx_commit_def Let_def split: fault.split)

text \<open>Statements that only read.\<close>

definition reads :: "(time \<Rightarrow> 'a stmt) \<Rightarrow> bool" where
  "reads s \<longleftrightarrow> (\<forall>now t a t'. s now t = Inr (a, t') \<longrightarrow> t' = t)"

lemma reads_keeps: "reads s \<Longrightarrow> keeps P s"
  by (auto simp: reads_def keeps_def)

lemma reading_statements [simp]:
  "reads (CountRoomPlayers rid)" "reads (ListRoomPlayers rid)" "reads ListSelectableQuestions"
  "reads (GetQuestionsByIDs ids)" "reads CountActiveRooms" "reads (GetActiveRoomByPIN pin)"
  "reads (GetRoomByID rid)" "reads (LockRoomForJoin rid)" "reads (GetHostByEmail email)"
  "reads (GetSchoolName sid)" "reads (\<lambda>_ t. Inr ((), t))"
  by (auto simp: reads_def CountRoomPlayers_def ListRoomPlayers_def ListSelectableQuestions_def
      GetQuestionsByIDs_def CountActiveRooms_def GetActiveRoomByPIN_def GetRoomByID_def
      LockRoomForJoin_def GetHostByEmail_def GetSchoolName_def split: option.splits)

lemma tx_reads: "tx_exec pg s t d = (Inr (a, t'), d') \<Longrightarrow> reads s \<Longrightarrow> t' = t"
  using tx_exec_ok [of pg s t d a t' d'] by (auto simp: reads_def)

subsection \<open>The statements keep the schema\<close>

lemma tables_ok_players:
  assumes "tables_ok t" "map pr_id ps = map pr_id (tb_players t)"
    and "map (\<lambda>p. (pr_roomID p, pr_nickname p)) ps = map (\<lambda>p. (pr_roomID p, pr_nickname p)) (tb_players t)"
    and "\<And>p. p \<in> set ps \<Longrightarrow> player_row_ok p"
  shows "tables_ok (t\<lparr>tb_players := ps\<rparr>)"
proof -
  have "pr_roomID ` set ps = pr_roomID ` set (tb_players t)"
  proof -
    have "map fst (map (\<lambda>p. (pr_roomID p, pr_nickname p)) ps) =
      map fst (map (\<lambda>p. (pr_roomID p, pr_nickname p)) (tb_players t))" using assms(3) by simp
    then have "map pr_roomID ps = map pr_roomID (tb_players t)" by (simp add: o_def)
    then show ?thesis by (metis list.set_map)
  qed
  moreover have "pr_id ` set ps = pr_id ` set (tb_players t)" using assms(2) by (metis list.set_map)
  moreover have "pr_roomID ` set (tb_players t) \<subseteq> rr_id ` set (tb_rooms t)"
    using assms(1) by (auto simp: tables_ok_def)
  ultimately have "pr_roomID p \<in> rr_id ` set (tb_rooms t)" if "p \<in> set ps" for p
    using that by blast
  then show ?thesis using assms \<open>pr_id ` set ps = _\<close> by (auto simp: tables_ok_def)
qed

lemma keeps_InsertAnswer: "keeps tables_ok (InsertAnswer a)"
  by (rule keepsI) (force simp: InsertAnswer_def tables_ok_def split: if_splits)

lemma keeps_UpdatePlayerProgress:
  "keeps tables_ok (UpdatePlayerProgress pid score correct totalMs currentIndex streak finished)"
proof (rule keepsI)
  fix now t a t'
  assume ok: "tables_ok t"
    and s: "UpdatePlayerProgress pid score correct totalMs currentIndex streak finished now t = Inr (a, t')"
  let ?f = "\<lambda>p. if pr_id p = pid
    then p\<lparr>pr_score := score, pr_correctCount := correct, pr_totalMs := totalMs,
           pr_currentIndex := currentIndex, pr_streak := streak,
           pr_finishedAt := (if finished then (case pr_finishedAt p of None \<Rightarrow> Some now | x \<Rightarrow> x)
                             else pr_finishedAt p)\<rparr> else p"
  have t': "t' = t\<lparr>tb_players := map ?f (tb_players t)\<rparr>"
    and g: "\<forall>p \<in> set (tb_players t). pr_id p = pid \<longrightarrow> progress_ok totalMs currentIndex streak"
    using s by (auto simp: UpdatePlayerProgress_def split: if_splits)
  show "tables_ok t'"
    unfolding t'
  proof (rule tables_ok_players [OF ok])
    show "player_row_ok p" if "p \<in> set (map ?f (tb_players t))" for p
      using that ok g by (auto simp: tables_ok_def player_row_ok_def)
  qed (simp_all add: o_def cong: if_cong)
qed

lemma keeps_InsertPlayer: "keeps tables_ok (InsertPlayer fresh i)"
  by (rule keepsI)
     (auto simp: InsertPlayer_def tables_ok_def player_row_ok_def progress_ok_def image_iff split: if_splits)

lemma distinct_map_filter: "distinct (map f xs) \<Longrightarrow> distinct (map f (filter P xs))"
  by (induction xs) auto

lemma keeps_DeletePlayerRow: "keeps tables_ok (DeletePlayerRow pid)"
  by (rule keepsI) (auto simp: DeletePlayerRow_def tables_ok_def image_iff intro: distinct_map_filter, metis)

lemma keeps_InsertRoom: "keeps tables_ok (InsertRoom fresh i)"
  by (rule keepsI) (auto simp: InsertRoom_def tables_ok_def split: if_splits)

lemma tables_ok_rooms:
  assumes "tables_ok t" "\<And>r. rr_id (f r) = rr_id r" "\<And>r. rr_pin (f r) = rr_pin r"
  shows "tables_ok (t\<lparr>tb_rooms := map f (tb_rooms t)\<rparr>)"
  using assms by (simp add: tables_ok_def o_def image_image)

lemma keeps_MarkRoomStartedRow: "keeps tables_ok (MarkRoomStartedRow rid)"
  by (rule keepsI) (auto simp: MarkRoomStartedRow_def Let_def intro!: tables_ok_rooms)

lemma keeps_MarkRoomEndedRow: "keeps tables_ok (MarkRoomEndedRow rid)"
  by (rule keepsI) (auto simp: MarkRoomEndedRow_def intro!: tables_ok_rooms)

lemma tables_ok_hosts: "tables_ok (t\<lparr>tb_hosts := hs\<rparr>) = tables_ok t"
  by (simp add: tables_ok_def)

lemma keeps_host_statements:
  "keeps tables_ok (TouchHostLoginRow hid)" "keeps tables_ok (UpsertHost fresh email hash name)"
  by (rule keepsI; auto simp: TouchHostLoginRow_def UpsertHost_def tables_ok_hosts split: if_splits)+

subsection \<open>SaveResult: all or nothing\<close>

text \<open>The tables after both statements of the transaction.\<close>

definition saves :: "uid \<Rightarrow> result \<Rightarrow> tables \<Rightarrow> tables \<Rightarrow> bool" where
  "saves pid r t t' \<longleftrightarrow> (\<exists>now1 now2 n t2. InsertAnswer (answerParams pid r) now1 t = Inr (n, t2) \<and>
     n \<noteq> 0 \<and> updateParams pid r now2 t2 = Inr ((), t'))"

definition answered_in :: "tables \<Rightarrow> uid \<Rightarrow> string \<Rightarrow> bool" where
  "answered_in t pid q \<longleftrightarrow> (\<exists>a \<in> set (tb_answers t). ar_playerID a = pid \<and> ar_questionID a = q)"

lemma InsertAnswer_zero:
  "InsertAnswer a now t = Inr (0, t') \<Longrightarrow> answered_in t (ar_playerID a) (ar_questionID a)"
  by (auto simp: InsertAnswer_def answered_in_def split: if_splits)

lemma InsertAnswer_nonzero:
  assumes "InsertAnswer a now t = Inr (n, t')" "n \<noteq> 0"
  shows "t' = t\<lparr>tb_answers := tb_answers t @ [a]\<rparr>" "\<not> answered_in t (ar_playerID a) (ar_questionID a)"
    "\<exists>p \<in> set (tb_players t). pr_id p = ar_playerID a"
  using assms by (auto simp: InsertAnswer_def answered_in_def split: if_splits)

text \<open>
  What a call of \<open>SaveResult\<close> can do: succeed, fail and leave the tables alone, or lose the
  acknowledgement of the commit.
\<close>

definition save_outcome :: "pg \<Rightarrow> uid \<Rightarrow> result \<Rightarrow> db \<Rightarrow> store_error option \<times> db \<Rightarrow> bool" where
  "save_outcome pg pid r d x \<longleftrightarrow>
     fst x = None \<and> saves pid r (tabs d) (tabs (snd x)) \<or>
     fst x \<noteq> None \<and> tabs (snd x) = tabs d \<and>
       (fst x = Some DuplicateAnswer \<longrightarrow> answered_in (tabs d) pid (rs_questionID r)) \<or>
     fst x = Some (DbFailure ''commit save result'') \<and> saves pid r (tabs d) (tabs (snd x)) \<and>
       (\<exists>n. fault pg n = AckLost)"

lemma SaveResult_effect:
  assumes u: "uuid_parse pg (rs_playerID r) = Some pid"
  shows "save_outcome pg pid r d (SaveResult pg r d)"
proof -
  let ?P = "save_outcome pg pid r d"
  have no: "?P (Some e, d')" if "tabs d' = tabs d"
    "e = DuplicateAnswer \<Longrightarrow> answered_in (tabs d) pid (rs_questionID r)" for e and d' :: db
    using that by (simp add: save_outcome_def)
  show ?thesis
    unfolding SaveResult_def u option.case
  proof (rule tx_begin_split [where P = ?P], rule no, simp, simp,
      rule tx_exec_split [where P = ?P], rule no, simp, simp)
    fix d1 d2 :: db and now1 n t2
    assume d1: "tabs d1 = tabs d" "tabs d2 = tabs d1"
      and ins: "InsertAnswer (answerParams pid r) now1 (tabs d) = Inr (n, t2)"
    have dup: "n = 0 \<Longrightarrow> answered_in (tabs d) pid (rs_questionID r)"
      using ins InsertAnswer_zero [of "answerParams pid r" now1 "tabs d" t2] by (simp add: answerParams_def)
    have "?P (case tx_exec pg (updateParams pid r) t2 d2 of
        (Inl _, d3) \<Rightarrow> (Some (DbFailure ''update player progress''), d3)
      | (Inr (_, t3), d3) \<Rightarrow> (case tx_commit pg t3 d3 of (True, d4) \<Rightarrow> (None, d4)
          | (False, d4) \<Rightarrow> (Some (DbFailure ''commit save result''), d4)))" if "n \<noteq> 0"
    proof (rule tx_exec_split [where P = ?P], rule no, simp add: d1, simp)
      fix d3 :: db and now2 u t3
      assume d3: "tabs d3 = tabs d2" and upd: "updateParams pid r now2 t2 = Inr (u, t3)"
      have sv: "saves pid r (tabs d) t3" using ins upd that by (auto simp: saves_def)
      show "?P (case (u, t3) of (_, t3) \<Rightarrow> case tx_commit pg t3 d3 of (True, d4) \<Rightarrow> (None, d4)
          | (False, d4) \<Rightarrow> (Some (DbFailure ''commit save result''), d4))"
        unfolding prod.case
        by (rule tx_commit_split [where P = ?P])
           (use sv d1 d3 in \<open>auto simp: save_outcome_def\<close>)
    qed
    then show "?P (case (n, t2) of (inserted, t2) \<Rightarrow>
       if inserted = 0 then (Some DuplicateAnswer, d2) else
         case tx_exec pg (updateParams pid r) t2 d2 of
           (Inl _, d3) \<Rightarrow> (Some (DbFailure ''update player progress''), d3)
         | (Inr (_, t3), d3) \<Rightarrow> (case tx_commit pg t3 d3 of
             (False, d4) \<Rightarrow> (Some (DbFailure ''commit save result''), d4) | (True, d4) \<Rightarrow> (None, d4)))"
      using no [OF _ dup] d1 by auto
  qed
qed

subsection \<open>JoinRoom\<close>

definition count_players :: "uid \<Rightarrow> tables \<Rightarrow> nat" where
  "count_players rid t = length (filter (\<lambda>p. pr_roomID p = rid) (tb_players t))"

definition room_open :: "uid \<Rightarrow> tables \<Rightarrow> bool" where
  "room_open rid t \<longleftrightarrow> (\<exists>r \<in> set (tb_rooms t). rr_id r = rid \<and> rr_status r \<noteq> Ended)"

definition nickname_used :: "uid \<Rightarrow> string \<Rightarrow> tables \<Rightarrow> bool" where
  "nickname_used rid nick t \<longleftrightarrow> (\<exists>p \<in> set (tb_players t). pr_roomID p = rid \<and> pr_nickname p = nick)"

definition join_params :: "uid \<Rightarrow> new_player \<Rightarrow> insert_player" where
  "join_params rid i = \<lparr>ip_roomID = rid, ip_nickname = np_nickname i,
     ip_schoolID = map_option toInt32 (np_schoolID i), ip_jenjang = np_jenjang i,
     ip_avatar = toInt16 (np_avatar i), ip_lang = np_lang i\<rparr>"

definition joined_player :: "new_player \<Rightarrow> uid \<Rightarrow> string \<Rightarrow> player" where
  "joined_player i pid school =
     \<lparr>pl_id = pid, pl_nickname = np_nickname i, pl_school = school, pl_lang = np_lang i,
      pl_avatar = np_avatar i, pl_score = 0, pl_correctCount = 0, pl_totalMs = 0,
      pl_currentIndex = 0, pl_streak = 0, pl_finished = False\<rparr>"

text \<open>The new tables of a join that went through, and the id the new player got.\<close>

definition joins :: "uid \<Rightarrow> new_player \<Rightarrow> tables \<Rightarrow> uid \<Rightarrow> tables \<Rightarrow> bool" where
  "joins rid i t pid t' \<longleftrightarrow> room_open rid t \<and> count_players rid t < MaxPlayersInRoom \<and>
     (\<exists>now. InsertPlayer pid (join_params rid i) now t = Inr (pid, t'))"

definition join_outcome :: "pg \<Rightarrow> uid \<Rightarrow> new_player \<Rightarrow> db \<Rightarrow> (store_error + player) \<times> db \<Rightarrow> bool" where
  "join_outcome pg rid i d x \<longleftrightarrow>
     (case fst x of
        Inr p \<Rightarrow> \<exists>pid school. p = joined_player i pid school \<and> joins rid i (tabs d) pid (tabs (snd x))
      | Inl e \<Rightarrow>
          tabs (snd x) = tabs d \<and>
            (e = RoomFull \<longrightarrow> count_players rid (tabs d) \<ge> MaxPlayersInRoom) \<and>
            (e = NotFound \<longrightarrow> \<not> room_open rid (tabs d)) \<and>
            (e = InvalidSchool \<longrightarrow> np_schoolID i \<noteq> None) \<or>
          e = DbFailure ''commit join'' \<and> (\<exists>n. fault pg n = AckLost) \<and>
            (\<exists>pid. joins rid i (tabs d) pid (tabs (snd x))))"

lemma LockRoomForJoin_cases:
  "LockRoomForJoin rid now t = Inr (a, t') \<Longrightarrow> room_open rid t"
  "LockRoomForJoin rid now t = Inl e \<Longrightarrow> \<not> room_open rid t"
  by (auto simp: LockRoomForJoin_def room_open_def find_None_iff find_Some_iff split: option.splits)

lemma InsertPlayer_id: "InsertPlayer fresh i now t = Inr (pid, t') \<Longrightarrow> pid = fresh"
  by (auto simp: InsertPlayer_def split: if_splits)

text \<open>The tail of \<open>insertPlayer\<close>, after the school was looked up.\<close>

lemma insert_and_commit:
  fixes d2 :: db
  assumes d2: "tabs d2 = tabs d" and op: "room_open rid (tabs d)"
    and cap: "count_players rid (tabs d) < MaxPlayersInRoom"
  shows "join_outcome pg rid i d
    (case tx_exec pg (InsertPlayer fresh (join_params rid i)) (tabs d) d2 of
        (Inl UniqueViolation, d3) \<Rightarrow> (Inl NicknameTaken, d3)
      | (Inl _, d3) \<Rightarrow> (Inl (DbFailure ''insert player''), d3)
      | (Inr (pid, t2), d3) \<Rightarrow>
          (case tx_commit pg t2 d3 of
             (False, d4) \<Rightarrow> (Inl (DbFailure ''commit join''), d4)
           | (True, d4) \<Rightarrow> (Inr (joined_player i pid school), d4)))"
proof (cases "tx_exec pg (InsertPlayer fresh (join_params rid i)) (tabs d) d2")
  case (Pair y d3)
  let ?P = "join_outcome pg rid i d"
  have d3: "tabs d3 = tabs d" using tx_exec_tabs [OF Pair] d2 by simp
  show ?thesis
  proof (cases y)
    case (Inl e)
    then show ?thesis using Pair d3 by (auto simp: join_outcome_def split: db_error.split)
  next
    case (Inr z)
    obtain pid t2 where z: "z = (pid, t2)" by fastforce
    obtain now where n: "InsertPlayer fresh (join_params rid i) now (tabs d) = Inr (pid, t2)"
      using tx_exec_ok [OF Pair [unfolded Inr z]] by blast
    then have "joins rid i (tabs d) pid t2"
      using op cap InsertPlayer_id [OF n] by (auto simp: joins_def)
    then have "?P (case tx_commit pg t2 d3 of
        (True, d4) \<Rightarrow> (Inr (joined_player i pid school), d4)
      | (False, d4) \<Rightarrow> (Inl (DbFailure ''commit join''), d4))"
      using d3 by (intro tx_commit_split [where P = ?P]) (auto simp: join_outcome_def)
    then show ?thesis using Pair Inr z by simp
  qed
qed

lemma insertPlayer_outcome:
  fixes d1 :: db
  assumes t: "tabs d1 = tabs d" and op: "room_open rid (tabs d)"
    and cap: "count_players rid (tabs d) < MaxPlayersInRoom"
  shows "join_outcome pg rid i d (insertPlayer pg (tabs d) rid i d1)"
proof -
  let ?P = "join_outcome pg rid i d"
  note params = join_params_def [of rid i, symmetric]
  note tail = insert_and_commit [OF _ op cap, unfolded joined_player_def]
  show ?thesis
  proof (cases "np_schoolID i")
    case None
    then show ?thesis using tail [OF t, where pg = pg and fresh = "gen_uuid pg (trips d1)" and i = i and school = "''''"]
      unfolding insertPlayer_def None option.case prod.case sum.case option.map
      by (simp add: join_params_def None)
  next
    case (Some sid)
    show ?thesis
    proof (cases "tx_exec pg (GetSchoolName (toInt32 sid)) (tabs d) d1")
      case (Pair y d2)
      have d2: "tabs d2 = tabs d" using tx_exec_tabs [OF Pair] t by simp
      show ?thesis
      proof (cases y)
        case (Inl e)
        then show ?thesis using Pair Some d2 by (simp add: insertPlayer_def join_outcome_def)
      next
        case (Inr z)
        obtain a t1 where z: "z = (a, t1)" by fastforce
        have "t1 = tabs d" using tx_reads [OF Pair [unfolded Inr z]] by simp
        then show ?thesis using tail [OF d2, where pg = pg and fresh = "gen_uuid pg (trips d2)" and i = i and school = a] Pair Some Inr z
          by (simp add: insertPlayer_def join_params_def)
      qed
    qed
  qed
qed

lemma JoinRoom_outcome:
  assumes u: "uuid_parse pg (np_roomID i) = Some rid"
  shows "join_outcome pg rid i d (JoinRoom pg i d)"
proof -
  let ?P = "join_outcome pg rid i d"
  have no: "?P (Inl e, d')" if "tabs d' = tabs d"
    "e = RoomFull \<Longrightarrow> count_players rid (tabs d) \<ge> MaxPlayersInRoom"
    "e = NotFound \<Longrightarrow> \<not> room_open rid (tabs d)" "e \<noteq> InvalidSchool" for e and d' :: db
    using that by (simp add: join_outcome_def)
  show ?thesis
    unfolding JoinRoom_def u option.case
  proof (rule tx_begin_split [where P = ?P], rule no, simp_all,
      rule tx_exec_split [where P = ?P], rule no, simp_all add: notFoundOr_def split: if_splits)
    assume "\<exists>now. LockRoomForJoin rid now (tabs d) = Inl NoRows"
    then show "\<not> room_open rid (tabs d)" using LockRoomForJoin_cases(2) by blast
  next
    fix d1 d2 :: db and now a t2
    assume d: "tabs d1 = tabs d" "tabs d2 = tabs d" and l: "LockRoomForJoin rid now (tabs d) = Inr (a, t2)"
    have op: "room_open rid (tabs d)" by (rule LockRoomForJoin_cases(1) [OF l])
    have "t2 = tabs d" using l by (auto simp: LockRoomForJoin_def split: option.splits)
    then show "?P (case tx_exec pg (CountRoomPlayers rid) t2 d2 of
        (Inl _, d3) \<Rightarrow> (Inl (DbFailure ''count players''), d3)
      | (Inr (n, t3), d3) \<Rightarrow> if MaxPlayersInRoom \<le> n then (Inl RoomFull, d3)
          else insertPlayer pg t3 rid i d3)"
      using d op insertPlayer_outcome [of _ d rid pg i]
      by - (rule tx_exec_split [where P = ?P], rule no,
         auto simp: CountRoomPlayers_def count_players_def [symmetric] intro: no)
  qed
qed

subsection \<open>CreateRoom\<close>

definition active_rooms :: "time \<Rightarrow> tables \<Rightarrow> nat" where
  "active_rooms now t =
     length (filter (\<lambda>r. rr_status r \<noteq> Ended \<and> rr_createdAt r > now - two_hours) (tb_rooms t))"

definition create_params :: "uid \<Rightarrow> string \<Rightarrow> new_room \<Rightarrow> insert_room" where
  "create_params hostID pin i = \<lparr>ir_pin = pin, ir_hostID = hostID, ir_jenjang = nr_jenjang i,
     ir_shortSession = nr_shortSession i, ir_accuracyMode = nr_accuracyMode i,
     ir_questionIDs = nr_questionIDs i\<rparr>"

definition created_room :: "uid \<Rightarrow> uid \<Rightarrow> string \<Rightarrow> new_room \<Rightarrow> room_data" where
  "created_room rid hostID pin i = \<lparr>rd_id = rid, rd_pin = pin, rd_hostID = hostID,
     rd_jenjang = nr_jenjang i, rd_shortSession = nr_shortSession i,
     rd_accuracyMode = nr_accuracyMode i, rd_status = Lobby, rd_questionIDs = nr_questionIDs i,
     rd_startedAt = None\<rparr>"

text \<open>
  A creation that went through: at some round trip since \<open>k\<close> fewer than five rooms were active,
  and the room was inserted.
\<close>

definition creates :: "pg \<Rightarrow> nat \<Rightarrow> nat \<Rightarrow> uid \<Rightarrow> string \<Rightarrow> new_room \<Rightarrow> tables \<Rightarrow> uid \<Rightarrow> tables \<Rightarrow> bool" where
  "creates pg k k' hostID pin i t rid t' \<longleftrightarrow>
     (\<exists>m now. k \<le> m \<and> m \<le> k' \<and> active_rooms (server_now pg m) t < MaxActiveRooms \<and>
        InsertRoom rid (create_params hostID pin i) now t = Inr (rid, t'))"

definition insert_room_outcome :: "pg \<Rightarrow> nat \<Rightarrow> uid \<Rightarrow> string \<Rightarrow> new_room \<Rightarrow> tables \<Rightarrow>
    (insert_error + room_data) \<times> db \<Rightarrow> bool" where
  "insert_room_outcome pg k hostID pin i t x \<longleftrightarrow> k \<le> trips (snd x) \<and>
     (case fst x of
        Inr room \<Rightarrow> \<exists>rid. room = created_room rid hostID pin i \<and>
          creates pg k (trips (snd x)) hostID pin i t rid (tabs (snd x))
      | Inl e \<Rightarrow> tabs (snd x) = t \<and>
            (e = Plain MaxRooms \<longrightarrow> (\<exists>m. active_rooms (server_now pg m) t \<ge> MaxActiveRooms)) \<or>
          e = Plain (DbFailure ''commit create room'') \<and> (\<exists>n. fault pg n = AckLost) \<and>
            (\<exists>rid. creates pg k (trips (snd x)) hostID pin i t rid (tabs (snd x))))"

lemma tx_trips:
  "tx_exec pg s t d = (x, d') \<Longrightarrow> trips d' = Suc (trips d)"
  "tx_commit pg t d = (b, d') \<Longrightarrow> trips d' = Suc (trips d)"
  by (auto simp: tx_exec_def tx_commit_def Let_def split: fault.splits)

lemma InsertRoom_id: "InsertRoom fresh i now t = Inr (rid, t') \<Longrightarrow> rid = fresh"
  by (auto simp: InsertRoom_def split: if_splits)

text \<open>The last two round trips of \<open>insertRoom\<close>.\<close>

definition insert_room_and_commit :: "pg \<Rightarrow> uid \<Rightarrow> string \<Rightarrow> new_room \<Rightarrow> tables \<Rightarrow> db \<Rightarrow>
    (insert_error + room_data) \<times> db" where
  "insert_room_and_commit pg hostID pin i t d =
     (case tx_exec pg (InsertRoom (gen_uuid pg (trips d)) (create_params hostID pin i)) t d of
        (Inl e, d4) \<Rightarrow> (Inl (Driver e), d4)
      | (Inr (rid, t4), d4) \<Rightarrow>
          (case tx_commit pg t4 d4 of
             (False, d5) \<Rightarrow> (Inl (Plain (DbFailure ''commit create room'')), d5)
           | (True, d5) \<Rightarrow> (Inr (created_room rid hostID pin i), d5)))"

lemma insert_room_and_commit_outcome:
  assumes t: "tabs d3 = t" and m: "k \<le> m" "m \<le> trips d3"
    and cap: "active_rooms (server_now pg m) t < MaxActiveRooms"
  shows "insert_room_outcome pg k hostID pin i t (insert_room_and_commit pg hostID pin i t d3)"
proof (cases "tx_exec pg (InsertRoom (gen_uuid pg (trips d3)) (create_params hostID pin i)) t d3")
  case (Pair y d4)
  have d4: "tabs d4 = t" "trips d4 = Suc (trips d3)" using tx_exec_tabs [OF Pair] tx_trips(1) [OF Pair] t by simp_all
  show ?thesis
  proof (cases y)
    case (Inl e)
    then show ?thesis using Pair d4 m by (simp add: insert_room_and_commit_def insert_room_outcome_def)
  next
    case (Inr z)
    obtain rid t4 where z: "z = (rid, t4)" by fastforce
    obtain now where n: "InsertRoom (gen_uuid pg (trips d3)) (create_params hostID pin i) now t = Inr (rid, t4)"
      using tx_exec_ok [OF Pair [unfolded Inr z]] by blast
    obtain ok d5 where c: "tx_commit pg t4 d4 = (ok, d5)" by fastforce
    have d5: "trips d5 = Suc (trips d4)" by (rule tx_trips(2) [OF c])
    have "creates pg k (trips d5) hostID pin i t rid t4"
      unfolding creates_def using n InsertRoom_id [OF n] m d4 d5 cap
      by (intro exI [of _ m] exI [of _ now]) simp
    then show ?thesis
      using Pair Inr z c d4 d5 m tx_commit_tabs [of pg t4 d4 d5]
      by (cases ok) (auto simp: insert_room_and_commit_def insert_room_outcome_def)
  qed
qed

lemma insertRoom_steps:
  "insertRoom pg hostID pin i d =
     (case tx_begin pg d of
        (Inl _, d1) \<Rightarrow> (Inl (Plain (DbFailure ''begin create room'')), d1)
      | (Inr t, d1) \<Rightarrow>
     (case tx_exec pg (\<lambda>_ t. Inr ((), t)) t d1 of
        (Inl _, d2) \<Rightarrow> (Inl (Plain (DbFailure ''lock room creation'')), d2)
      | (Inr (_, t2), d2) \<Rightarrow>
     (case tx_exec pg CountActiveRooms t2 d2 of
        (Inl _, d3) \<Rightarrow> (Inl (Plain (DbFailure ''count active rooms'')), d3)
      | (Inr (active, t3), d3) \<Rightarrow>
          if active \<ge> MaxActiveRooms then (Inl (Plain MaxRooms), d3)
          else insert_room_and_commit pg hostID pin i t3 d3)))"
  unfolding insertRoom_def insert_room_and_commit_def create_params_def created_room_def ..

lemma insertRoom_outcome:
  "insert_room_outcome pg (trips d) hostID pin i (tabs d) (insertRoom pg hostID pin i d)"
proof -
  let ?P = "insert_room_outcome pg (trips d) hostID pin i (tabs d)"
  have no: "?P (Inl (Plain e), d')" if "tabs d' = tabs d" "trips d \<le> trips d'" "e \<noteq> MaxRooms" for e and d' :: db
    using that by (simp add: insert_room_outcome_def)
  have full: "?P (Inl (Plain MaxRooms), d')" if "tabs d' = tabs d" "trips d \<le> trips d'"
    "MaxActiveRooms \<le> active_rooms (server_now pg m) (tabs d)" for m and d' :: db
    using that by (auto simp: insert_room_outcome_def)
  have counted: "?P (case tx_exec pg CountActiveRooms (tabs d) d2 of
        (Inl _, d3) \<Rightarrow> (Inl (Plain (DbFailure ''count active rooms'')), d3)
      | (Inr (active, t3), d3) \<Rightarrow>
          if active \<ge> MaxActiveRooms then (Inl (Plain MaxRooms), d3)
          else insert_room_and_commit pg hostID pin i t3 d3)"
    if "tabs d2 = tabs d" "trips d \<le> trips d2" for d2 :: db
  proof (rule tx_exec_split_at [where P = ?P], rule no, simp_all add: that le_SucI)
    fix active t3 and d3 :: db
    assume d3: "tabs d3 = tabs d" "trips d3 = Suc (trips d2)"
      and c: "CountActiveRooms (server_now pg (trips d2)) (tabs d) = Inr (active, t3)"
    have "active = active_rooms (server_now pg (trips d2)) (tabs d)" "t3 = tabs d"
      using c by (auto simp: CountActiveRooms_def active_rooms_def)
    then show "(MaxActiveRooms \<le> active \<longrightarrow> ?P (Inl (Plain MaxRooms), d3)) \<and>
        (\<not> MaxActiveRooms \<le> active \<longrightarrow> ?P (insert_room_and_commit pg hostID pin i t3 d3))"
      using full [of d3 "trips d2"] d3 \<open>tabs d2 = tabs d\<close> \<open>trips d \<le> trips d2\<close>
        insert_room_and_commit_outcome [of d3 "tabs d" "trips d" "trips d2" pg hostID pin i] by simp
  qed
  obtain b d1 where b: "tx_begin pg d = (b, d1)" by fastforce
  have d1: "tabs d1 = tabs d" "trips d1 = Suc (trips d)" and b': "b = Inr (tabs d) \<or> (\<exists>e. b = Inl e)"
    using b by (auto simp: tx_begin_def split: if_splits)
  have "?P (case tx_exec pg (\<lambda>_ t. Inr ((), t)) (tabs d) d1 of
        (Inl _, d2) \<Rightarrow> (Inl (Plain (DbFailure ''lock room creation'')), d2)
      | (Inr (_, t2), d2) \<Rightarrow>
     (case tx_exec pg CountActiveRooms t2 d2 of
        (Inl _, d3) \<Rightarrow> (Inl (Plain (DbFailure ''count active rooms'')), d3)
      | (Inr (active, t3), d3) \<Rightarrow>
          if active \<ge> MaxActiveRooms then (Inl (Plain MaxRooms), d3)
          else insert_room_and_commit pg hostID pin i t3 d3))"
    using d1 counted by (intro tx_exec_split_at [where P = ?P]) (auto intro: no)
  then show ?thesis using b b' d1 no by (auto simp: insertRoom_steps)
qed

text \<open>A PIN is six digits.\<close>

definition pin_ok :: "string \<Rightarrow> bool" where
  "pin_ok pin \<longleftrightarrow> length pin = 6 \<and> (\<forall>c \<in> set pin. 48 \<le> (of_char c :: nat) \<and> (of_char c :: nat) \<le> 57)"

lemma format_pin_ok: "pin_ok (format_pin n)"
proof -
  have "48 \<le> (of_char (digit m) :: nat) \<and> (of_char (digit m) :: nat) \<le> 57" for m
  proof -
    have "(48 + m mod 10) mod 256 = 48 + m mod 10" by (rule mod_less) simp
    then show ?thesis by (simp add: digit_def)
  qed
  then show ?thesis by (auto simp: pin_ok_def format_pin_def)
qed

lemma randomPIN_ok: "randomPIN draw = Some pin \<Longrightarrow> pin_ok pin"
  by (auto simp: randomPIN_def format_pin_ok)

definition create_outcome :: "pg \<Rightarrow> nat \<Rightarrow> uid \<Rightarrow> new_room \<Rightarrow> tables \<Rightarrow>
    (store_error + room_data) \<times> db \<Rightarrow> bool" where
  "create_outcome pg k hostID i t x \<longleftrightarrow> k \<le> trips (snd x) \<and>
     (case fst x of
        Inr room \<Rightarrow> \<exists>rid pin. room = created_room rid hostID pin i \<and> pin_ok pin \<and>
          creates pg k (trips (snd x)) hostID pin i t rid (tabs (snd x))
      | Inl e \<Rightarrow> tabs (snd x) = t \<and>
            (e = MaxRooms \<longrightarrow> (\<exists>m. active_rooms (server_now pg m) t \<ge> MaxActiveRooms)) \<or>
          (\<exists>n. fault pg n = AckLost) \<and>
            (\<exists>rid pin. pin_ok pin \<and> creates pg k (trips (snd x)) hostID pin i t rid (tabs (snd x))))"

lemma create_outcome_later:
  "create_outcome pg k' hostID i t x \<Longrightarrow> k \<le> k' \<Longrightarrow> create_outcome pg k hostID i t x"
proof -
  assume k: "k \<le> k'"
  have "creates pg k' n hostID pin i t rid t' \<Longrightarrow> creates pg k n hostID pin i t rid t'" for n pin rid t'
    using k by (auto simp: creates_def intro: order_trans)
  then show "create_outcome pg k' hostID i t x \<Longrightarrow> create_outcome pg k hostID i t x"
    using k unfolding create_outcome_def by (auto split: sum.splits) blast+
qed

lemma create_attempts_outcome:
  "create_outcome pg (trips d) hostID i (tabs d) (create_attempts pg hostID i draws d)"
proof (induction draws arbitrary: d)
  case Nil
  then show ?case by (simp add: create_outcome_def)
next
  case (Cons draw draws)
  show ?case
  proof (cases "randomPIN draw")
    case None
    then show ?thesis by (simp add: create_outcome_def)
  next
    case (Some pin)
    have pin: "pin_ok pin" by (rule randomPIN_ok [OF Some])
    obtain y d' where y: "insertRoom pg hostID pin i d = (y, d')" by fastforce
    have o: "insert_room_outcome pg (trips d) hostID pin i (tabs d) (y, d')"
      using insertRoom_outcome [of pg d hostID pin i] y by simp
    show ?thesis
    proof (cases "y = Inl (Driver UniqueViolation)")
      case True
      then have "tabs d' = tabs d" "trips d \<le> trips d'" using o by (auto simp: insert_room_outcome_def)
      then show ?thesis
        using create_outcome_later [OF Cons [of d'], of "trips d"] Some y True by simp
    next
      case False
      then show ?thesis
        using o Some y pin
        by (auto simp: insert_room_outcome_def create_outcome_def
            split: sum.splits insert_error.splits db_error.splits)
    qed
  qed
qed

lemma CreateRoom_outcome:
  "uuid_parse pg (nr_hostID i) = Some hostID \<Longrightarrow>
   create_outcome pg (trips d) hostID i (tabs d) (CreateRoom pg random i d)"
  by (simp add: CreateRoom_def create_attempts_outcome)

subsection \<open>Every operation keeps the schema and the caps\<close>

definition room_caps :: "tables \<Rightarrow> bool" where
  "room_caps t \<longleftrightarrow> (\<forall>rid. count_players rid t \<le> MaxPlayersInRoom)"

definition db_ok :: "pg \<Rightarrow> db \<Rightarrow> bool" where
  "db_ok pg d \<longleftrightarrow> tables_ok (tabs d) \<and> room_caps (tabs d) \<and>
     (\<forall>now \<ge> server_now pg (trips d). active_rooms now (tabs d) \<le> MaxActiveRooms)"

text \<open>
  \<open>milder t t'\<close>: the step from \<open>t\<close> to \<open>t'\<close> adds no player and no room and reopens none.
\<close>

definition milder :: "tables \<Rightarrow> tables \<Rightarrow> bool" where
  "milder t t' \<longleftrightarrow> (tables_ok t \<longrightarrow> tables_ok t') \<and>
     (\<forall>rid. count_players rid t' \<le> count_players rid t) \<and>
     (\<forall>now. active_rooms now t' \<le> active_rooms now t)"

lemma milder_refl [simp]: "milder t t"
  by (simp add: milder_def)

lemma db_ok_milder:
  assumes "db_ok pg d" "milder (tabs d) (tabs d')" "trips d \<le> trips d'" "mono (server_now pg)"
  shows "db_ok pg d'"
proof -
  have "server_now pg (trips d) \<le> server_now pg (trips d')" using assms by (simp add: monoD)
  then show ?thesis
    using assms(1,2) unfolding db_ok_def room_caps_def milder_def by (meson order_trans)
qed

definition mild :: "(time \<Rightarrow> 'a stmt) \<Rightarrow> bool" where
  "mild s \<longleftrightarrow> (\<forall>now t a t'. s now t = Inr (a, t') \<longrightarrow> milder t t')"

lemma mild_reads: "reads s \<Longrightarrow> mild s"
  unfolding reads_def mild_def by (metis milder_refl)

lemma mildI:
  assumes "keeps tables_ok s"
    and "\<And>now t a t' rid. s now t = Inr (a, t') \<Longrightarrow> count_players rid t' \<le> count_players rid t"
    and "\<And>now t a t' m. s now t = Inr (a, t') \<Longrightarrow> active_rooms m t' \<le> active_rooms m t"
  shows "mild s"
  using assms by (auto simp: mild_def milder_def keeps_def)

lemma exec_mild: "mild s \<Longrightarrow> milder (tabs d) (tabs (snd (exec pg s d))) \<and> trips d \<le> trips (snd (exec pg s d))"
  by (auto simp: exec_def mild_def Let_def split: fault.split sum.split)

lemma length_filter_map_le:
  "(\<And>x. P (f x) \<Longrightarrow> P x) \<Longrightarrow> length (filter (P \<circ> f) xs) \<le> length (filter P xs)"
  by (induction xs) auto

lemma length_filter_filter_le: "length (filter P (filter Q xs)) \<le> length (filter P xs)"
  by (induction xs) auto

lemma mild_updateParams: "mild (updateParams pid r)"
  unfolding updateParams_def
  by (rule mildI [OF keeps_UpdatePlayerProgress])
     (auto simp: UpdatePlayerProgress_def count_players_def active_rooms_def split: if_splits
       intro!: length_filter_map_le)

lemma mild_InsertAnswer: "mild (InsertAnswer a)"
  by (rule mildI [OF keeps_InsertAnswer])
     (auto simp: InsertAnswer_def count_players_def active_rooms_def split: if_splits)

lemma mild_DeletePlayerRow: "mild (DeletePlayerRow pid)"
  by (rule mildI [OF keeps_DeletePlayerRow])
     (auto simp: DeletePlayerRow_def count_players_def active_rooms_def intro: length_filter_filter_le
       simp del: filter_filter)

lemma mild_MarkRoomStartedRow: "mild (MarkRoomStartedRow rid)"
  by (rule mildI [OF keeps_MarkRoomStartedRow])
     (auto simp: MarkRoomStartedRow_def Let_def count_players_def active_rooms_def
       intro!: length_filter_map_le split: if_splits)

lemma mild_MarkRoomEndedRow: "mild (MarkRoomEndedRow rid)"
  by (rule mildI [OF keeps_MarkRoomEndedRow])
     (auto simp: MarkRoomEndedRow_def count_players_def active_rooms_def
       intro!: length_filter_map_le split: if_splits)

lemma mild_host_statements: "mild (TouchHostLoginRow hid)" "mild (UpsertHost fresh email hash name)"
  by (rule mildI [OF keeps_host_statements(1)] mildI [OF keeps_host_statements(2)],
      auto simp: TouchHostLoginRow_def UpsertHost_def count_players_def active_rooms_def split: if_splits)+

lemma milder_trans: "milder t t' \<Longrightarrow> milder t' t'' \<Longrightarrow> milder t t''"
  unfolding milder_def by (meson order_trans)

lemma saves_milder: "saves pid r t t' \<Longrightarrow> milder t t'"
  using mild_InsertAnswer mild_updateParams milder_trans unfolding saves_def mild_def by blast

lemma SaveResult_trips: "trips d \<le> trips (snd (SaveResult pg r d))"
proof (cases "uuid_parse pg (rs_playerID r)")
  case (Some pid)
  let ?P = "\<lambda>x :: store_error option \<times> db. trips d \<le> trips (snd x)"
  show ?thesis
    unfolding SaveResult_def Some option.case
    by (rule tx_begin_split [where P = ?P], simp, rule tx_exec_split_at [where P = ?P], simp)
       (auto intro!: tx_exec_split_at [where P = ?P] tx_commit_split [where P = ?P])
qed (simp add: SaveResult_def)

lemma SaveResult_milder: "milder (tabs d) (tabs (snd (SaveResult pg r d)))"
proof (cases "uuid_parse pg (rs_playerID r)")
  case (Some pid)
  show ?thesis
    using SaveResult_effect [OF Some, of d] saves_milder by (auto simp: save_outcome_def)
qed (simp add: SaveResult_def)

lemma InsertPlayer_tables:
  "InsertPlayer fresh i now t = Inr (pid, t') \<Longrightarrow> \<exists>row. tb_players t' = tb_players t @ [row] \<and>
     pr_id row = fresh \<and> pr_roomID row = ip_roomID i \<and> pr_nickname row = ip_nickname i \<and>
     pr_score row = 0 \<and> pr_correctCount row = 0 \<and> pr_totalMs row = 0 \<and> pr_currentIndex row = 0 \<and>
     pr_streak row = 0 \<and> pr_finishedAt row = None"
  "InsertPlayer fresh i now t = Inr (pid, t') \<Longrightarrow> tb_rooms t' = tb_rooms t \<and> tb_answers t' = tb_answers t"
  "InsertPlayer fresh i now t = Inr (pid, t') \<Longrightarrow> fresh \<notin> set (map pr_id (tb_players t))"
  by (auto simp: InsertPlayer_def split: if_splits)

lemma InsertRoom_tables:
  "InsertRoom fresh i now t = Inr (rid, t') \<Longrightarrow> \<exists>row. tb_rooms t' = tb_rooms t @ [row] \<and>
     rr_id row = fresh \<and> rr_pin row = ir_pin i \<and> rr_hostID row = ir_hostID i \<and> rr_status row = Lobby \<and>
     rr_questionIDs row = ir_questionIDs i"
  "InsertRoom fresh i now t = Inr (rid, t') \<Longrightarrow> tb_players t' = tb_players t \<and> tb_answers t' = tb_answers t"
  by (auto simp: InsertRoom_def split: if_splits)

lemma joins_db_ok:
  assumes "joins rid i (tabs d) pid (tabs d')" "db_ok pg d" "trips d \<le> trips d'" "mono (server_now pg)"
  shows "db_ok pg d'"
proof -
  obtain now where n: "InsertPlayer pid (join_params rid i) now (tabs d) = Inr (pid, tabs d')"
    and cap: "count_players rid (tabs d) < MaxPlayersInRoom" using assms(1) by (auto simp: joins_def)
  have "tables_ok (tabs d')"
    using n keeps_InsertPlayer [of pid "join_params rid i"] assms(2) by (auto simp: keeps_def db_ok_def)
  moreover have "count_players x (tabs d') = (if x = rid then Suc else id) (count_players x (tabs d))" for x
    using InsertPlayer_tables(1) [OF n] by (auto simp: count_players_def join_params_def)
  moreover have "active_rooms m (tabs d') = active_rooms m (tabs d)" for m
    using InsertPlayer_tables(2) [OF n] by (simp add: active_rooms_def)
  moreover have "server_now pg (trips d) \<le> server_now pg (trips d')" using assms(3,4) by (simp add: monoD)
  ultimately show ?thesis using assms(2) cap by (auto simp: db_ok_def room_caps_def)
qed

lemma active_rooms_antimono: "m \<le> m' \<Longrightarrow> active_rooms m' t \<le> active_rooms m t"
proof -
  assume "m \<le> m'"
  then have f: "filter (\<lambda>r. rr_status r \<noteq> Ended \<and> rr_createdAt r > m' - two_hours) (tb_rooms t) =
    filter (\<lambda>r. rr_createdAt r > m' - two_hours)
      (filter (\<lambda>r. rr_status r \<noteq> Ended \<and> rr_createdAt r > m - two_hours) (tb_rooms t))"
    by (auto intro: filter_cong)
  show ?thesis unfolding active_rooms_def f by (rule length_filter_le)
qed

lemma creates_db_ok:
  assumes "creates pg (trips d) (trips d') hostID pin i (tabs d) rid (tabs d')" "db_ok pg d"
    and "trips d \<le> trips d'" "mono (server_now pg)"
  shows "db_ok pg d'"
proof -
  obtain m now where m: "trips d \<le> m" "m \<le> trips d'"
    and cap: "active_rooms (server_now pg m) (tabs d) < MaxActiveRooms"
    and n: "InsertRoom rid (create_params hostID pin i) now (tabs d) = Inr (rid, tabs d')"
    using assms(1) by (auto simp: creates_def)
  have "tables_ok (tabs d')"
    using n keeps_InsertRoom [of rid "create_params hostID pin i"] assms(2) by (auto simp: keeps_def db_ok_def)
  moreover have "count_players x (tabs d') = count_players x (tabs d)" for x
    using InsertRoom_tables(2) [OF n] by (simp add: count_players_def)
  moreover have "active_rooms k (tabs d') \<le> MaxActiveRooms" if "server_now pg (trips d') \<le> k" for k
  proof -
    have "server_now pg m \<le> k" using that m(2) assms(4) by (meson monoD order_trans)
    then have "active_rooms k (tabs d) < MaxActiveRooms"
      using cap active_rooms_antimono [of "server_now pg m" k "tabs d"] by simp
    moreover have "active_rooms k (tabs d') \<le> Suc (active_rooms k (tabs d))"
      using InsertRoom_tables(1) [OF n] by (auto simp: active_rooms_def)
    ultimately show ?thesis by simp
  qed
  ultimately show ?thesis using assms(2) by (auto simp: db_ok_def room_caps_def)
qed

lemma insert_and_commit_trips:
  fixes d2 :: db
  shows "trips d2 \<le> trips (snd
    (case tx_exec pg s t d2 of
        (Inl UniqueViolation, d3) \<Rightarrow> (Inl NicknameTaken, d3)
      | (Inl _, d3) \<Rightarrow> (Inl (DbFailure ''insert player''), d3)
      | (Inr (pid, t2), d3) \<Rightarrow>
          (case tx_commit pg t2 d3 of
             (False, d4) \<Rightarrow> (Inl (DbFailure ''commit join''), d4)
           | (True, d4) \<Rightarrow> (Inr (f pid), d4))))"
proof (cases "tx_exec pg s t d2")
  case (Pair y d3)
  have d3: "trips d3 = Suc (trips d2)" by (rule tx_trips(1) [OF Pair])
  show ?thesis
  proof (cases y)
    case (Inl e)
    then show ?thesis using Pair d3 by (simp split: db_error.split)
  next
    case (Inr z)
    obtain pid t2 where z: "z = (pid, t2)" by fastforce
    obtain ok d4 where c: "tx_commit pg t2 d3 = (ok, d4)" by fastforce
    show ?thesis using Pair Inr z c d3 tx_trips(2) [OF c] by (simp split: bool.split)
  qed
qed

lemma insertPlayer_trips: "n \<le> trips d \<Longrightarrow> n \<le> trips (snd (insertPlayer pg t rid i d))"
proof -
  assume n: "n \<le> trips d"
  obtain y d1 where y: "(case np_schoolID i of None \<Rightarrow> (Inr ('''', t), d)
      | Some sid \<Rightarrow> tx_exec pg (GetSchoolName (toInt32 sid)) t d) = (y, d1)" by fastforce
  then have "n \<le> trips d1" using n by (cases "np_schoolID i") (auto dest: tx_trips(1))
  then show ?thesis
    unfolding insertPlayer_def y
    using order_trans [OF _ insert_and_commit_trips] by (cases y) auto
qed

lemma JoinRoom_trips: "trips d \<le> trips (snd (JoinRoom pg i d))"
proof (cases "uuid_parse pg (np_roomID i)")
  case (Some rid)
  let ?P = "\<lambda>x :: (store_error + player) \<times> db. trips d \<le> trips (snd x)"
  show ?thesis
    unfolding JoinRoom_def Some option.case
    by (rule tx_begin_split [where P = ?P], simp, rule tx_exec_split_at [where P = ?P], simp)
       (auto intro!: tx_exec_split_at [where P = ?P] intro!: insertPlayer_trips)
qed (simp add: JoinRoom_def)

text \<open>Any operation of the store, on any arguments.\<close>

inductive store_step :: "pg \<Rightarrow> db \<Rightarrow> db \<Rightarrow> bool" for pg where
  save_result: "store_step pg d (snd (SaveResult pg r d))"
| join_room: "store_step pg d (snd (JoinRoom pg np d))"
| create_room: "store_step pg d (snd (CreateRoom pg random nr d))"
| delete_player: "store_step pg d (snd (DeletePlayer pg i d))"
| mark_started: "store_step pg d (snd (MarkRoomStarted pg i d))"
| mark_ended: "store_step pg d (snd (MarkRoomEnded pg i d))"
| room_by_pin: "store_step pg d (snd (RoomByPIN pg i d))"
| room_by_id: "store_step pg d (snd (RoomByID pg i d))"
| player_count: "store_step pg d (snd (PlayerCount pg i d))"
| players_of_room: "store_step pg d (snd (PlayersOfRoom pg i d))"
| questions_by_ids: "store_step pg d (snd (QuestionsByIDs pg ids d))"
| question_pool: "store_step pg d (snd (QuestionPool pg d))"
| host_by_email: "store_step pg d (snd (HostByEmail pg i d))"
| touch_host_login: "store_step pg d (snd (TouchHostLogin pg i d))"
| create_host: "store_step pg d (snd (CreateHost pg i name hash d))"

inductive store_steps :: "pg \<Rightarrow> db \<Rightarrow> db \<Rightarrow> bool" for pg where
  refl: "store_steps pg d d"
| step: "store_steps pg d d' \<Longrightarrow> store_step pg d' d'' \<Longrightarrow> store_steps pg d d''"

text \<open>The operations that are one round trip.\<close>

lemma snd_exec_cases:
  "snd (DeletePlayer pg i d) \<in> {d} \<union> range (\<lambda>pid. snd (exec pg (DeletePlayerRow pid) d))"
  "snd (MarkRoomStarted pg i d) \<in> {d} \<union> range (\<lambda>rid. snd (exec pg (MarkRoomStartedRow rid) d))"
  "snd (MarkRoomEnded pg i d) \<in> {d} \<union> range (\<lambda>rid. snd (exec pg (MarkRoomEndedRow rid) d))"
  "snd (TouchHostLogin pg i d) \<in> {d} \<union> range (\<lambda>hid. snd (exec pg (TouchHostLoginRow hid) d))"
  "snd (CreateHost pg i name hash d) = snd (exec pg (UpsertHost (gen_uuid pg (trips d)) i hash name) d)"
  by (auto simp: DeletePlayer_def MarkRoomStarted_def MarkRoomEnded_def TouchHostLogin_def CreateHost_def
      split: option.split prod.split sum.split) (metis rangeI snd_conv)+

lemma snd_exec_cases_read:
  "snd (RoomByPIN pg i d) = snd (exec pg (GetActiveRoomByPIN i) d)"
  "snd (RoomByID pg i d) \<in> {d} \<union> range (\<lambda>rid. snd (exec pg (GetRoomByID rid) d))"
  "snd (PlayerCount pg i d) \<in> {d} \<union> range (\<lambda>rid. snd (exec pg (CountRoomPlayers rid) d))"
  "snd (PlayersOfRoom pg i d) \<in> {d} \<union> range (\<lambda>rid. snd (exec pg (ListRoomPlayers rid) d))"
  "snd (QuestionsByIDs pg ids d) = snd (exec pg (GetQuestionsByIDs ids) d)"
  "snd (QuestionPool pg d) = snd (exec pg ListSelectableQuestions d)"
  "snd (HostByEmail pg i d) = snd (exec pg (GetHostByEmail i) d)"
  by (auto simp: RoomByPIN_def RoomByID_def PlayerCount_def PlayersOfRoom_def QuestionsByIDs_def
      QuestionPool_def HostByEmail_def split: option.split prod.split sum.split) (metis rangeI snd_conv)+

lemma db_ok_exec:
  assumes "mild s" "mono (server_now pg)" "db_ok pg d"
  shows "db_ok pg (snd (exec pg s d))"
  using exec_mild [OF assms(1), of d pg] assms(2,3) by (intro db_ok_milder [OF assms(3)]) simp_all

lemma db_ok_SaveResult: "db_ok pg d \<Longrightarrow> mono (server_now pg) \<Longrightarrow> db_ok pg (snd (SaveResult pg r d))"
  by (rule db_ok_milder [OF _ SaveResult_milder SaveResult_trips])

lemma db_ok_same: "db_ok pg d \<Longrightarrow> tabs d' = tabs d \<Longrightarrow> trips d \<le> trips d' \<Longrightarrow>
    mono (server_now pg) \<Longrightarrow> db_ok pg d'"
  by (erule db_ok_milder) simp_all

lemma db_ok_JoinRoom:
  assumes "db_ok pg d" "mono (server_now pg)"
  shows "db_ok pg (snd (JoinRoom pg i d))"
proof (cases "uuid_parse pg (np_roomID i)")
  case None
  then show ?thesis using assms by (simp add: JoinRoom_def)
next
  case (Some rid)
  show ?thesis
    using JoinRoom_outcome [OF Some, of d] joins_db_ok [OF _ assms(1) JoinRoom_trips assms(2)]
      db_ok_same [OF assms(1) _ JoinRoom_trips assms(2)]
    by (auto simp: join_outcome_def split: sum.splits)
qed

lemma db_ok_CreateRoom:
  assumes "db_ok pg d" "mono (server_now pg)"
  shows "db_ok pg (snd (CreateRoom pg random i d))"
proof (cases "uuid_parse pg (nr_hostID i)")
  case None
  then show ?thesis using assms by (simp add: CreateRoom_def)
next
  case (Some hostID)
  have o: "create_outcome pg (trips d) hostID i (tabs d) (CreateRoom pg random i d)"
    by (rule CreateRoom_outcome [OF Some])
  then have t: "trips d \<le> trips (snd (CreateRoom pg random i d))" by (simp add: create_outcome_def)
  show ?thesis
    using o creates_db_ok [OF _ assms(1) t assms(2)] db_ok_same [OF assms(1) _ t assms(2)]
    by (auto simp: create_outcome_def split: sum.splits)
qed

lemma db_ok_step:
  assumes "store_step pg d d'" "db_ok pg d" "mono (server_now pg)"
  shows "db_ok pg d'"
proof -
  note e = mild_DeletePlayerRow mild_MarkRoomStartedRow mild_MarkRoomEndedRow mild_host_statements
    mild_reads reading_statements
  show ?thesis
    using assms(1)
  proof cases
    case save_result then show ?thesis using assms db_ok_SaveResult by simp
  next
    case join_room then show ?thesis using assms db_ok_JoinRoom by simp
  next
    case create_room then show ?thesis using assms db_ok_CreateRoom by simp
  next
    case (delete_player i) then show ?thesis
      using snd_exec_cases(1) [of pg i d] assms(2) by (auto intro!: db_ok_exec mild_DeletePlayerRow assms(3))
  next
    case (mark_started i) then show ?thesis
      using snd_exec_cases(2) [of pg i d] assms(2) by (auto intro!: db_ok_exec mild_MarkRoomStartedRow assms(3))
  next
    case (mark_ended i) then show ?thesis
      using snd_exec_cases(3) [of pg i d] assms(2) by (auto intro!: db_ok_exec mild_MarkRoomEndedRow assms(3))
  next
    case (room_by_id i) then show ?thesis
      using snd_exec_cases_read(2) [of pg i d] assms(2) by (auto intro!: db_ok_exec mild_reads reading_statements assms(3))
  next
    case (player_count i) then show ?thesis
      using snd_exec_cases_read(3) [of pg i d] assms(2) by (auto intro!: db_ok_exec mild_reads reading_statements assms(3))
  next
    case (players_of_room i) then show ?thesis
      using snd_exec_cases_read(4) [of pg i d] assms(2) by (auto intro!: db_ok_exec mild_reads reading_statements assms(3))
  next
    case (touch_host_login i) then show ?thesis
      using snd_exec_cases(4) [of pg i d] assms(2) by (auto intro!: db_ok_exec mild_host_statements assms(3))
  qed (simp_all add: snd_exec_cases snd_exec_cases_read db_ok_exec [OF _ assms(3,2)] e)
qed

lemma db_ok_steps:
  "store_steps pg d d' \<Longrightarrow> db_ok pg d \<Longrightarrow> mono (server_now pg) \<Longrightarrow> db_ok pg d'"
  by (induction rule: store_steps.induct) (auto intro: db_ok_step)

subsection \<open>Properties\<close>

text \<open>
  C13. Whatever operations of the store run, in whatever order and with whatever faults, the
  schema's keys and checks hold, no room has more than 15 players, and at no later time are more
  than 5 rooms active: the caps the handlers rely on, and unique nicknames, PINs and answers.
\<close>

theorem store_limits_hold:
  assumes "store_steps pg d d'" "db_ok pg d" "mono (server_now pg)"
  shows "db_ok pg d'"
  using assms by (rule db_ok_steps)

text \<open>
  C2. \<open>SaveResult\<close> is all or nothing. When it reports success the answer was not on record, the
  answer row is appended and the player's row holds the new totals; when it reports an error the
  tables are as before, unless the acknowledgement of the commit was lost; and it reports a
  duplicate only if the answer was on record.
\<close>

theorem SaveResult_all_or_nothing:
  assumes "uuid_parse pg (rs_playerID r) = Some pid" "SaveResult pg r d = (err, d')"
  shows "(err = None \<longrightarrow> saves pid r (tabs d) (tabs d') \<and> \<not> answered_in (tabs d) pid (rs_questionID r) \<and>
           tb_answers (tabs d') = tb_answers (tabs d) @ [answerParams pid r]) \<and>
         (err \<noteq> None \<longrightarrow> tabs d' = tabs d \<or> (\<exists>n. fault pg n = AckLost) \<and> saves pid r (tabs d) (tabs d')) \<and>
         (err = Some DuplicateAnswer \<longrightarrow> tabs d' = tabs d \<and> answered_in (tabs d) pid (rs_questionID r))"
proof -
  have o: "save_outcome pg pid r d (err, d')" using SaveResult_effect [OF assms(1), of d] assms(2) by simp
  have "\<not> answered_in (tabs d) pid (rs_questionID r) \<and> tb_answers t' = tb_answers (tabs d) @ [answerParams pid r]"
    if sv: "saves pid r (tabs d) t'" for t'
  proof -
    obtain now1 now2 n t2 where i: "InsertAnswer (answerParams pid r) now1 (tabs d) = Inr (n, t2)" "n \<noteq> 0"
      and u: "updateParams pid r now2 t2 = Inr ((), t')" using sv by (auto simp: saves_def)
    have "tb_answers t' = tb_answers t2"
      using u by (auto simp: updateParams_def UpdatePlayerProgress_def split: if_splits)
    then show ?thesis
      using InsertAnswer_nonzero(1,2) [OF i] by (simp add: answerParams_def)
  qed
  then show ?thesis using o by (auto simp: save_outcome_def)
qed

lemma JoinRoom_effect:
  assumes "uuid_parse pg (np_roomID i) = Some rid" "JoinRoom pg i d = (res, d')"
  shows "case res of
      Inr p \<Rightarrow> room_open rid (tabs d) \<and> count_players rid (tabs d) < MaxPlayersInRoom \<and>
        \<not> nickname_used rid (np_nickname i) (tabs d) \<and> pl_id p \<notin> set (map pr_id (tb_players (tabs d))) \<and>
        (\<exists>school. p = joined_player i (pl_id p) school) \<and>
        (\<exists>row. tb_players (tabs d') = tb_players (tabs d) @ [row] \<and> pr_id row = pl_id p \<and>
           pr_roomID row = rid \<and> pr_nickname row = np_nickname i \<and> pr_score row = 0 \<and>
           pr_currentIndex row = 0)
    | Inl e \<Rightarrow> (e = RoomFull \<longrightarrow> count_players rid (tabs d) \<ge> MaxPlayersInRoom) \<and>
        (e = NotFound \<longrightarrow> \<not> room_open rid (tabs d)) \<and>
        (tabs d' = tabs d \<or> (\<exists>n. fault pg n = AckLost))"
proof -
  have o: "join_outcome pg rid i d (res, d')" using JoinRoom_outcome [OF assms(1), of d] assms(2) by simp
  show ?thesis
  proof (cases res)
    case (Inl e)
    then show ?thesis using o by (auto simp: join_outcome_def)
  next
    case (Inr p)
    obtain pid school where p: "p = joined_player i pid school" and j: "joins rid i (tabs d) pid (tabs d')"
      using o Inr by (auto simp: join_outcome_def)
    obtain now where n: "InsertPlayer pid (join_params rid i) now (tabs d) = Inr (pid, tabs d')"
      using j by (auto simp: joins_def)
    have "\<not> nickname_used rid (np_nickname i) (tabs d)"
      using n by (auto simp: InsertPlayer_def nickname_used_def join_params_def split: if_splits)
    then show ?thesis
      using j p Inr InsertPlayer_tables(1,3) [OF n]
      by (auto simp: joins_def joined_player_def join_params_def)
  qed
qed


lemma CreateRoom_effect:
  assumes "uuid_parse pg (nr_hostID i) = Some hostID" "CreateRoom pg random i d = (res, d')"
  shows "case res of
      Inr room \<Rightarrow> pin_ok (rd_pin room) \<and> rd_pin room \<notin> set (map rr_pin (tb_rooms (tabs d))) \<and>
        (\<exists>m. active_rooms (server_now pg m) (tabs d) < MaxActiveRooms) \<and>
        room = created_room (rd_id room) hostID (rd_pin room) i \<and>
        (\<exists>row. tb_rooms (tabs d') = tb_rooms (tabs d) @ [row] \<and> rr_id row = rd_id room \<and>
           rr_pin row = rd_pin room \<and> rr_hostID row = hostID \<and> rr_status row = Lobby \<and>
           rr_questionIDs row = nr_questionIDs i)
    | Inl e \<Rightarrow> (e = MaxRooms \<longrightarrow> tabs d' = tabs d \<longrightarrow>
          (\<exists>m. active_rooms (server_now pg m) (tabs d) \<ge> MaxActiveRooms) \<or> (\<exists>n. fault pg n = AckLost)) \<and>
        (tabs d' = tabs d \<or> (\<exists>n. fault pg n = AckLost))"
proof -
  have o: "create_outcome pg (trips d) hostID i (tabs d) (res, d')"
    using CreateRoom_outcome [OF assms(1), of d random] assms(2) by simp
  show ?thesis
  proof (cases res)
    case (Inl e)
    then show ?thesis using o by (auto simp: create_outcome_def)
  next
    case (Inr room)
    obtain rid pin m now where room: "room = created_room rid hostID pin i" "pin_ok pin"
      and cap: "active_rooms (server_now pg m) (tabs d) < MaxActiveRooms"
      and n: "InsertRoom rid (create_params hostID pin i) now (tabs d) = Inr (rid, tabs d')"
      using o Inr by (auto simp: create_outcome_def creates_def)
    have "pin \<notin> set (map rr_pin (tb_rooms (tabs d)))"
      using n by (auto simp: InsertRoom_def create_params_def split: if_splits)
    then show ?thesis
      using room cap Inr InsertRoom_tables(1) [OF n] by (auto simp: created_room_def create_params_def)
  qed
qed


end
