(* ===== verification/Persist.thy ===== *)
theory Persist
  imports SessionInv
begin

section \<open>A room and its store agree\<close>

text \<open>
  The contract between a room and the store it writes to, as the locale \<open>game_store\<close>: its laws say
  what the calls of \<open>game.Store\<close> do to the totals and the answers that are on record. From the
  laws alone follows that the memory of a running room and the record never differ
  (\<open>synced_step\<close>), which is why a room can be dropped at any time and loaded again. \<open>GameStore\<close>
  shows that the store over the database keeps the laws.
\<close>

subsection \<open>What the store remembers of a player\<close>

record totals =
  tl_score :: int
  tl_correct :: int
  tl_totalMs :: int
  tl_resolved :: int
  tl_streak :: int
  tl_finished :: bool

text \<open>The totals on record for a player of a room with \<open>n\<close> questions.\<close>

definition totals_of :: "nat \<Rightarrow> player_state \<Rightarrow> totals" where
  "totals_of n p = \<lparr>tl_score = ps_score p, tl_correct = ps_correct p, tl_totalMs = ps_totalMs p,
     tl_resolved = ps_resolved p, tl_streak = ps_streak p,
     tl_finished = (0 < ps_resolved p \<and> int n \<le> ps_resolved p)\<rparr>"

definition saved_totals :: "result \<Rightarrow> bool \<Rightarrow> totals" where
  "saved_totals r before = \<lparr>tl_score = rs_score r, tl_correct = rs_correctCount r,
     tl_totalMs = rs_totalMs r, tl_resolved = rs_currentIndex r, tl_streak = rs_streak r,
     tl_finished = (before \<or> rs_finished r)\<rparr>"

text \<open>The results whose numbers fit the columns and their checks.\<close>

definition storable :: "result \<Rightarrow> bool" where
  "storable r \<longleftrightarrow> 0 \<le> rs_points r \<and> rs_points r \<le> 32767 \<and>
     0 \<le> rs_score r \<and> rs_score r \<le> 2147483647 \<and> 0 \<le> rs_correctCount r \<and> rs_correctCount r \<le> 32767 \<and>
     0 \<le> rs_totalMs r \<and> rs_totalMs r \<le> 2147483647 \<and>
     0 \<le> rs_currentIndex r \<and> rs_currentIndex r \<le> 15 \<and> 0 \<le> rs_streak r \<and> rs_streak r \<le> 32767"

locale game_store =
  fixes api :: "'s store_api"
    and progress :: "'s \<Rightarrow> uid \<Rightarrow> totals option"
    and answered :: "'s \<Rightarrow> uid \<Rightarrow> string set"
    and good_id :: "uid \<Rightarrow> bool"
  assumes save_ok: "good_id (rs_playerID r) \<Longrightarrow> storable r \<Longrightarrow> api_SaveResult api r s = (None, s') \<Longrightarrow>
      \<exists>t. progress s (rs_playerID r) = Some t \<and>
        progress s' = (progress s)(rs_playerID r \<mapsto> saved_totals r (tl_finished t)) \<and>
        rs_questionID r \<notin> answered s (rs_playerID r) \<and>
        answered s' = (answered s)(rs_playerID r := insert (rs_questionID r) (answered s (rs_playerID r)))"
    and save_err: "api_SaveResult api r s = (Some e, s') \<Longrightarrow>
      progress s' = progress s \<and> answered s' = answered s"
    and save_dup: "good_id (rs_playerID r) \<Longrightarrow> api_SaveResult api r s = (Some DuplicateAnswer, s') \<Longrightarrow>
      rs_questionID r \<in> answered s (rs_playerID r)"
    and started: "progress (snd (api_MarkRoomStarted api i s)) = progress s"
      "answered (snd (api_MarkRoomStarted api i s)) = answered s"
    and ended: "progress (snd (api_MarkRoomEnded api i s)) = progress s"
      "answered (snd (api_MarkRoomEnded api i s)) = answered s"
    and deleted: "good_id pid \<Longrightarrow> k \<noteq> pid \<Longrightarrow> progress (snd (api_DeletePlayer api pid s)) k = progress s k"
      "good_id pid \<Longrightarrow> k \<noteq> pid \<Longrightarrow> answered (snd (api_DeletePlayer api pid s)) k = answered s k"
    and delete_err: "api_DeletePlayer api pid s = (Some e, s') \<Longrightarrow>
      progress s' = progress s \<and> answered s' = answered s"

subsection \<open>A room among other users of its store\<close>

text \<open>
  Between two events of a room, others use the same store: they may change what they like except
  the record of the room's players (\<open>rely\<close>). A player is added to a room only after the store
  recorded the player as new (\<open>joined\<close>).
\<close>

inductive sys_step :: "(uid set \<Rightarrow> 's \<Rightarrow> 's \<Rightarrow> bool) \<Rightarrow> ('s \<Rightarrow> player \<Rightarrow> bool) \<Rightarrow> ('s, 'b) deps \<Rightarrow>
    ('s, 'b) room \<Rightarrow> ('s, 'b) room \<Rightarrow> bool" for rely joined d where
  event: "\<not> r_done r \<Longrightarrow> enabled d ev r \<Longrightarrow> (\<And>p. ev = EvAddPlayer p \<Longrightarrow> joined (r_store r) p) \<Longrightarrow>
     sys_step rely joined d r (turn d ev r)"
| idle: "\<not> r_done r \<Longrightarrow> sys_step rely joined d r (r\<lparr>r_tick := Suc (r_tick r)\<rparr>)"
| others: "rely (set (keys (r_players r))) (r_store r) s \<Longrightarrow> sys_step rely joined d r (r\<lparr>r_store := s\<rparr>)"

inductive sys_steps :: "(uid set \<Rightarrow> 's \<Rightarrow> 's \<Rightarrow> bool) \<Rightarrow> ('s \<Rightarrow> player \<Rightarrow> bool) \<Rightarrow> ('s, 'b) deps \<Rightarrow>
    ('s, 'b) room \<Rightarrow> ('s, 'b) room \<Rightarrow> bool" for rely joined d where
  refl: "sys_steps rely joined d r r"
| step: "sys_steps rely joined d r r' \<Longrightarrow> sys_step rely joined d r' r'' \<Longrightarrow> sys_steps rely joined d r r''"

definition keeps_view :: "('s \<Rightarrow> uid \<Rightarrow> totals option) \<Rightarrow> ('s \<Rightarrow> uid \<Rightarrow> string set) \<Rightarrow>
    uid set \<Rightarrow> 's \<Rightarrow> 's \<Rightarrow> bool" where
  "keeps_view progress answered ids s s' \<longleftrightarrow>
     (\<forall>pid \<in> ids. progress s' pid = progress s pid \<and> answered s' pid = answered s pid)"

definition zero_totals :: totals where
  "zero_totals = \<lparr>tl_score = 0, tl_correct = 0, tl_totalMs = 0, tl_resolved = 0, tl_streak = 0,
     tl_finished = False\<rparr>"

definition on_record :: "('s \<Rightarrow> uid \<Rightarrow> totals option) \<Rightarrow> ('s \<Rightarrow> uid \<Rightarrow> string set) \<Rightarrow> (uid \<Rightarrow> bool) \<Rightarrow>
    's \<Rightarrow> player \<Rightarrow> bool" where
  "on_record progress answered good_id s p \<longleftrightarrow> good_id (pl_id p) \<and>
     progress s (pl_id p) = Some zero_totals \<and> answered s (pl_id p) = {}"

text \<open>The questions of a room that a player has resolved: always the first ones.\<close>

definition resolved_ids :: "('s, 'b) room \<Rightarrow> player_state \<Rightarrow> string set" where
  "resolved_ids r p = q_id ` set (take (nat (ps_resolved p)) (r_questions r))"

definition player_synced :: "('s \<Rightarrow> uid \<Rightarrow> totals option) \<Rightarrow> ('s \<Rightarrow> uid \<Rightarrow> string set) \<Rightarrow> (uid \<Rightarrow> bool) \<Rightarrow>
    ('s, 'b) room \<Rightarrow> uid \<Rightarrow> player_state \<Rightarrow> bool" where
  "player_synced progress answered good_id r pid p \<longleftrightarrow> good_id pid \<and>
     progress (r_store r) pid = Some (totals_of (length (r_questions r)) p) \<and>
     answered (r_store r) pid = resolved_ids r p"

definition synced :: "('s \<Rightarrow> uid \<Rightarrow> totals option) \<Rightarrow> ('s \<Rightarrow> uid \<Rightarrow> string set) \<Rightarrow> (uid \<Rightarrow> bool) \<Rightarrow>
    ('s, 'b) room \<Rightarrow> bool" where
  "synced progress answered good_id r \<longleftrightarrow>
     (\<forall>pid p. player_of r pid = Some p \<longrightarrow> player_synced progress answered good_id r pid p)"

text \<open>What the catalogue guarantees of a room's questions (at most 15, no id twice).\<close>

definition questions_ok :: "question list \<Rightarrow> bool" where
  "questions_ok qs \<longleftrightarrow> distinct (map q_id qs) \<and> length qs \<le> 15"

lemma result_of_storable:
  assumes "player_ok d r pid p" "ps_active p = Some a" "outcome_ok out" "questions_ok (r_questions r)"
  shows "storable (result_of p a out (advance p out) fin)"
proof -
  have t: "totals_ok (length (r_questions r)) (advance p out)"
    using assms by (intro advance_totals_ok) (auto simp: player_ok_def active_ok_def)
  let ?n = "advance p out"
  have "ps_resolved ?n \<le> 15" using t assms(4) by (simp add: totals_ok_def questions_ok_def)
  then have "ps_correct ?n \<le> 15" "ps_streak ?n \<le> 15" "ps_score ?n \<le> 1250 * 15" "ps_totalMs ?n \<le> 31250 * 15"
    using t unfolding totals_ok_def by linarith+
  then show ?thesis
    using t assms(3) \<open>ps_resolved ?n \<le> 15\<close> by (simp add: storable_def result_of_def totals_ok_def outcome_ok_def)
qed

lemma result_of_fields [simp]:
  "rs_playerID (result_of p a out nxt fin) = pl_id (ps_info p)"
  "rs_questionID (result_of p a out nxt fin) = q_id (aq_question a)"
  by (simp_all add: result_of_def)

text \<open>The set of resolved questions grows by the active one.\<close>

lemma resolved_ids_settled:
  assumes "player_ok d r pid p" "ps_active p = Some a"
  shows "resolved_ids r (settled p out) = insert (q_id (aq_question a)) (resolved_ids r p)"
proof -
  have a: "0 \<le> ps_resolved p" "ps_resolved p < int (length (r_questions r))"
    "aq_question a = r_questions r ! nat (ps_resolved p)"
    using assms by (auto simp: player_ok_def active_ok_def totals_ok_def)
  then have "take (nat (ps_resolved p + 1)) (r_questions r) =
      take (nat (ps_resolved p)) (r_questions r) @ [aq_question a]"
    by (simp add: nat_add_distrib take_Suc_conv_app_nth)
  then show ?thesis by (simp add: resolved_ids_def settled_def)
qed

lemma active_unanswered:
  assumes "player_ok d r pid p" "ps_active p = Some a" "questions_ok (r_questions r)"
  shows "q_id (aq_question a) \<notin> resolved_ids r p"
proof -
  have n: "nat (ps_resolved p) < length (r_questions r)"
    "aq_question a = r_questions r ! nat (ps_resolved p)"
    using assms by (auto simp: player_ok_def active_ok_def totals_ok_def)
  have "distinct (map q_id (r_questions r))" using assms(3) by (simp add: questions_ok_def)
  then have "i < nat (ps_resolved p) \<Longrightarrow> q_id (r_questions r ! i) \<noteq> q_id (aq_question a)" for i
    using n by (simp add: distinct_conv_nth)
  then show ?thesis using n(1) by (auto simp: resolved_ids_def in_set_conv_nth) blast
qed

subsection \<open>Agreement is kept\<close>

text \<open>Agreement depends on the store, the players and the questions only.\<close>

lemma synced_cong:
  assumes "synced pr an good r" "r_store r' = r_store r" "r_questions r' = r_questions r"
    and "\<And>pid. player_of r' pid = player_of r pid \<or>
      player_of r' pid = map_option disconnected (player_of r pid)"
  shows "synced pr an good r'"
  unfolding synced_def
proof (intro allI impI)
  fix pid p
  assume p: "player_of r' pid = Some p"
  have same: "player_synced pr an good r' pid x = player_synced pr an good r pid x" for x
    using assms(2,3) by (simp add: player_synced_def resolved_ids_def)
  have disc: "player_synced pr an good r pid (disconnected x) = player_synced pr an good r pid x" for x
    by (simp add: player_synced_def resolved_ids_def totals_of_def disconnected_def)
  from assms(4) [of pid] show "player_synced pr an good r' pid p"
  proof
    assume "player_of r' pid = player_of r pid"
    then show ?thesis using p assms(1) same by (simp add: synced_def)
  next
    assume "player_of r' pid = map_option disconnected (player_of r pid)"
    then obtain x where "player_of r pid = Some x" "p = disconnected x"
      using p by (cases "player_of r pid") auto
    then show ?thesis using assms(1) same disc by (simp add: synced_def)
  qed
qed

lemma synced_quiet: "quiet d r r' \<Longrightarrow> synced pr an good r \<Longrightarrow> synced pr an good r'"
  using synced_cong [of pr an good r r'] quiet_fields(5,12) [of d r r'] quiet_player_of_eq [of d r r']
  by simp

lemma synced_store:
  assumes "synced pr an good r"
    and "\<And>pid. player_of r pid \<noteq> None \<Longrightarrow> pr s pid = pr (r_store r) pid \<and> an s pid = an (r_store r) pid"
  shows "synced pr an good (r\<lparr>r_store := s\<rparr>)"
  using assms by (auto simp: synced_def player_synced_def resolved_ids_def)

lemma synced_others:
  assumes "synced pr an good r" "keeps_view pr an (set (keys (r_players r))) (r_store r) s"
  shows "synced pr an good (r\<lparr>r_store := s\<rparr>)"
proof (rule synced_store [OF assms(1)])
  fix pid
  assume "player_of r pid \<noteq> None"
  then have "pid \<in> set (keys (r_players r))" by (simp add: player_of_def map_of_None_key del: set_map)
  then show "pr s pid = pr (r_store r) pid \<and> an s pid = an (r_store r) pid"
    using assms(2) by (simp add: keeps_view_def del: set_map)
qed

context game_store begin

lemma synced_endSession:
  assumes "d_store d = api" "synced progress answered good_id r"
  shows "synced progress answered good_id (endSession d r)"
proof (cases "r_status r = Ended")
  case False
  obtain s out where e: "endSession d r = closeAll (r\<lparr>r_store := s, r_status := Ended, r_out := out\<rparr>)"
    and s: "s = snd (api_MarkRoomEnded (d_store d) (r_id r) (r_store r))"
    using endSession_eq [OF False] by blast
  have "synced progress answered good_id (r\<lparr>r_store := s\<rparr>)"
    using ended s assms(1) by (intro synced_store [OF assms(2)]) simp
  then show ?thesis
    unfolding e by (rule synced_cong) (simp_all add: player_of_closeAll, simp_all add: player_of_def)
qed (simp add: endSession_def assms)

lemma synced_endIfAllFinished:
  "d_store d = api \<Longrightarrow> synced progress answered good_id r \<Longrightarrow>
   synced progress answered good_id (endIfAllFinished d r)"
  using endIfAllFinished_cases [of d r] synced_endSession [of d r] by auto

lemma synced_resolve:
  assumes api: "d_store d = api" and sy: "synced progress answered good_id r" and i: "room_inv d r"
    and p: "player_of r pid = Some p" and a: "ps_active p = Some a" and out: "outcome_ok out"
    and qs: "questions_ok (r_questions r)"
  shows "synced progress answered good_id (snd (resolve d pid p a out ann r))"
proof (cases "save_call d p a out r")
  case (Pair err s)
  have ok: "player_ok d r pid p" by (rule room_invD(1) [OF i p])
  then have pid: "pl_id (ps_info p) = pid" by (simp add: player_ok_def)
  let ?res = "result_of p a out (advance p out) (finishes r p)"
  have c: "api_SaveResult api ?res (r_store r) = (err, s)" using Pair api by (simp add: save_call_def)
  have ps: "player_synced progress answered good_id r pid p" using sy p by (simp add: synced_def)
  show ?thesis
  proof (cases err)
    case (Some e)
    have "synced progress answered good_id (r\<lparr>r_store := s\<rparr>)"
      using save_err [OF c [unfolded Some]] by (intro synced_store [OF sy]) simp
    then have "synced progress answered good_id (rejectFailedSave p e (r\<lparr>r_store := s\<rparr>))"
      by (rule synced_quiet [OF quiet_rejectFailedSave])
    then show ?thesis using Pair Some by (simp add: resolve_refused)
  next
    case None
    have good: "good_id (rs_playerID ?res)" using ps pid by (simp add: player_synced_def)
    obtain t where t: "progress (r_store r) pid = Some t"
      "progress s = (progress (r_store r))(pid \<mapsto> saved_totals ?res (tl_finished t))"
      "answered s = (answered (r_store r))(pid := insert (q_id (aq_question a)) (answered (r_store r) pid))"
      using save_ok [OF good result_of_storable [OF ok a out qs] c [unfolded None]] pid by auto
    have n: "ps_resolved p < int (length (r_questions r))" "0 \<le> ps_resolved p"
      using ok a by (auto simp: player_ok_def active_ok_def totals_ok_def)
    let ?r1 = "set_player pid (settled p out) (r\<lparr>r_store := s\<rparr>)"
    have new: "player_synced progress answered good_id ?r1 pid (settled p out)"
    proof -
      have "resolved_ids ?r1 (settled p out) = insert (q_id (aq_question a)) (resolved_ids r p)"
        using resolved_ids_settled [OF ok a] by (simp add: resolved_ids_def)
      moreover have "tl_finished t = False" using t(1) ps n by (simp add: player_synced_def totals_of_def)
      ultimately show ?thesis
        using t ps n by (auto simp: player_synced_def totals_of_def saved_totals_def result_of_def
            settled_def finishes_def advance_def Let_def)
    qed
    have "player_synced progress answered good_id ?r1 k x" if "player_of r k = Some x" "k \<noteq> pid" for k x
      using that sy t by (auto simp: synced_def player_synced_def resolved_ids_def)
    then have s1: "synced progress answered good_id ?r1" using new by (simp add: synced_def)
    obtain r5 where q: "quiet d ?r1 r5"
      and e: "resolve d pid p a out ann r = (True, if finishes r p then endIfAllFinished d r5 else r5)"
      by (rule resolve_saved [OF Pair [unfolded None], where pid = pid and ann = ann])
    show ?thesis
      using synced_quiet [OF q s1] synced_endIfAllFinished [OF api] by (simp add: e)
  qed
qed

text \<open>A question that is active was never answered, so the store never calls it a duplicate.\<close>

lemma never_duplicate:
  assumes api: "d_store d = api" and sy: "synced progress answered good_id r" and i: "room_inv d r"
    and p: "player_of r pid = Some p" and a: "ps_active p = Some a"
    and qs: "questions_ok (r_questions r)"
  shows "fst (save_call d p a out r) \<noteq> Some DuplicateAnswer"
proof
  assume "fst (save_call d p a out r) = Some DuplicateAnswer"
  then obtain s where c: "api_SaveResult api (result_of p a out (advance p out) (finishes r p)) (r_store r)
      = (Some DuplicateAnswer, s)" using api by (cases "save_call d p a out r") (auto simp: save_call_def)
  have ok: "player_ok d r pid p" by (rule room_invD(1) [OF i p])
  have ps: "player_synced progress answered good_id r pid p" using sy p by (simp add: synced_def)
  have "q_id (aq_question a) \<in> answered (r_store r) pid"
    using save_dup [OF _ c] ok ps by (auto simp: player_ok_def player_synced_def)
  then show False using active_unanswered [OF ok a qs] ps by (simp add: player_synced_def)
qed

end

lemma synced_set_player:
  assumes "synced pr an good r" "player_synced pr an good r pid p"
  shows "synced pr an good (set_player pid p r)"
  using assms by (auto simp: synced_def player_synced_def resolved_ids_def)

lemma player_synced_fields:
  assumes "ps_score p' = ps_score p" "ps_correct p' = ps_correct p" "ps_totalMs p' = ps_totalMs p"
    "ps_resolved p' = ps_resolved p" "ps_streak p' = ps_streak p"
  shows "player_synced pr an good r pid p' = player_synced pr an good r pid p"
  using assms by (simp add: player_synced_def totals_of_def resolved_ids_def)

lemma synced_host: "synced pr an good (r\<lparr>r_host := h\<rparr>) = synced pr an good r"
  by (simp add: synced_def player_synced_def player_of_def resolved_ids_def)

lemma synced_detach: "synced pr an good r \<Longrightarrow> synced pr an good (detach s r)"
proof -
  assume sy: "synced pr an good r"
  let ?f = "\<lambda>p. if ps_sink p = Some s then p\<lparr>ps_sink := None\<rparr> else p"
  have p: "player_of (detach s r) pid = map_option ?f (player_of r pid)" for pid
    by (simp add: detach_def player_of_def map_of_mapped)
  have "player_synced pr an good (detach s r) pid x = player_synced pr an good r pid x"
    "player_synced pr an good r pid (x\<lparr>ps_sink := None\<rparr>) = player_synced pr an good r pid x" for pid x
    by (simp_all add: player_synced_def totals_of_def resolved_ids_def)
  then show ?thesis using sy p by (auto simp: synced_def)
qed

lemma synced_serve:
  assumes "synced pr an good r" "player_of r pid = Some p"
  shows "synced pr an good (serve d pid p r)"
proof -
  let ?q = "r_questions r ! nat (ps_resolved p)"
  let ?r1 = "snd (shuffledOptions d ?q r)"
  let ?r2 = "?r1\<lparr>r_tick := Suc (r_tick ?r1)\<rparr>"
  let ?a = "\<lparr>aq_question = ?q, aq_options = fst (shuffledOptions d ?q r),
    aq_servedAt = d_clock d (r_tick ?r1), aq_limit = questionLimit (q_level ?q) (r_jenjang r)\<rparr>"
  let ?p = "p\<lparr>ps_active := Some ?a\<rparr>"
  have q: "quiet d r ?r2" using quiet_shuffledOptions quiet_tick_read by (rule quiet_trans)
  have f: "r_jenjang ?r1 = r_jenjang r" by (rule quiet_fields(3) [OF quiet_shuffledOptions])
  have s2: "synced pr an good ?r2" by (rule synced_quiet [OF q assms(1)])
  have "player_of ?r2 pid = Some p" using quiet_player_of_eq [OF q] assms(2) by simp
  then have "player_synced pr an good ?r2 pid p" using s2 unfolding synced_def by blast
  then have "player_synced pr an good ?r2 pid ?p" by (subst player_synced_fields [of _ p]) simp_all
  then have "synced pr an good (set_player pid ?p ?r2)" by (rule synced_set_player [OF s2])
  then have "synced pr an good (sendQuestion ?p ?a (aq_servedAt ?a) (set_player pid ?p ?r2))"
    by (rule synced_quiet [OF quiet_sendQuestion])
  then show ?thesis by (simp add: serve_def read_clock_def split_beta Let_def f)
qed

lemma synced_addPlayer:
  assumes "synced pr an good r" "on_record pr an good (r_store r) p" "fresh_player p"
  shows "synced pr an good (addPlayer p r)"
proof -
  have "player_synced pr an good (addPlayer p r) pid x = player_synced pr an good r pid x" for pid x
    by (simp add: player_synced_def resolved_ids_def)
  moreover have "player_synced pr an good r (pl_id p) (new_player_state p)"
    using assms(2,3) by (simp add: on_record_def player_synced_def totals_of_def new_player_state_def
        fresh_player_def zero_totals_def resolved_ids_def)
  ultimately show ?thesis using assms(1) by (simp add: synced_def player_of_addPlayer)
qed

context game_store begin

lemma synced_settleExpired:
  assumes api: "d_store d = api" and sy: "synced progress answered good_id r" and i: "room_inv d r"
    and m: "mono (d_clock d)" and p: "player_of r pid = Some p" and qs: "questions_ok (r_questions r)"
  shows "synced progress answered good_id (snd (settleExpired d pid p r))"
proof (cases "ps_active p")
  case None
  then show ?thesis using sy by (simp add: settleExpired_def)
next
  case (Some a)
  let ?r = "r\<lparr>r_tick := Suc (r_tick r)\<rparr>"
  have i': "room_inv d ?r" by (rule room_inv_quiet [OF quiet_tick_read m i])
  have s': "synced progress answered good_id ?r" by (rule synced_quiet [OF quiet_tick_read sy])
  have p': "player_of ?r pid = Some p" using p by (simp add: player_of_def)
  have "outcome_ok (timeoutOutcome a)"
    using room_invD(1) [OF i p] Some timeoutOutcome_ok by (auto simp: player_ok_def)
  then have "synced progress answered good_id (snd (resolve d pid p a (timeoutOutcome a) False ?r))"
    using synced_resolve [OF api s' i' p' Some, of "timeoutOutcome a" False] qs by simp
  then show ?thesis using Some sy s' by (simp add: settleExpired_def read_clock_def Let_def)
qed

lemma synced_nextQuestion:
  assumes api: "d_store d = api" and sy: "synced progress answered good_id r" and i: "room_inv d r"
    and m: "mono (d_clock d)" and qs: "questions_ok (r_questions r)"
  shows "synced progress answered good_id (nextQuestion d pid r)"
proof (cases "player_of r pid")
  case None
  then show ?thesis using sy by (simp add: nextQuestion_def)
next
  case (Some p)
  obtain free r1 where x: "settleExpired d pid p r = (free, r1)" by fastforce
  have s1: "synced progress answered good_id r1"
    using synced_settleExpired [OF api sy i m Some qs] x by simp
  have rej: "synced progress answered good_id (reject q a b c r')"
    if "synced progress answered good_id r'" for q a b c and r' :: "('s, 'c) room"
    using that by (rule synced_quiet [OF quiet_reject])
  have "same_game r r1" using same_game_settleExpired [OF Some, of d p] x by simp
  then have "player_of r1 pid = Some (player_at r1 pid)" using Some by (rule same_game_player_at)
  then have sv: "synced progress answered good_id (serve d pid (player_at r1 pid) r1)"
    by (rule synced_serve [OF s1])
  show ?thesis
  proof (cases "r_status r = Running")
    case False
    then show ?thesis using Some rej [OF sy] by (simp add: nextQuestion_def)
  next
    case True
    show ?thesis
      using s1 rej [OF s1] sv by (simp add: nextQuestion_running [OF Some True] x Let_def)
  qed
qed

lemma synced_answer:
  assumes api: "d_store d = api" and sy: "synced progress answered good_id r" and i: "room_inv d r"
    and m: "mono (d_clock d)" and qs: "questions_ok (r_questions r)"
  shows "synced progress answered good_id (answer d pid qid oid r)"
proof (cases "player_of r pid")
  case None
  then show ?thesis using sy by (simp add: answer_def)
next
  case p: (Some p)
  have rej: "synced progress answered good_id (reject p a b c r)"
    "synced progress answered good_id (rejectUnservedAnswer p qid r)" for a b c
    using sy by (rule synced_quiet [OF quiet_reject], rule synced_quiet [OF quiet_rejectUnservedAnswer])
  have res: "synced progress answered good_id
      (snd (resolve d pid p a (fst (outcomeOf d p a oid r)) True (snd (outcomeOf d p a oid r))))"
    if a: "ps_active p = Some a" for a
  proof (rule synced_resolve [OF api _ _ _ a])
    note q = quiet_outcomeOf [of d r p a oid]
    show "synced progress answered good_id (snd (outcomeOf d p a oid r))" by (rule synced_quiet [OF q sy])
    show "room_inv d (snd (outcomeOf d p a oid r))" by (rule room_inv_quiet [OF q m i])
    show "player_of (snd (outcomeOf d p a oid r)) pid = Some p" using quiet_player_of_eq [OF q] p by simp
    show "outcome_ok (fst (outcomeOf d p a oid r))"
      using room_invD(1) [OF i p] a by (intro outcomeOf_ok) (auto simp: player_ok_def totals_ok_def)
    show "questions_ok (r_questions (snd (outcomeOf d p a oid r)))" using quiet_fields(5) [OF q] qs by simp
  qed
  show ?thesis using p sy rej res by (simp add: answer_def split_beta split: option.split)
qed

end

lemma synced_sink:
  assumes "synced pr an good r" "player_of r pid = Some p"
  shows "synced pr an good (set_player pid (p\<lparr>ps_sink := s\<rparr>) r)"
proof (rule synced_set_player [OF assms(1)])
  have "player_synced pr an good r pid p" using assms by (simp add: synced_def)
  then show "player_synced pr an good r pid (p\<lparr>ps_sink := s\<rparr>)"
    by (subst player_synced_fields [of _ p]) simp_all
qed

text \<open>Before it settles the question, \<open>attachPlayer\<close> only replaces the old sink.\<close>

definition drop_sink :: "uid \<Rightarrow> player_state \<Rightarrow> ('s, 'b) room \<Rightarrow> ('s, 'b) room" where
  "drop_sink pid p r = (case ps_sink p of None \<Rightarrow> r
     | Some old \<Rightarrow> set_player pid (p\<lparr>ps_sink := None\<rparr>) (close old r))"

lemma drop_sink_player: "player_of r pid = Some p \<Longrightarrow> player_of (drop_sink pid p r) pid = Some (p\<lparr>ps_sink := None\<rparr>)"
  using quiet_player_of_eq [OF quiet_close] by (auto simp: drop_sink_def split: option.split)

lemma drop_sink_fields [simp]:
  "r_store (drop_sink pid p r) = r_store r" "r_questions (drop_sink pid p r) = r_questions r"
  "r_status (drop_sink pid p r) = r_status r" "r_jenjang (drop_sink pid p r) = r_jenjang r"
  "r_tick (drop_sink pid p r) = r_tick r" "r_done (drop_sink pid p r) = r_done r"
  by (auto simp: drop_sink_def close_def split: option.split)

lemma room_inv_drop_sink:
  assumes m: "mono (d_clock d)" and i: "room_inv d r" and p: "player_of r pid = Some p"
  shows "room_inv d (drop_sink pid p r)"
proof (cases "ps_sink p")
  case (Some old)
  have c: "room_inv d (close old r)" by (rule room_inv_quiet [OF quiet_close m i])
  have p': "player_of (close old r) pid = Some p" using quiet_player_of_eq [OF quiet_close] p by metis
  show ?thesis
    using Some room_invD [OF c p'] by (auto simp: drop_sink_def status_ok_def intro!: room_inv_set_player [OF c p'])
qed (simp add: drop_sink_def i)

lemma synced_drop_sink:
  assumes "synced pr an good r" "player_of r pid = Some p"
  shows "synced pr an good (drop_sink pid p r)"
proof (cases "ps_sink p")
  case (Some old)
  have "synced pr an good (close old r)" by (rule synced_quiet [OF quiet_close assms(1)])
  moreover have "player_of (close old r) pid = Some p" using quiet_player_of_eq [OF quiet_close] assms(2) by metis
  ultimately show ?thesis using Some synced_sink by (simp add: drop_sink_def)
qed (simp add: drop_sink_def assms)

lemma attachPlayer_known:
  assumes "player_of r pid = Some p"
  shows "attachPlayer d pid s r =
    (let r1 = drop_sink pid p r; (free, r2) = settleExpired d pid (player_at r1 pid) r1 in
     if r_status r2 = Ended then (None, close s (send s (endedMessage r2) r2))
     else let p' = (player_at r2 pid)\<lparr>ps_sink := Some s\<rparr>; r3 = set_player pid p' r2;
              r4 = send s (stateMessage (Some p') r3) r3
          in (None, resumeActive d p' r4))"
  using assms by (simp add: attachPlayer_def drop_sink_def)

context game_store begin

lemma synced_attachPlayer:
  assumes api: "d_store d = api" and sy: "synced progress answered good_id r" and i: "room_inv d r"
    and m: "mono (d_clock d)" and qs: "questions_ok (r_questions r)"
  shows "synced progress answered good_id (snd (attachPlayer d pid s r))"
proof (cases "player_of r pid")
  case None
  then show ?thesis using sy by (simp add: attachPlayer_def)
next
  case (Some p)
  let ?r1 = "drop_sink pid p r"
  have p1: "player_of ?r1 pid = Some (player_at ?r1 pid)" using drop_sink_player [OF Some] by (simp add: player_at_def)
  obtain free r2 where x: "settleExpired d pid (player_at ?r1 pid) ?r1 = (free, r2)" by fastforce
  have s2: "synced progress answered good_id r2"
    using synced_settleExpired [OF api synced_drop_sink [OF sy Some] room_inv_drop_sink [OF m i Some] m p1] qs x
    by simp
  have "same_game ?r1 r2" using same_game_settleExpired [OF p1, of d "player_at ?r1 pid"] x by simp
  then have p2: "player_of r2 pid = Some (player_at r2 pid)" using p1 by (rule same_game_player_at)
  have "synced progress answered good_id (resumeActive d p' (send s msg (set_player pid ((player_at r2 pid)\<lparr>ps_sink := Some s\<rparr>) r2)))"
    for p' msg
    by (rule synced_quiet [OF quiet_trans [OF quiet_send quiet_resumeActive] synced_sink [OF s2 p2]])
  moreover have "synced progress answered good_id (close s (send s msg r2))" for msg
    by (rule synced_quiet [OF quiet_trans [OF quiet_send quiet_close] s2])
  ultimately show ?thesis by (simp add: attachPlayer_known [OF Some] x Let_def)
qed

lemma synced_attachHost:
  fixes r :: "('s, 'c) room"
  assumes sy: "synced progress answered good_id r"
  shows "synced progress answered good_id (snd (attachHost hid s r))"
proof -
  let ?r = "case r_host r of None \<Rightarrow> r | Some old \<Rightarrow> close old r"
  have "quiet d r ?r" for d :: "('s, 'c) deps" by (simp add: quiet_close split: option.split)
  then have "synced progress answered good_id ?r" using sy by (rule synced_quiet)
  then have "synced progress answered good_id (?r\<lparr>r_host := Some s\<rparr>)" by (simp add: synced_host)
  then have "synced progress answered good_id (send s msg (?r\<lparr>r_host := Some s\<rparr>))" for msg
    by (rule synced_quiet [OF quiet_send])
  then show ?thesis using sy by (simp add: attachHost_def Let_def)
qed

lemma synced_startSession:
  assumes api: "d_store d = api" and sy: "synced progress answered good_id r"
  shows "synced progress answered good_id (startSession d r)"
proof -
  obtain res s where x: "api_MarkRoomStarted api (r_id r) (r_store r) = (res, s)" by fastforce
  have s: "synced progress answered good_id (r\<lparr>r_store := s\<rparr>)"
    using started [of "r_id r" "r_store r"] x by (intro synced_store [OF sy]) simp
  have "synced progress answered good_id (r\<lparr>r_store := s, r_status := st, r_tick := k, r_deadline := dl\<rparr>)"
    for st k dl using s by (simp add: synced_def player_synced_def player_of_def resolved_ids_def)
  then have "synced progress answered good_id
      (broadcast msg (r\<lparr>r_store := s, r_status := st, r_tick := k, r_deadline := dl\<rparr>))" for msg st k dl
    by (rule synced_quiet [OF quiet_broadcast])
  then show ?thesis
    using s sy api x by (simp add: startSession_def armDeadline_def read_clock_def Let_def split: sum.split)
qed

lemma synced_kick:
  assumes api: "d_store d = api" and sy: "synced progress answered good_id r"
  shows "synced progress answered good_id (kick d pid r)"
proof (cases "player_of r pid")
  case (Some p)
  have good: "good_id pid" using sy Some by (simp add: synced_def player_synced_def)
  obtain err s where x: "api_DeletePlayer api pid (r_store r) = (err, s)" by fastforce
  have refused: "synced progress answered good_id (r\<lparr>r_store := s\<rparr>)" if "err = Some e" for e
    using delete_err x that by (intro synced_store [OF sy]) simp
  let ?r1 = "r\<lparr>r_store := s, r_players := AList.delete pid (r_players r), r_order := removeID (r_order r) pid\<rparr>"
  let ?r2 = "forgetStanding d pid ?r1"
  let ?r3 = "case ps_sink p of None \<Rightarrow> ?r2
    | Some k \<Rightarrow> close k (send k (MPlayerKicked ''kicked by host'') ?r2)"
  have "quiet d ?r1 ?r2" by (rule quiet_forgetStanding)
  also have "quiet d ?r2 ?r3" by (simp add: quiet_trans [OF quiet_send quiet_close] split: option.split)
  also have "quiet d ?r3 (markLeaderboardDirty d ?r3)" by (rule quiet_markLeaderboardDirty)
  finally have q: "quiet d ?r1 (markLeaderboardDirty d ?r3)" .
  have "player_synced progress answered good_id ?r1 k y" if "player_of r k = Some y" "k \<noteq> pid" for k y
  proof -
    have "progress s k = progress (r_store r) k" "answered s k = answered (r_store r) k"
      using deleted [OF good that(2), of "r_store r"] x by simp_all
    then show ?thesis using that(1) sy by (simp add: synced_def player_synced_def resolved_ids_def)
  qed
  moreover have "player_of ?r1 k = (if k = pid then None else player_of r k)" for k by (simp add: player_of_def)
  ultimately have "synced progress answered good_id ?r1" by (auto simp: synced_def split: if_splits)
  then have "synced progress answered good_id (endIfAllFinished d (markLeaderboardDirty d ?r3))"
    by (rule synced_endIfAllFinished [OF api synced_quiet [OF q]])
  then show ?thesis using Some x api refused by (simp add: kick_def Let_def split: option.split)
qed (simp add: kick_def sy)

end

subsection \<open>Runs\<close>

text \<open>The questions and the identity of a room never change.\<close>

definition same_room :: "('s, 'b) room \<Rightarrow> ('s, 'b) room \<Rightarrow> bool" where
  "same_room r r' \<longleftrightarrow> r_questions r' = r_questions r \<and> r_id r' = r_id r \<and>
     r_jenjang r' = r_jenjang r \<and> r_done r' = r_done r"

lemma same_room_refl [simp]: "same_room r r"
  by (simp add: same_room_def)

lemma same_room_trans [trans]: "same_room r r' \<Longrightarrow> same_room r' r'' \<Longrightarrow> same_room r r''"
  by (simp add: same_room_def)

lemma same_room_quiet: "quiet d r r' \<Longrightarrow> same_room r r'"
  by (simp add: same_room_def quiet_def unchanged_def)

lemma same_room_game: "same_game r r' \<Longrightarrow> same_room r r'"
  by (simp add: same_room_def same_game_def)

lemma same_room_set_player: "same_room r (set_player pid p r)"
  by (simp add: same_room_def)

lemma same_room_endSession: "same_room r (endSession d r)"
  by (simp add: same_room_def endSession_fields)

lemma same_room_endIfAllFinished: "same_room r (endIfAllFinished d r)"
  using endIfAllFinished_cases [of d r] same_room_endSession [of r d] by auto

lemma same_room_serve: "same_room r (serve d pid p r)"
proof -
  let ?r1 = "snd (shuffledOptions d (r_questions r ! nat (ps_resolved p)) r)"
  have "same_room r ?r1" by (rule same_room_quiet [OF quiet_shuffledOptions])
  also have "same_room ?r1 (snd (read_clock d ?r1))" by (rule same_room_quiet [OF quiet_read_clock])
  finally have r2: "same_room r (snd (read_clock d ?r1))" .
  show ?thesis
    unfolding serve_def Let_def split_beta
    by (rule same_room_trans [OF same_room_trans [OF r2 same_room_set_player]
          same_room_quiet [OF quiet_sendQuestion]])
qed

lemma same_room_nextQuestion: "same_room r (nextQuestion d pid r)"
proof (cases "player_of r pid")
  case (Some p)
  obtain free r1 where x: "settleExpired d pid p r = (free, r1)" by fastforce
  have r1: "same_room r r1" using same_room_game [OF same_game_settleExpired [OF Some, of d p]] x by simp
  have "same_room r (reject q a b c r1)" "same_room r (reject q a b c r)" "same_room r (serve d pid q r1)" for q a b c
    by (rule same_room_trans [OF r1 same_room_quiet [OF quiet_reject]],
        rule same_room_quiet [OF quiet_reject], rule same_room_trans [OF r1 same_room_serve])
  then show ?thesis
    using r1 nextQuestion_running [OF Some] Some
    by (cases "r_status r = Running") (simp_all add: x Let_def nextQuestion_def)
qed (simp add: nextQuestion_def)

lemma same_room_answer: "same_room r (answer d pid qid oid r)"
proof (cases "player_of r pid")
  case (Some p)
  have rej: "same_room r (reject p a b c r)" "same_room r (rejectUnservedAnswer p qid r)" for a b c
    by (rule same_room_quiet [OF quiet_reject], rule same_room_quiet [OF quiet_rejectUnservedAnswer])
  have "player_of (snd (outcomeOf d p a oid r)) pid = Some p" for a
    using quiet_player_of_eq [OF quiet_outcomeOf] Some by metis
  then have "same_room r (snd (resolve d pid p a out True (snd (outcomeOf d p a oid r))))" for a out
    using same_room_trans [OF same_room_quiet [OF quiet_outcomeOf] same_room_game [OF same_game_resolve]] by blast
  then show ?thesis using Some rej by (simp add: answer_def split_beta split: option.split)
qed (simp add: answer_def)

lemma same_room_attachPlayer: "same_room r (snd (attachPlayer d pid s r))"
proof (cases "player_of r pid")
  case (Some p)
  let ?r1 = "drop_sink pid p r"
  have r1: "same_room r ?r1" by (auto simp: drop_sink_def close_def same_room_def split: option.split)
  obtain free r2 where x: "settleExpired d pid (player_at ?r1 pid) ?r1 = (free, r2)" by fastforce
  have "same_room ?r1 r2"
    using same_room_game [OF same_game_settleExpired [OF drop_sink_player [OF Some], of d "player_at ?r1 pid"]] x
    by simp
  then have r2: "same_room r r2" using r1 by (rule same_room_trans [rotated])
  have "same_room r2 (close s (send s m r2))" for m
    by (rule same_room_quiet [OF quiet_trans [OF quiet_send quiet_close]])
  moreover have "same_room r2 (resumeActive d q (send s m (set_player pid q r2)))" for q m
    by (rule same_room_trans [OF same_room_set_player same_room_quiet [OF quiet_trans [OF quiet_send quiet_resumeActive]]])
  ultimately show ?thesis using r2 same_room_trans by (simp add: attachPlayer_known [OF Some] x Let_def) blast
qed (simp add: attachPlayer_def)

lemma same_room_kick: "same_room r (kick d pid r)"
proof (cases "player_of r pid")
  case (Some p)
  obtain err s where x: "api_DeletePlayer (d_store d) pid (r_store r) = (err, s)" by fastforce
  let ?r1 = "r\<lparr>r_store := s, r_players := AList.delete pid (r_players r), r_order := removeID (r_order r) pid\<rparr>"
  let ?r2 = "forgetStanding d pid ?r1"
  let ?r3 = "case ps_sink p of None \<Rightarrow> ?r2
    | Some k \<Rightarrow> close k (send k (MPlayerKicked ''kicked by host'') ?r2)"
  have "quiet d ?r1 ?r2" by (rule quiet_forgetStanding)
  also have "quiet d ?r2 ?r3" by (simp add: quiet_trans [OF quiet_send quiet_close] split: option.split)
  also have "quiet d ?r3 (markLeaderboardDirty d ?r3)" by (rule quiet_markLeaderboardDirty)
  finally have "same_room ?r1 (endIfAllFinished d (markLeaderboardDirty d ?r3))"
    using same_room_trans [OF same_room_quiet same_room_endIfAllFinished] by blast
  then show ?thesis using Some x by (simp add: kick_def Let_def same_room_def split: option.split)
qed (simp add: kick_def)

lemma same_room_handle: "same_room r (handle d ev r)"
proof (cases ev)
  case EvRestoreBoard
  then show ?thesis by (simp add: same_room_quiet [OF quiet_restoreBoard])
next
  case (EvAddPlayer p)
  then show ?thesis by (simp add: addPlayerAndNotify_def send_def same_room_def Let_def split: option.split)
next
  case (EvAttachHost hid s)
  then show ?thesis by (simp add: attachHost_def send_def close_def same_room_def Let_def split: option.split)
next
  case (EvDetach s)
  then show ?thesis by (simp add: same_room_def)
next
  case EvStart
  then show ?thesis
    by (simp add: startSession_def broadcast_def armDeadline_def read_clock_def same_room_def Let_def
        split: sum.split prod.split)
next
  case EvDeadline
  then show ?thesis using same_room_endSession [of "r\<lparr>r_deadline := None\<rparr>" d] by (simp add: same_room_def)
next
  case EvLbTimer
  let ?r = "r\<lparr>r_lbWaiting := False, r_lbTimer := None\<rparr>"
  have "same_room r ?r" by (simp add: same_room_def)
  moreover have "same_room ?r (sendLeaderboard d ?r)"
    using unchanged_sendLeaderboard [of ?r d] by (simp add: unchanged_def same_room_def)
  ultimately show ?thesis using EvLbTimer by (simp add: lbTimerFires_def Let_def same_room_def)
next
  case EvShutdown
  then show ?thesis by (simp add: same_room_def)
qed (simp_all add: same_room_attachPlayer same_room_endSession same_room_kick same_room_nextQuestion
  same_room_answer)

lemma turn_fields:
  "r_questions (turn d ev r) = r_questions r" "r_id (turn d ev r) = r_id r"
  "r_jenjang (turn d ev r) = r_jenjang r"
  using same_room_handle [of r d ev] by (simp_all add: turn_def same_room_def stopTimers_def Let_def)

lemma synced_leave: "synced pr an good r \<Longrightarrow> synced pr an good ((stopTimers r)\<lparr>r_done := True\<rparr>)"
  by (erule synced_cong) (simp_all add: stopTimers_def player_of_def)

context game_store begin

lemma synced_turn:
  assumes api: "d_store d = api" and sy: "synced progress answered good_id r" and i: "room_inv d r"
    and m: "mono (d_clock d)" and qs: "questions_ok (r_questions r)" and en: "enabled d ev r"
    and join: "\<And>p. ev = EvAddPlayer p \<Longrightarrow> on_record progress answered good_id (r_store r) p"
    and live: "r_status r \<noteq> Ended"
  shows "synced progress answered good_id (turn d ev r)"
proof -
  have "synced progress answered good_id (handle d ev r)"
  proof (cases ev)
    case EvRestoreBoard
    then show ?thesis using synced_quiet [OF quiet_restoreBoard sy] by simp
  next
    case (EvAddPlayer p)
    have a: "synced progress answered good_id (addPlayer p r)"
      using synced_addPlayer [OF sy join [OF EvAddPlayer]] en EvAddPlayer by simp
    have "synced progress answered good_id (send s msg (addPlayer p r))" for s msg
      by (rule synced_quiet [OF quiet_send a])
    then show ?thesis using a EvAddPlayer by (simp add: addPlayerAndNotify_def Let_def split: option.split)
  next
    case EvLbTimer
    then show ?thesis using synced_quiet [OF quiet_lbTimerFires [OF live] sy] by simp
  next
    case EvDeadline
    have "synced progress answered good_id (r\<lparr>r_deadline := None\<rparr>)"
      using sy by (rule synced_cong) (simp_all add: player_of_def)
    then show ?thesis using synced_endSession [OF api] EvDeadline by simp
  next
    case EvShutdown
    have "synced progress answered good_id (closeAll r)"
      using sy by (rule synced_cong) (simp_all add: player_of_closeAll)
    then show ?thesis using EvShutdown by simp
  qed (use sy i m qs api in \<open>simp_all add: synced_attachPlayer synced_attachHost synced_detach
    synced_startSession synced_endSession synced_kick synced_nextQuestion synced_answer\<close>)
  then show ?thesis by (simp add: turn_def synced_leave Let_def)
qed

lemma synced_step:
  assumes api: "d_store d = api" and m: "mono (d_clock d)"
    and st: "sys_step (keeps_view progress answered) (on_record progress answered good_id) d r r'"
    and inv: "synced progress answered good_id r" "room_inv d r" "questions_ok (r_questions r)"
      "r_status r = Ended \<longrightarrow> r_done r"
  shows "synced progress answered good_id r' \<and> room_inv d r' \<and> questions_ok (r_questions r') \<and>
    (r_status r' = Ended \<longrightarrow> r_done r')"
  using st
proof cases
  case (event ev)
  have "room_step d r r'" unfolding event(1) by (rule room_step.take_event [OF event(2,3)])
  then have "room_inv d r' \<and> (r_status r' = Ended \<longrightarrow> r_done r')" using room_inv_step [OF m _ inv(2,4)] by blast
  moreover have "synced progress answered good_id r'"
    unfolding event(1) using event inv by (intro synced_turn [OF api inv(1,2) m inv(3)]) auto
  moreover have "r_questions r' = r_questions r" using event(1) by (simp add: turn_fields)
  ultimately show ?thesis using inv(3) by simp
next
  case idle
  then show ?thesis using inv synced_quiet [OF quiet_tick_read inv(1)] room_inv_quiet [OF quiet_tick_read m inv(2)]
    by simp
next
  case (others s)
  then show ?thesis using inv synced_others [OF inv(1) others(2)] by simp
qed

lemma synced_steps:
  assumes "sys_steps (keeps_view progress answered) (on_record progress answered good_id) d r r'"
    and "d_store d = api" "mono (d_clock d)"
    and "synced progress answered good_id r" "room_inv d r" "questions_ok (r_questions r)"
      "r_status r = Ended \<longrightarrow> r_done r"
  shows "synced progress answered good_id r' \<and> room_inv d r' \<and> questions_ok (r_questions r') \<and>
    (r_status r' = Ended \<longrightarrow> r_done r')"
  using assms by (induction rule: sys_steps.induct) (auto dest: synced_step [rotated 2])

end

subsection \<open>Loading a room\<close>

text \<open>The row of a player as the store reads it back has the totals on record.\<close>

definition loaded_from :: "('s \<Rightarrow> uid \<Rightarrow> totals option) \<Rightarrow> ('s \<Rightarrow> uid \<Rightarrow> string set) \<Rightarrow> (uid \<Rightarrow> bool) \<Rightarrow>
    's \<Rightarrow> question list \<Rightarrow> player list \<Rightarrow> bool" where
  "loaded_from pr an good s qs ps \<longleftrightarrow> (\<forall>p \<in> set ps. good (pl_id p) \<and>
     pr s (pl_id p) = Some (totals_of (length qs) (new_player_state p)) \<and>
     an s (pl_id p) = q_id ` set (take (nat (pl_currentIndex p)) qs))"

lemma synced_newRoom:
  assumes "loaded_from pr an good s qs ps"
  shows "synced pr an good (newRoom d data ps qs s b)"
proof -
  have f: "synced pr an good r \<Longrightarrow> r_store r = s \<Longrightarrow> r_questions r = qs \<Longrightarrow> loaded_from pr an good s qs ps \<Longrightarrow>
    synced pr an good (fold addPlayer ps r)" for r :: "('a, 'b) room"
  proof (induction ps arbitrary: r)
    case (Cons p ps)
    have same: "player_synced pr an good (addPlayer p r) pid x = player_synced pr an good r pid x" for pid x
      by (simp add: player_synced_def resolved_ids_def)
    have "player_synced pr an good r (pl_id p) (new_player_state p)"
      using Cons.prems by (simp add: loaded_from_def player_synced_def resolved_ids_def new_player_state_def)
    then have "synced pr an good (addPlayer p r)"
      using Cons.prems(1) same by (simp add: synced_def player_of_addPlayer)
    then show ?case using Cons by (simp add: loaded_from_def)
  qed simp
  let ?b = "blank_room data qs s b"
  have "synced pr an good (fold addPlayer ps ?b)"
    using assms by (intro f) (simp_all add: synced_def blank_room_def player_of_def)
  then have "synced pr an good ((fold addPlayer ps ?b)\<lparr>r_tick := k, r_deadline := t\<rparr>)" for k t
    by (rule synced_cong) (simp_all add: player_of_def)
  then show ?thesis
    using \<open>synced pr an good (fold addPlayer ps ?b)\<close>
    by (simp add: newRoom_def armDeadline_def read_clock_def Let_def)
qed

end
