(* ===== verification/GameStore.thy ===== *)
theory GameStore
  imports StoreInv Persist
begin

section \<open>The database store as the store of a room\<close>

text \<open>
  \<open>store_ops\<close> is \<open>*store.Store\<close> as the interface \<open>game.Store\<close>. Over a server that never loses
  the acknowledgement of a commit (\<open>reliable\<close>; it may still fail any round trip) it keeps the laws
  of \<open>game_store\<close>, and so a room and the database agree on every player, whatever the other users
  of the store do, and a room that is dropped at any point loads again as it was. With a lost
  acknowledgement this breaks: \<open>lost_commit_ack\<close>.
\<close>

definition store_ops :: "pg \<Rightarrow> db store_api" where
  "store_ops pg = \<lparr>api_RoomByID = RoomByID pg, api_PlayersOfRoom = PlayersOfRoom pg,
     api_QuestionsByIDs = QuestionsByIDs pg, api_MarkRoomStarted = MarkRoomStarted pg,
     api_MarkRoomEnded = MarkRoomEnded pg, api_DeletePlayer = DeletePlayer pg,
     api_SaveResult = SaveResult pg\<rparr>"

definition reliable :: "pg \<Rightarrow> pg" where
  "reliable pg = pg\<lparr>fault := (\<lambda>n. if fault pg n = AckLost then Fails else fault pg n)\<rparr>"

definition row_totals :: "player_row \<Rightarrow> totals" where
  "row_totals p = \<lparr>tl_score = pr_score p, tl_correct = pr_correctCount p, tl_totalMs = pr_totalMs p,
     tl_resolved = pr_currentIndex p, tl_streak = pr_streak p, tl_finished = (pr_finishedAt p \<noteq> None)\<rparr>"

definition db_progress :: "db \<Rightarrow> uid \<Rightarrow> totals option" where
  "db_progress d pid = map_option row_totals (find (\<lambda>p. pr_id p = pid) (tb_players (tabs d)))"

definition db_answered :: "db \<Rightarrow> uid \<Rightarrow> string set" where
  "db_answered d pid = set (map ar_questionID (filter (\<lambda>a. ar_playerID a = pid) (tb_answers (tabs d))))"

definition canonical :: "pg \<Rightarrow> uid \<Rightarrow> bool" where
  "canonical pg pid \<longleftrightarrow> uuid_parse pg pid = Some pid"

subsection \<open>The laws\<close>

lemma reliable_fields [simp]:
  "uuid_parse (reliable pg) = uuid_parse pg" "fault (reliable pg) n \<noteq> AckLost"
  by (simp_all add: reliable_def)

lemma find_map_id:
  "(\<And>x. pr_id (f x) = pr_id x) \<Longrightarrow>
   find (\<lambda>p. pr_id p = k) (map f ps) = map_option f (find (\<lambda>p. pr_id p = k) ps)"
  by (induction ps) auto

lemma find_id: "find (\<lambda>p. pr_id p = k) ps = Some p \<Longrightarrow> pr_id p = k"
  by (induction ps) (auto split: if_splits)

lemma find_exists: "\<exists>p \<in> set ps. pr_id p = k \<Longrightarrow> \<exists>p. find (\<lambda>p. pr_id p = k) ps = Some p"
  by (induction ps) auto

lemma answered_in_db: "answered_in (tabs d) pid q \<longleftrightarrow> q \<in> db_answered d pid"
  by (auto simp: answered_in_def db_answered_def)

lemma same_tables_view: "tabs d' = tabs d \<Longrightarrow> db_progress d' = db_progress d \<and> db_answered d' = db_answered d"
  by (simp add: db_progress_def db_answered_def fun_eq_iff)

text \<open>The casts to the column types change nothing.\<close>

lemma storable_casts:
  assumes "storable r"
  shows "toInt16 (rs_points r) = rs_points r" "toInt32 (rs_score r) = rs_score r"
    "toInt16 (rs_correctCount r) = rs_correctCount r" "toInt32 (rs_totalMs r) = rs_totalMs r"
    "toInt16 (rs_currentIndex r) = rs_currentIndex r" "toInt16 (rs_streak r) = rs_streak r"
  using assms by (simp_all add: storable_def toInt16_id toInt32_id)

lemma saves_view:
  assumes "saves pid r (tabs d) (tabs d')" "storable r"
  shows "\<exists>t. db_progress d pid = Some t \<and>
      db_progress d' = (db_progress d)(pid \<mapsto> saved_totals r (tl_finished t)) \<and>
      rs_questionID r \<notin> db_answered d pid \<and>
      db_answered d' = (db_answered d)(pid := insert (rs_questionID r) (db_answered d pid))"
proof -
  obtain now1 now2 n t2 t' where ins: "InsertAnswer (answerParams pid r) now1 (tabs d) = Inr (n, t2)" "n \<noteq> 0"
    and upd: "updateParams pid r now2 t2 = Inr ((), t')" and t': "tabs d' = t'"
    using assms(1) by (auto simp: saves_def)
  have t2: "t2 = tabs d\<lparr>tb_answers := tb_answers (tabs d) @ [answerParams pid r]\<rparr>"
    by (rule InsertAnswer_nonzero(1) [OF ins])
  obtain p where p: "find (\<lambda>p. pr_id p = pid) (tb_players (tabs d)) = Some p"
    using InsertAnswer_nonzero(3) [OF ins] find_exists by (fastforce simp: answerParams_def)
  let ?f = "\<lambda>p. if pr_id p = pid
    then p\<lparr>pr_score := rs_score r, pr_correctCount := rs_correctCount r, pr_totalMs := rs_totalMs r,
           pr_currentIndex := rs_currentIndex r, pr_streak := rs_streak r,
           pr_finishedAt := (if rs_finished r then (case pr_finishedAt p of None \<Rightarrow> Some now2 | x \<Rightarrow> x)
                             else pr_finishedAt p)\<rparr> else p"
  have d': "tb_players (tabs d') = map ?f (tb_players (tabs d))" "tb_answers (tabs d') = tb_answers t2"
    using upd unfolding updateParams_def storable_casts [OF assms(2)] t2 t'
    by (auto simp: UpdatePlayerProgress_def split: if_splits)
  have rt: "row_totals (?f x) = (if pr_id x = pid then saved_totals r (tl_finished (row_totals x)) else row_totals x)" for x
    by (auto simp: row_totals_def saved_totals_def split: option.split)
  have "db_progress d' k = map_option (\<lambda>x. row_totals (?f x)) (find (\<lambda>p. pr_id p = k) (tb_players (tabs d)))" for k
    unfolding db_progress_def d' by (subst find_map_id) (simp_all add: option.map_comp o_def)
  then have "db_progress d' k = map_option (\<lambda>x. if pr_id x = pid
      then saved_totals r (tl_finished (row_totals x)) else row_totals x)
      (find (\<lambda>p. pr_id p = k) (tb_players (tabs d)))" for k
    unfolding rt .
  then have "db_progress d' k = (if k = pid then Some (saved_totals r (tl_finished (row_totals p)))
      else db_progress d k)" for k
    using p by (cases "find (\<lambda>p. pr_id p = k) (tb_players (tabs d))")
      (auto simp: db_progress_def dest: find_id)
  moreover have "db_answered d' k = (if k = pid then insert (rs_questionID r) (db_answered d pid) else db_answered d k)" for k
    unfolding db_answered_def d' t2 by (auto simp: answerParams_def)
  moreover have "rs_questionID r \<notin> db_answered d pid"
    using InsertAnswer_nonzero(2) [OF ins] by (simp add: answered_in_db answerParams_def)
  ultimately show ?thesis
    using p by (intro exI [of _ "row_totals p"]) (simp add: fun_eq_iff db_progress_def)
qed

lemma SaveResult_reliable:
  assumes "SaveResult (reliable pg) r d = (err, d')" "uuid_parse pg (rs_playerID r) = Some pid"
  shows "err = None \<and> saves pid r (tabs d) (tabs d') \<or>
    err \<noteq> None \<and> tabs d' = tabs d \<and> (err = Some DuplicateAnswer \<longrightarrow> rs_questionID r \<in> db_answered d pid)"
  using SaveResult_effect [of "reliable pg" r pid d] assms
  by (auto simp: save_outcome_def answered_in_db)

lemma exec_reliable:
  assumes "exec (reliable pg) s d = (x, d')"
  shows "(\<exists>e. x = Inl e) \<and> tabs d' = tabs d \<or> (\<exists>now a. x = Inr a \<and> s now (tabs d) = Inr (a, tabs d'))"
proof (cases "fault (reliable pg) (trips d)")
  case NoFault
  then show ?thesis using assms by (auto simp: exec_def Let_def split: sum.splits)
next
  case Fails
  then show ?thesis using assms by (auto simp: exec_def)
qed simp

lemma row_statements_tables:
  "MarkRoomStartedRow rid now t = Inr (n, t') \<Longrightarrow> tb_players t' = tb_players t \<and> tb_answers t' = tb_answers t"
  "MarkRoomEndedRow rid now t = Inr (u, t') \<Longrightarrow> tb_players t' = tb_players t \<and> tb_answers t' = tb_answers t"
  "DeletePlayerRow pid now t = Inr (u, t') \<Longrightarrow> tb_players t' = filter (\<lambda>p. pr_id p \<noteq> pid) (tb_players t) \<and>
     tb_answers t' = filter (\<lambda>a. ar_playerID a \<noteq> pid) (tb_answers t)"
  by (auto simp: MarkRoomStartedRow_def MarkRoomEndedRow_def DeletePlayerRow_def Let_def)

lemma tables_ops_reliable:
  "tb_players (tabs (snd (MarkRoomStarted (reliable pg) i d))) = tb_players (tabs d)"
  "tb_answers (tabs (snd (MarkRoomStarted (reliable pg) i d))) = tb_answers (tabs d)"
  "tb_players (tabs (snd (MarkRoomEnded (reliable pg) i d))) = tb_players (tabs d)"
  "tb_answers (tabs (snd (MarkRoomEnded (reliable pg) i d))) = tb_answers (tabs d)"
  by (auto simp: MarkRoomStarted_def MarkRoomEnded_def
      dest!: exec_reliable row_statements_tables split: option.split prod.split sum.split)

lemma find_filter_other: "k \<noteq> pid \<Longrightarrow> find (\<lambda>p. pr_id p = k) (filter (\<lambda>p. pr_id p \<noteq> pid) ps) = find (\<lambda>p. pr_id p = k) ps"
  by (induction ps) auto

lemma DeletePlayer_reliable:
  assumes "DeletePlayer (reliable pg) pid d = (err, d')"
  shows "err \<noteq> None \<Longrightarrow> tabs d' = tabs d"
    and "uuid_parse pg pid = Some pid \<Longrightarrow> err = None \<Longrightarrow>
      tb_players (tabs d') = filter (\<lambda>p. pr_id p \<noteq> pid) (tb_players (tabs d)) \<and>
      tb_answers (tabs d') = filter (\<lambda>a. ar_playerID a \<noteq> pid) (tb_answers (tabs d))"
  using assms by (auto simp: DeletePlayer_def dest!: exec_reliable row_statements_tables
      split: option.splits prod.splits sum.splits)

lemma DeletePlayer_view:
  assumes "uuid_parse pg pid = Some pid" "k \<noteq> pid"
  shows "db_progress (snd (DeletePlayer (reliable pg) pid d)) k = db_progress d k"
    and "db_answered (snd (DeletePlayer (reliable pg) pid d)) k = db_answered d k"
proof -
  obtain err d' where e: "DeletePlayer (reliable pg) pid d = (err, d')" by fastforce
  have "db_progress d' k = db_progress d k \<and> db_answered d' k = db_answered d k"
  proof (cases err)
    case None
    have "filter (\<lambda>a. ar_playerID a = k) (filter (\<lambda>a. ar_playerID a \<noteq> pid) as) =
        filter (\<lambda>a. ar_playerID a = k) as" for as :: "answer_row list"
      using assms(2) by (induction as) auto
    then show ?thesis
      using DeletePlayer_reliable(2) [OF e assms(1) None]
      by (simp add: db_progress_def db_answered_def find_filter_other [OF assms(2)] del: filter_filter set_filter)
  next
    case (Some x)
    then show ?thesis using DeletePlayer_reliable(1) [OF e] same_tables_view [of d' d] by simp
  qed
  then show "db_progress (snd (DeletePlayer (reliable pg) pid d)) k = db_progress d k"
    "db_answered (snd (DeletePlayer (reliable pg) pid d)) k = db_answered d k" by (simp_all add: e)
qed

interpretation st: game_store "store_ops (reliable pg)" db_progress db_answered "canonical pg" for pg
proof
  fix r s s'
  assume g: "canonical pg (rs_playerID r)" and st: "storable r"
    and e: "api_SaveResult (store_ops (reliable pg)) r s = (None, s')"
  then show "\<exists>t. db_progress s (rs_playerID r) = Some t \<and>
      db_progress s' = (db_progress s)(rs_playerID r \<mapsto> saved_totals r (tl_finished t)) \<and>
      rs_questionID r \<notin> db_answered s (rs_playerID r) \<and>
      db_answered s' = (db_answered s)(rs_playerID r := insert (rs_questionID r) (db_answered s (rs_playerID r)))"
    using SaveResult_reliable [of pg r s None s' "rs_playerID r"] saves_view [OF _ st]
    by (simp add: store_ops_def canonical_def)
next
  fix r s e s'
  assume e: "api_SaveResult (store_ops (reliable pg)) r s = (Some e, s')"
  then have "tabs s' = tabs s"
    using SaveResult_reliable [of pg r s "Some e" s']
    by (cases "uuid_parse pg (rs_playerID r)") (auto simp: store_ops_def SaveResult_def)
  then show "db_progress s' = db_progress s \<and> db_answered s' = db_answered s" by (rule same_tables_view)
next
  fix r s s'
  assume "canonical pg (rs_playerID r)"
    "api_SaveResult (store_ops (reliable pg)) r s = (Some DuplicateAnswer, s')"
  then show "rs_questionID r \<in> db_answered s (rs_playerID r)"
    using SaveResult_reliable [of pg r s "Some DuplicateAnswer" s' "rs_playerID r"]
    by (simp add: store_ops_def canonical_def)
next
  fix pid s e s'
  assume "api_DeletePlayer (store_ops (reliable pg)) pid s = (Some e, s')"
  then have "tabs s' = tabs s" using DeletePlayer_reliable(1) by (simp add: store_ops_def)
  then show "db_progress s' = db_progress s \<and> db_answered s' = db_answered s" by (rule same_tables_view)
next
  fix pid k s
  assume "canonical pg pid" "k \<noteq> pid"
  then show "db_progress (snd (api_DeletePlayer (store_ops (reliable pg)) pid s)) k = db_progress s k"
    "db_answered (snd (api_DeletePlayer (store_ops (reliable pg)) pid s)) k = db_answered s k"
    using DeletePlayer_view by (simp_all add: store_ops_def canonical_def)
qed (simp_all add: store_ops_def db_progress_def db_answered_def tables_ops_reliable fun_eq_iff)

subsection \<open>The other users of the store\<close>

lemma joins_view:
  assumes "joins rid i (tabs d) pid (tabs d')" "db_progress d k \<noteq> None"
  shows "db_progress d' k = db_progress d k \<and> db_answered d' k = db_answered d k"
proof -
  obtain now where n: "InsertPlayer pid (join_params rid i) now (tabs d) = Inr (pid, tabs d')"
    using assms(1) by (auto simp: joins_def)
  obtain row where "tb_players (tabs d') = tb_players (tabs d) @ [row]"
    using InsertPlayer_tables(1) [OF n] by blast
  moreover have "find P xs = Some y \<Longrightarrow> find P (xs @ ys) = Some y" for P and xs ys :: "player_row list" and y
    by (induction xs) (auto split: if_splits)
  ultimately show ?thesis
    using assms(2) InsertPlayer_tables(2) [OF n] by (auto simp: db_progress_def db_answered_def)
qed

lemma creates_view:
  assumes "creates pg k k' hostID pin i (tabs d) rid (tabs d')"
  shows "db_progress d' = db_progress d \<and> db_answered d' = db_answered d"
proof -
  obtain now where n: "InsertRoom rid (create_params hostID pin i) now (tabs d) = Inr (rid, tabs d')"
    using assms by (auto simp: creates_def)
  show ?thesis using InsertRoom_tables(2) [OF n] by (simp add: db_progress_def db_answered_def fun_eq_iff)
qed

text \<open>
  The operations of the other goroutines: other rooms saving and deleting their players, joins
  (into any room), new rooms, and the operations that touch neither players nor answers.
\<close>

inductive other_step :: "pg \<Rightarrow> uid set \<Rightarrow> db \<Rightarrow> db \<Rightarrow> bool" for pg ids where
  save: "(\<And>pid. uuid_parse pg (rs_playerID r) = Some pid \<Longrightarrow> pid \<notin> ids) \<Longrightarrow> storable r \<Longrightarrow>
     other_step pg ids d (snd (SaveResult (reliable pg) r d))"
| delete: "uuid_parse pg i = Some i \<Longrightarrow> i \<notin> ids \<Longrightarrow>
     other_step pg ids d (snd (DeletePlayer (reliable pg) i d))"
| join: "other_step pg ids d (snd (JoinRoom (reliable pg) np d))"
| create: "other_step pg ids d (snd (CreateRoom (reliable pg) random nr d))"
| start: "other_step pg ids d (snd (MarkRoomStarted (reliable pg) i d))"
| finish: "other_step pg ids d (snd (MarkRoomEnded (reliable pg) i d))"

lemma other_step_view:
  assumes "other_step pg ids d d'" "k \<in> ids" "db_progress d k \<noteq> None"
  shows "db_progress d' k = db_progress d k \<and> db_answered d' k = db_answered d k"
  using assms(1)
proof cases
  case (save r)
  obtain err where e: "SaveResult (reliable pg) r d = (err, d')" using save(1) by (cases "SaveResult (reliable pg) r d") auto
  show ?thesis
  proof (cases "uuid_parse pg (rs_playerID r)")
    case None
    then show ?thesis using e by (simp add: SaveResult_def)
  next
    case (Some pid)
    then have "k \<noteq> pid" using save(2) assms(2) by auto
    then show ?thesis
      using SaveResult_reliable [OF e Some] saves_view [of pid r d d'] save(3) same_tables_view [of d' d]
      by auto
  qed
next
  case (delete i)
  then have "k \<noteq> i" using assms(2) by auto
  then show ?thesis using DeletePlayer_view [OF delete(2)] delete(1) by simp
next
  case (join np)
  show ?thesis
  proof (cases "uuid_parse pg (np_roomID np)")
    case None
    then show ?thesis using join by (simp add: JoinRoom_def)
  next
    case (Some rid)
    then have "join_outcome (reliable pg) rid np d (JoinRoom (reliable pg) np d)" by (intro JoinRoom_outcome) simp
    then show ?thesis
      using joins_view [OF _ assms(3)] same_tables_view [of d' d] join
      by (auto simp: join_outcome_def split: sum.splits)
  qed
next
  case (create random nr)
  show ?thesis
  proof (cases "uuid_parse pg (nr_hostID nr)")
    case None
    then show ?thesis using create by (simp add: CreateRoom_def)
  next
    case (Some hostID)
    then have "create_outcome (reliable pg) (trips d) hostID nr (tabs d) (CreateRoom (reliable pg) random nr d)"
      by (intro CreateRoom_outcome) simp
    then show ?thesis
      using creates_view [of "reliable pg" _ _ hostID _ nr d _ d'] same_tables_view [of d' d] create
      by (auto simp: create_outcome_def split: sum.splits)
  qed
next
  case (start i)
  then show ?thesis by (simp add: db_progress_def db_answered_def tables_ops_reliable)
next
  case (finish i)
  then show ?thesis by (simp add: db_progress_def db_answered_def tables_ops_reliable)
qed

text \<open>What \<open>JoinRoom\<close> returns is on record as a new player.\<close>

lemma find_append_new:
  "pid \<notin> set (map pr_id ps) \<Longrightarrow> pr_id row = pid \<Longrightarrow> find (\<lambda>p. pr_id p = pid) (ps @ [row]) = Some row"
  by (induction ps) auto

lemma JoinRoom_on_record:
  assumes "JoinRoom (reliable pg) i d = (Inr p, d')" "tables_ok (tabs d)" "\<And>n. canonical pg (gen_uuid pg n)"
  shows "fresh_player p" "canonical pg (pl_id p) \<Longrightarrow> on_record db_progress db_answered (canonical pg) d' p"
proof -
  obtain rid where u: "uuid_parse pg (np_roomID i) = Some rid"
    using assms(1) by (cases "uuid_parse pg (np_roomID i)") (auto simp: JoinRoom_def)
  then have "join_outcome (reliable pg) rid i d (JoinRoom (reliable pg) i d)" by (intro JoinRoom_outcome) simp
  then obtain pid school where p: "p = joined_player i pid school" and j: "joins rid i (tabs d) pid (tabs d')"
    using assms(1) by (auto simp: join_outcome_def)
  show "fresh_player p" by (simp add: p joined_player_def fresh_player_def)
  obtain now where n: "InsertPlayer pid (join_params rid i) now (tabs d) = Inr (pid, tabs d')"
    using j by (auto simp: joins_def)
  obtain row where row: "tb_players (tabs d') = tb_players (tabs d) @ [row]" "pr_id row = pid"
    "row_totals row = zero_totals"
    using InsertPlayer_tables(1) [OF n] by (auto simp: row_totals_def zero_totals_def)
  have new: "pid \<notin> set (map pr_id (tb_players (tabs d)))" by (rule InsertPlayer_tables(3) [OF n])
  then have "find (\<lambda>p. pr_id p = pid) (tb_players (tabs d) @ [row]) = Some row"
    using row(2) by (rule find_append_new)
  then have "db_progress d' pid = Some zero_totals" by (simp add: db_progress_def row)
  moreover have "db_answered d' pid = {}"
    using InsertPlayer_tables(2) [OF n] assms(2) new by (force simp: db_answered_def tables_ok_def)
  ultimately show "canonical pg (pl_id p) \<Longrightarrow> on_record db_progress db_answered (canonical pg) d' p"
    by (simp add: on_record_def p joined_player_def)
qed

subsection \<open>Memory and database agree\<close>

text \<open>A room is loaded from rows that fit its questions, and they are what is on record.\<close>

definition loads :: "pg \<Rightarrow> db \<Rightarrow> room_data \<Rightarrow> player list \<Rightarrow> question list \<Rightarrow> bool" where
  "loads pg s data ps qs \<longleftrightarrow> rd_status data \<noteq> Ended \<and> questions_ok qs \<and> players_loaded_ok qs ps \<and>
     loaded_from db_progress db_answered (canonical pg) s qs ps"

abbreviation db_runs :: "pg \<Rightarrow> (db, 'b) deps \<Rightarrow> (db, 'b) room \<Rightarrow> (db, 'b) room \<Rightarrow> bool" where
  "db_runs pg \<equiv> sys_steps (keeps_view db_progress db_answered)
     (on_record db_progress db_answered (canonical pg))"

lemma db_room_synced:
  assumes "mono (d_clock d)" "d_store d = store_ops (reliable pg)" "loads pg s data ps qs"
    and "db_runs pg d (newRoom d data ps qs s b) r"
  shows "synced db_progress db_answered (canonical pg) r \<and> room_inv d r \<and> questions_ok (r_questions r)"
  using st.synced_steps [OF assms(4,2,1)] assms(3)
    synced_newRoom [of db_progress db_answered "canonical pg" s qs ps d data b]
    room_inv_newRoom [OF assms(1), of qs ps data s b]
  by (auto simp: loads_def newRoom_fields)

text \<open>
  C1. In every state of a running room, whatever its events, whatever the other users of the
  database do in between and whatever round trips fail, the database holds for every player of the
  room exactly the totals the room has in memory, and exactly the answers to the questions the
  player has resolved: no answer is lost, none counts twice.
\<close>

theorem memory_matches_database:
  assumes "mono (d_clock d)" "d_store d = store_ops (reliable pg)" "loads pg s data ps qs"
    and "db_runs pg d (newRoom d data ps qs s b) r" "player_of r pid = Some p"
  shows "db_progress (r_store r) pid = Some (totals_of (length (r_questions r)) p) \<and>
    db_answered (r_store r) pid = resolved_ids r p"
  using db_room_synced [OF assms(1-4)] assms(5) by (simp_all add: synced_def player_synced_def)

lemma find_distinct_id:
  "distinct (map pr_id ps) \<Longrightarrow> p \<in> set ps \<Longrightarrow> find (\<lambda>q. pr_id q = pr_id p) ps = Some p"
  by (rule find_map_unique)

lemma PlayersOfRoom_rows:
  assumes "PlayersOfRoom (reliable pg) rid d = (Inr ps, d')" "p \<in> set ps" "tables_ok (tabs d)"
  shows "db_progress d (pl_id p) = Some \<lparr>tl_score = pl_score p, tl_correct = pl_correctCount p,
    tl_totalMs = pl_totalMs p, tl_resolved = pl_currentIndex p, tl_streak = pl_streak p,
    tl_finished = pl_finished p\<rparr>"
proof -
  obtain u where u: "uuid_parse pg rid = Some u"
    using assms(1) by (cases "uuid_parse pg rid") (auto simp: PlayersOfRoom_def)
  obtain rows where e: "exec (reliable pg) (ListRoomPlayers u) d = (Inr rows, d')"
    and ps: "ps = map playerFromRow rows"
    using assms(1) u by (auto simp: PlayersOfRoom_def split: prod.splits sum.splits)
  obtain now where "ListRoomPlayers u now (tabs d) = Inr (rows, tabs d')"
    using exec_reliable [OF e] by auto
  then obtain row where row: "row \<in> set (tb_players (tabs d))" "pl_id p = pr_id row"
    "pl_score p = pr_score row" "pl_correctCount p = pr_correctCount row" "pl_totalMs p = pr_totalMs row"
    "pl_currentIndex p = pr_currentIndex row" "pl_streak p = pr_streak row"
    "pl_finished p = (pr_finishedAt row \<noteq> None)"
    using assms(2) ps by (auto simp: ListRoomPlayers_def playerFromRow_def)
  then show ?thesis
    using find_distinct_id [OF _ row(1)] assms(3)
    by (simp add: db_progress_def row_totals_def tables_ok_def)
qed

text \<open>
  C14. Crash recovery: reading the players of the room back from the database at any moment of its
  run gives, for each player the room has in memory, the same score, correct answers, time, streak
  and position, and the player counts as finished in the database exactly when the last question
  is resolved.
\<close>

theorem reload_restores_totals:
  assumes "mono (d_clock d)" "d_store d = store_ops (reliable pg)" "loads pg s data ps qs"
    and "db_runs pg d (newRoom d data ps qs s b) r" "tables_ok (tabs (r_store r))"
    and "PlayersOfRoom (reliable pg) rid (r_store r) = (Inr ps', s')" "p' \<in> set ps'"
    and "player_of r (pl_id p') = Some p"
  shows "totals_of (length (r_questions r)) (new_player_state p') = totals_of (length (r_questions r)) p \<and>
    (pl_finished p' \<longleftrightarrow> 0 < ps_resolved p \<and> int (length (r_questions r)) \<le> ps_resolved p)"
proof -
  have "db_progress (r_store r) (pl_id p') = Some (totals_of (length (r_questions r)) p)"
    using db_room_synced [OF assms(1-4)] assms(8) by (simp add: synced_def player_synced_def)
  then show ?thesis
    using PlayersOfRoom_rows [OF assms(6,7,5)] by (simp_all add: totals_of_def new_player_state_def)
qed

text \<open>
  Non-interference: the operations other goroutines run on the same database (saving and
  deleting players of other rooms, joins into any room, new rooms, starts and ends) leave the
  totals and the answers of this room's players as they are.
\<close>

theorem others_do_not_interfere:
  assumes "other_step pg ids d d'" "\<forall>k \<in> ids. db_progress d k \<noteq> None"
  shows "keeps_view db_progress db_answered ids d d'"
  using other_step_view [OF assms(1)] assms(2) by (simp add: keeps_view_def)

text \<open>
  The question on a player's screen has never been answered as far as the database knows, so
  no answer of a running room is ever refused as a duplicate.
\<close>

theorem no_duplicate_refusal:
  assumes "mono (d_clock d)" "d_store d = store_ops (reliable pg)" "loads pg s data ps qs"
    and "db_runs pg d (newRoom d data ps qs s b) r"
    and "player_of r pid = Some p" "ps_active p = Some a"
  shows "fst (save_call d p a out r) \<noteq> Some DuplicateAnswer"
  using st.never_duplicate [OF assms(2) _ _ assms(5,6)] db_room_synced [OF assms(1-4)] by blast

subsection \<open>A lost acknowledgement\<close>

text \<open>
  C37. The reverse, on a server that may lose the acknowledgement of a commit: once the answer to
  the active question is on record while the room does not know it, no answer and no timeout gets
  the player past that question. Every attempt fails and leaves the player as before.
\<close>

theorem stuck_after_lost_ack:
  assumes "d_store d = store_ops pg" "canonical pg (pl_id (ps_info p))" "ps_active p = Some a"
    and "q_id (aq_question a) \<in> db_answered (r_store r) (pl_id (ps_info p))"
  shows "fst (resolve d pid p a out ann r) = False \<and>
    player_of (snd (resolve d pid p a out ann r)) = player_of r \<and>
    db_answered (r_store (snd (resolve d pid p a out ann r))) = db_answered (r_store r)"
proof -
  let ?res = "result_of p a out (advance p out) (finishes r p)"
  obtain err s where c: "save_call d p a out r = (err, s)" by fastforce
  then have e: "SaveResult pg ?res (r_store r) = (err, s)" using assms(1) by (simp add: save_call_def store_ops_def)
  have u: "uuid_parse pg (rs_playerID ?res) = Some (pl_id (ps_info p))"
    using assms(2) by (simp add: canonical_def)
  have no: "\<not> saves (pl_id (ps_info p)) ?res (tabs (r_store r)) t" for t
  proof
    assume "saves (pl_id (ps_info p)) ?res (tabs (r_store r)) t"
    then obtain now n t2 where "InsertAnswer (answerParams (pl_id (ps_info p)) ?res) now (tabs (r_store r)) = Inr (n, t2)"
      "n \<noteq> 0" by (auto simp: saves_def)
    from InsertAnswer_nonzero(2) [OF this] show False
      using assms(4) by (simp add: answered_in_db answerParams_def)
  qed
  then obtain x where x: "err = Some x" "tabs s = tabs (r_store r)"
    using SaveResult_effect [OF u, of "r_store r"] e by (auto simp: save_outcome_def)
  have v: "db_answered s = db_answered (r_store r)" using same_tables_view [OF x(2)] by simp
  have r: "resolve d pid p a out ann r = (False, rejectFailedSave p x (r\<lparr>r_store := s\<rparr>))"
    using c x(1) by (simp add: resolve_refused)
  have "player_of (rejectFailedSave p x (r\<lparr>r_store := s\<rparr>)) = player_of r"
    using quiet_player_of_eq [OF quiet_rejectFailedSave [of d "r\<lparr>r_store := s\<rparr>" p x]] by simp
  moreover have "db_answered (r_store (rejectFailedSave p x (r\<lparr>r_store := s\<rparr>))) = db_answered (r_store r)"
    using quiet_fields(12) [OF quiet_rejectFailedSave [of d "r\<lparr>r_store := s\<rparr>" p x]] v by simp
  ultimately show ?thesis by (simp add: r)
qed

end
