(* ===== verification/Gameplay.thy ===== *)
theory Gameplay
  imports Frame
begin

section \<open>What the operations of a room do\<close>

text \<open>
  The functional behaviour of the handlers, branch by branch, and what the sinks are told: the
  status of a room, answers that count and answers that are rejected, the next question, the end
  of a game, the podium, the deadline.
\<close>

subsection \<open>The log only grows\<close>

definition says :: "('s, 'b) room \<Rightarrow> ('s, 'b) room \<Rightarrow> bool" where
  "says r r' \<longleftrightarrow> (\<exists>xs. r_out r' = r_out r @ xs)"

lemma says_refl [simp, intro!]: "says r r"
  by (simp add: says_def)

lemma says_trans [trans]: "says r r' \<Longrightarrow> says r' r'' \<Longrightarrow> says r r''"
  by (auto simp: says_def)

lemma says_same: "r_out r' = r_out r \<Longrightarrow> says r r'"
  by (simp add: says_def)

lemma emit_opt_log: "\<exists>xs. emit_opt h x out = out @ xs"
  by (auto simp: emit_opt_def emit_def split: option.split)

lemma fold_emit_log:
  "\<exists>xs. fold (\<lambda>(pid, p). emit_opt (ps_sink p) x) ps out = out @ xs"
proof (induction ps arbitrary: out)
  case (Cons a ps)
  obtain pid p where a: "a = (pid, p)" by fastforce
  obtain ys where "emit_opt (ps_sink p) x out = out @ ys" using emit_opt_log by blast
  then show ?case using Cons [of "out @ ys"] a by auto
qed simp

lemma says_send: "says r (send s m r)"
  by (simp add: says_def send_def emit_def)

lemma says_close: "says r (close s r)"
  by (simp add: says_def close_def emit_def)

lemma says_sendTo: "says r (sendTo p m r)"
  by (simp add: sendTo_def says_send split: option.split)

lemma fold_emit_opt_log:
  "\<exists>xs. fold (\<lambda>(pid, p). emit_opt (ps_sink p) x) ps (emit_opt h x out) = out @ xs"
  using fold_emit_log [of x ps "emit_opt h x out"] emit_opt_log [of h x out] by auto

lemma says_broadcast: "says r (broadcast m r)"
  using fold_emit_opt_log by (simp add: says_def broadcast_def)

lemma says_closeAll: "says r (closeAll r)"
  using fold_emit_opt_log by (simp add: says_def closeAll_def)

lemma says_endSession: "says r (endSession d r)"
proof -
  have "says r (closeAll (broadcast m (r\<lparr>r_store := s, r_status := st\<rparr>)))" for m s st
    using says_trans [OF says_same says_trans [OF says_broadcast says_closeAll], of "r\<lparr>r_store := s, r_status := st\<rparr>" r m]
    by simp
  then show ?thesis by (simp add: endSession_def split_beta Let_def)
qed

lemma says_endIfAllFinished: "says r (endIfAllFinished d r)"
  using endIfAllFinished_cases [of d r] says_endSession [of r d] by auto

lemma rankedIDs_out: "r_out (snd (rankedIDs d r)) = r_out r"
  by (auto simp: rankedIDs_def saveStandings_def Let_def split: option.split prod.split)

lemma says_sendLeaderboard: "says r (sendLeaderboard d r)"
proof -
  have b: "says r (broadcast m (snd (rankedIDs d r)))" for m
    by (rule says_trans [OF says_same says_broadcast]) (rule rankedIDs_out)
  show ?thesis
    unfolding sendLeaderboard_def split_beta Let_def read_clock_def
    by (rule says_trans [OF b says_same]) simp
qed

lemma says_markLeaderboardDirty: "says r (markLeaderboardDirty d r)"
proof -
  have "says r (sendLeaderboard d (r\<lparr>r_lbDirty := True, r_tick := Suc (r_tick r)\<rparr>))"
    by (rule says_trans [OF says_same says_sendLeaderboard]) simp
  then show ?thesis
    by (auto simp: markLeaderboardDirty_def read_clock_def Let_def says_def split: option.split)
qed

subsection \<open>The status of a room\<close>

fun status_rank :: "status \<Rightarrow> nat" where
  "status_rank Lobby = 0"
| "status_rank Running = 1"
| "status_rank Ended = 2"

text \<open>Nearly every operation leaves the status alone or ends the room.\<close>

definition may_end :: "('s, 'b) room \<Rightarrow> ('s, 'b) room \<Rightarrow> bool" where
  "may_end r r' \<longleftrightarrow> r_status r' = r_status r \<or> r_status r' = Ended"

lemma may_end_refl [simp]: "may_end r r"
  by (simp add: may_end_def)

lemma may_end_trans [trans]: "may_end r r' \<Longrightarrow> may_end r' r'' \<Longrightarrow> may_end r r''"
  by (auto simp: may_end_def)

lemma may_end_quiet: "quiet d r r' \<Longrightarrow> may_end r r'"
  by (simp add: may_end_def quiet_fields)

lemma may_end_endIfAllFinished: "may_end r (endIfAllFinished d r)"
  using endIfAllFinished_cases [of d r] endSession_fields(1) [of d r] by (auto simp: may_end_def)

interpretation ends: player_frame d pid may_end for d :: "('s, 'b) deps" and pid
  by unfold_locales (auto simp: may_end_endIfAllFinished may_end_quiet intro: may_end_trans, simp_all add: may_end_def)

lemma may_end_kick: "may_end r (kick d pid r)"
proof (cases "player_of r pid")
  case (Some p)
  obtain err s where x: "api_DeletePlayer (d_store d) pid (r_store r) = (err, s)" by fastforce
  let ?r1 = "r\<lparr>r_store := s, r_players := AList.delete pid (r_players r), r_order := removeID (r_order r) pid\<rparr>"
  let ?r2 = "forgetStanding d pid ?r1"
  let ?r3 = "case ps_sink p of None \<Rightarrow> ?r2
    | Some k \<Rightarrow> close k (send k (MPlayerKicked ''kicked by host'') ?r2)"
  have "quiet d ?r1 ?r2" by (rule quiet_forgetStanding)
  also have "quiet d ?r2 ?r3" by (simp add: quiet_trans [OF quiet_send quiet_close] split: option.split)
  also have "quiet d ?r3 (markLeaderboardDirty d ?r3)" by (rule quiet_markLeaderboardDirty)
  finally have "may_end ?r1 (endIfAllFinished d (markLeaderboardDirty d ?r3))"
    using may_end_trans [OF may_end_quiet may_end_endIfAllFinished] by blast
  then show ?thesis using Some x by (simp add: kick_def Let_def may_end_def split: option.split)
qed (simp add: kick_def)

lemma startSession_status:
  "r_status (startSession d r) =
     (if r_status r = Lobby \<and> (\<exists>s. api_MarkRoomStarted (d_store d) (r_id r) (r_store r) = (Inr True, s))
      then Running else r_status r)"
  by (auto simp: startSession_def broadcast_def armDeadline_def read_clock_def Let_def
      split: sum.split prod.split)

lemma status_handle:
  "r_status (handle d ev r) = r_status r \<or> r_status (handle d ev r) = Ended \<or>
   ev = EvStart \<and> r_status r = Lobby \<and> r_status (handle d ev r) = Running"
proof -
  have s: "may_end r r' \<Longrightarrow> r_status r' = r_status r \<or> r_status r' = Ended" for r' :: "('a, 'b) room"
    by (simp add: may_end_def)
  have fire: "r_status (lbTimerFires d r) = r_status r"
    using unchanged_sendLeaderboard [of "r\<lparr>r_lbWaiting := False, r_lbTimer := None\<rparr>" d]
    by (simp add: lbTimerFires_def unchanged_def Let_def)
  show ?thesis
    using s [OF ends.rel_attachPlayer] s [OF may_end_kick] s [OF ends.rel_nextQuestion] s [OF ends.rel_answer]
      s [OF may_end_quiet [OF quiet_restoreBoard]] fire startSession_status [of d r]
    by (cases ev) (auto simp: endSession_fields(1) addPlayerAndNotify_def attachHost_def send_def close_def Let_def
      split: option.split)
qed

text \<open>
  The status of a room only moves forward, from lobby to running to ended, through any run; in
  particular an ended room never comes back.
\<close>

theorem status_moves_forward:
  assumes "room_steps d r r'"
  shows "status_rank (r_status r) \<le> status_rank (r_status r')"
  using assms
proof (induction rule: room_steps.induct)
  case (step r r' r'')
  have t: "r_status (turn d ev q) = r_status (handle d ev q)" for ev and q :: "('a, 'b) room"
    by (simp add: turn_def stopTimers_def Let_def)
  have le: "status_rank x \<le> 2" for x by (cases x) simp_all
  from step(2) have "status_rank (r_status r') \<le> status_rank (r_status r'')"
  proof cases
    case (take_event ev)
    then show ?thesis using status_handle [of d ev r'] le [of "r_status r'"] by (auto simp: t)
  qed simp
  then show ?case using step by simp
qed simp

subsection \<open>An answer that counts\<close>

lemma sink_settled [simp]: "ps_sink (settled p out) = ps_sink p" "ps_info (settled p out) = ps_info p"
  by (simp_all add: settled_def)

text \<open>The message with the result, as \<open>sendResult\<close> builds it from the new totals.\<close>

definition result_message :: "player_state \<Rightarrow> question \<Rightarrow> outcome \<Rightarrow> bool \<Rightarrow> message" where
  "result_message p q out fin = MResult \<lparr>re_correct = (oc_correct out = Some True),
     re_correctOptionID = correctOptionID (q_options q),
     re_explanation = text_In (q_explanation q) (pl_lang (ps_info p)),
     re_points = oc_points out, re_score = ps_score p, re_streak = ps_streak p, re_finished = fin\<rparr>"

lemma resolve_saved_log:
  assumes "save_call d p a out r = (None, s)" "ps_sink p = Some k"
  shows "\<exists>xs. r_out (snd (resolve d pid p a out True r)) =
    r_out r @ (k, Send (result_message (settled p out) (aq_question a) out (finishes r p))) # xs"
proof -
  let ?p = "settled p out"
  let ?r3 = "saveStanding d ?p (set_player pid ?p (r\<lparr>r_store := s\<rparr>))"
  let ?r4 = "sendResult ?p (aq_question a) out (finishes r p) ?r3"
  have "r_out ?r3 = r_out r"
    by (auto simp: saveStanding_def saveStandings_def set_player_def split: option.split prod.split)
  then have r4: "r_out ?r4 = r_out r @ [(k, Send (result_message ?p (aq_question a) out (finishes r p)))]"
    using assms(2) by (simp add: sendResult_def sendTo_def send_def emit_def result_message_def)
  have e: "snd (resolve d pid p a out True r) =
      (if finishes r p then endIfAllFinished d (markLeaderboardDirty d ?r4) else markLeaderboardDirty d ?r4)"
    using assms(1) by (simp add: resolve_def persist_def save_call_def finishes_def settled_def Let_def)
  have "says ?r4 (snd (resolve d pid p a out True r))"
    by (simp add: e says_markLeaderboardDirty says_trans [OF says_markLeaderboardDirty says_endIfAllFinished])
  then show ?thesis using r4 by (auto simp: says_def)
qed

text \<open>The players after a result was saved; those of a game that just ended are disconnected.\<close>

lemma resolve_saved_players:
  assumes "save_call d p a out r = (None, s)"
  shows "\<exists>f \<in> {\<lambda>x. x, disconnected}. \<forall>k. player_of (snd (resolve d pid p a out ann r)) k =
    map_option f (if k = pid then Some (settled p out) else player_of r k)"
proof -
  obtain r5 where q: "quiet d (set_player pid (settled p out) (r\<lparr>r_store := s\<rparr>)) r5"
    and e: "resolve d pid p a out ann r = (True, if finishes r p then endIfAllFinished d r5 else r5)"
    by (rule resolve_saved [OF assms, where pid = pid and ann = ann])
  have p5: "player_of r5 k = (if k = pid then Some (settled p out) else player_of r k)" for k
    using quiet_player_of_eq [OF q] by simp
  have m: "map_option (\<lambda>x. x) y = y" for y :: "player_state option" by (cases y) auto
  show ?thesis
  proof (cases "finishes r p \<and> endIfAllFinished d r5 \<noteq> r5")
    case True
    then show ?thesis using p5 player_of_endIfAllFinished [of d r5] by (simp add: e)
  next
    case False
    then have "snd (resolve d pid p a out ann r) = r5" by (auto simp: e)
    then show ?thesis using p5 m by simp
  qed
qed

lemma answer_active:
  assumes "player_of r pid = Some p" "r_status r = Running" "ps_active p = Some a"
    and "q_id (aq_question a) = qid" "\<And>i. oid = Some i \<Longrightarrow> hasOption (aq_options a) i"
  shows "answer d pid qid oid r = snd (resolve d pid p a (fst (outcomeOf d p a oid r)) True (r\<lparr>r_tick := Suc (r_tick r)\<rparr>))"
  using assms snd_outcomeOf [of d p a oid r]
  by (cases oid) (auto simp: answer_def split_beta)

lemma save_call_tick [simp]: "save_call d p a out (r\<lparr>r_tick := k\<rparr>) = save_call d p a out r"
  by (simp add: save_call_def finishes_def)

text \<open>
  An accepted answer: when the store saves the result, exactly this player moves on, to the
  totals that \<open>advance\<close> computes and with no active question, every other player keeps all totals,
  and the player's connection is told the result before anything else.
\<close>

theorem answer_accepted:
  assumes "player_of r pid = Some p" "r_status r = Running" "ps_active p = Some a"
    and "\<And>i. oid = Some i \<Longrightarrow> hasOption (aq_options a) i"
    and "fst (outcomeOf d p a oid r) = out" "save_call d p a out r = (None, s)"
  shows "(\<exists>f \<in> {\<lambda>x. x, disconnected}. \<forall>k.
      player_of (answer d pid (q_id (aq_question a)) oid r) k =
        map_option f (if k = pid then Some (settled p out) else player_of r k)) \<and>
    (\<forall>k. ps_sink p = Some k \<longrightarrow> (\<exists>xs. r_out (answer d pid (q_id (aq_question a)) oid r) =
        r_out r @ (k, Send (result_message (settled p out) (aq_question a) out (finishes r p))) # xs))"
proof -
  let ?r = "r\<lparr>r_tick := Suc (r_tick r)\<rparr>"
  have e: "answer d pid (q_id (aq_question a)) oid r = snd (resolve d pid p a out True ?r)"
    using answer_active [OF assms(1-3) HOL.refl assms(4), where d = d] assms(5) by simp
  have c: "save_call d p a out ?r = (None, s)" using assms(6) by simp
  have f: "player_of ?r = player_of r" "finishes ?r p = finishes r p"
    by (simp_all add: player_of_def fun_eq_iff finishes_def)
  show ?thesis
    unfolding e using resolve_saved_players [OF c, of pid True, unfolded f] resolve_saved_log [OF c, of _ pid]
    by (intro conjI) (simp_all add: f)
qed

subsection \<open>What an answer is worth\<close>

text \<open>The player after the event, up to the connection, which an ended game has closed.\<close>

lemma answer_accepted_player:
  assumes "player_of r pid = Some p" "r_status r = Running" "ps_active p = Some a"
    and "\<And>i. oid = Some i \<Longrightarrow> hasOption (aq_options a) i"
    and "fst (outcomeOf d p a oid r) = out" "save_call d p a out r = (None, s)"
  shows "\<exists>sink. player_of (answer d pid (q_id (aq_question a)) oid r) pid = Some ((settled p out)\<lparr>ps_sink := sink\<rparr>)"
proof -
  have e: "answer d pid (q_id (aq_question a)) oid r = snd (resolve d pid p a out True (r\<lparr>r_tick := Suc (r_tick r)\<rparr>))"
    using answer_active [OF assms(1-3) HOL.refl assms(4), where d = d] assms(5) by simp
  have "save_call d p a out (r\<lparr>r_tick := Suc (r_tick r)\<rparr>) = (None, s)" using assms(6) by simp
  then obtain f where f: "f = (\<lambda>x. x) \<or> f = disconnected"
    "player_of (answer d pid (q_id (aq_question a)) oid r) pid = Some (f (settled p out))"
    using resolve_saved_players [of d p a out _ s pid True] e by fastforce
  have "x\<lparr>ps_sink := ps_sink x\<rparr> = x" for x :: player_state by simp
  then show ?thesis using f by (metis disconnected_def)
qed

lemma settled_totals:
  "ps_score (settled p out) = ps_score p + oc_points out"
  "ps_totalMs (settled p out) = ps_totalMs p + oc_spentMs out"
  "ps_resolved (settled p out) = ps_resolved p + 1" "ps_active (settled p out) = None"
  "ps_correct (settled p out) = ps_correct p + (if oc_correct out = Some True then 1 else 0)"
  "ps_streak (settled p out) = (if oc_correct out = Some True then ps_streak p + 1 else 0)"
  by (simp_all add: settled_def advance_def Let_def)

text \<open>
  C6. A correct answer within the timer and the network tolerance: the player gains at least 60
  percent of the base points of the question's level and at most the base points plus the capped
  streak bonus, the streak and the correct answers go up by one, the time taken is at most the
  limit, and the player moves to the next question.
\<close>

theorem correct_answer_scores:
  assumes "room_inv d r" "player_of r pid = Some p" "r_status r = Running" "ps_active p = Some a"
    and "hasOption (aq_options a) i" "isCorrect (aq_options a) i" "q_level (aq_question a) \<in> {1, 2, 3}"
    and "d_clock d (r_tick r) \<le> aq_deadline a"
    and "save_call d p a (fst (outcomeOf d p a (Some i) r)) r = (None, s)"
  shows "\<exists>p'. player_of (answer d pid (q_id (aq_question a)) (Some i) r) pid = Some p' \<and>
    basePoints (q_level (aq_question a)) * 3 / 5 \<le> of_int (ps_score p' - ps_score p) \<and>
    of_int (ps_score p' - ps_score p) \<le> basePoints (q_level (aq_question a)) + 250 \<and>
    ps_streak p' = ps_streak p + 1 \<and> ps_correct p' = ps_correct p + 1 \<and>
    ps_resolved p' = ps_resolved p + 1 \<and> ps_active p' = None \<and>
    ps_totalMs p \<le> ps_totalMs p' \<and> ps_totalMs p' \<le> ps_totalMs p + to_ms (aq_limit a)"
proof -
  let ?out = "fst (outcomeOf d p a (Some i) r)"
  let ?el = "d_clock d (r_tick r) - aq_servedAt a"
  have ok: "player_ok d r pid p" by (rule room_invD(1) [OF assms(1,2)])
  have el: "0 \<le> ?el" "?el \<le> aq_limit a + 1000000000"
    using ok assms(4,8)
    by (auto simp: player_ok_def active_ok_def aq_deadline_def networkGraceMs_def millisecond_def)
  obtain l where l: "aq_limit a = questionLimit l (r_jenjang r)" using ok assms(4) by (auto simp: player_ok_def active_ok_def)
  have lim: "0 \<le> aq_limit a" using questionLimit_bounds l by simp
  have "to_ms ?el \<le> to_ms (aq_limit a + 1000000000)" using el(2) by (rule to_ms_mono)
  also have "\<dots> = to_ms (aq_limit a) + 1000" using lim by (simp add: to_ms_nonneg)
  finally have ms: "to_ms ?el \<le> to_ms (aq_limit a) + networkGraceMs" by (simp add: networkGraceMs_def)
  let ?i = "score_input_of r p a True ?el"
  have sc: "basePoints (q_level (aq_question a)) * 3 / 5 \<le> of_int (Score ?i) \<and>
      of_int (Score ?i) \<le> basePoints (q_level (aq_question a)) + 250"
  proof -
    have "0 \<le> ps_streak p" using ok by (simp add: player_ok_def totals_ok_def)
    then show ?thesis
      using Score_worth [of ?i] ms assms(7) by (simp add: score_input_of_def)
  qed
  have o: "oc_points ?out = Score ?i" "oc_correct ?out = Some True" "oc_spentMs ?out = to_ms (min ?el (aq_limit a))"
    using assms(6,8) by (simp_all add: outcomeOf_def read_clock_def Let_def)
  have "to_ms 0 \<le> to_ms (min ?el (aq_limit a))" "to_ms (min ?el (aq_limit a)) \<le> to_ms (aq_limit a)"
    using el(1) lim by (intro to_ms_mono; simp)+
  then have sp: "0 \<le> oc_spentMs ?out" "oc_spentMs ?out \<le> to_ms (aq_limit a)" by (simp_all add: o to_ms_nonneg)
  obtain sink where "player_of (answer d pid (q_id (aq_question a)) (Some i) r) pid = Some ((settled p ?out)\<lparr>ps_sink := sink\<rparr>)"
    using answer_accepted_player [OF assms(2-4) _ HOL.refl assms(9)] assms(5) by auto
  then show ?thesis using sc sp o by (auto simp: settled_totals)
qed

text \<open>
  C9. No answer, or one past the deadline, is recorded as a timeout: no points, the streak is lost,
  the whole limit is added to the player's time, and the player moves to the next question.
\<close>

theorem missed_question_counts_as_timeout:
  assumes "player_of r pid = Some p" "r_status r = Running" "ps_active p = Some a"
    and "\<And>i. oid = Some i \<Longrightarrow> hasOption (aq_options a) i"
    and "oid = None \<or> aq_deadline a < d_clock d (r_tick r)"
    and "save_call d p a (timeoutOutcome a) r = (None, s)"
  shows "\<exists>p'. player_of (answer d pid (q_id (aq_question a)) oid r) pid = Some p' \<and>
    ps_score p' = ps_score p \<and> ps_correct p' = ps_correct p \<and> ps_streak p' = 0 \<and>
    ps_totalMs p' = ps_totalMs p + to_ms (aq_limit a) \<and> ps_resolved p' = ps_resolved p + 1 \<and>
    ps_active p' = None"
proof -
  have o: "fst (outcomeOf d p a oid r) = timeoutOutcome a"
    using assms(5) by (auto simp: outcomeOf_def read_clock_def split: option.split)
  obtain sink where "player_of (answer d pid (q_id (aq_question a)) oid r) pid =
      Some ((settled p (timeoutOutcome a))\<lparr>ps_sink := sink\<rparr>)"
    using answer_accepted_player [OF assms(1-4) o assms(6)] by blast
  then show ?thesis by (auto simp: settled_totals timeoutOutcome_def)
qed

subsection \<open>Answers that do not count\<close>

text \<open>The error an answer is rejected with before anything is scored.\<close>

definition answer_error :: "('s, 'b) room \<Rightarrow> player_state \<Rightarrow> string \<Rightarrow> string option \<Rightarrow> string option" where
  "answer_error r p qid oid =
     (if r_status r \<noteq> Running then Some codeNotStarted
      else case ps_active p of
        None \<Rightarrow> Some (if wasResolved p qid r then codeAnswered else codeNotServed)
      | Some a \<Rightarrow>
          if q_id (aq_question a) \<noteq> qid then Some (if wasResolved p qid r then codeAnswered else codeNotServed)
          else case oid of None \<Rightarrow> None
            | Some i \<Rightarrow> if hasOption (aq_options a) i then None else Some codeBadOption)"

text \<open>
  C12. A rejected answer changes nothing: the room is as before but for one error message to the
  player, whose code says why (the session is not running, the question was already answered or
  is not the active one, the option does not exist); nothing is stored. An answer of somebody who
  is not in the room is ignored altogether.
\<close>

theorem rejected_answer_changes_nothing:
  "case player_of r pid of
     None \<Rightarrow> answer d pid qid oid r = r
   | Some p \<Rightarrow> (case answer_error r p qid oid of
        None \<Rightarrow> True
      | Some code \<Rightarrow> (case ps_sink p of
            None \<Rightarrow> answer d pid qid oid r = r
          | Some k \<Rightarrow> \<exists>msg. answer d pid qid oid r = r\<lparr>r_out := r_out r @ [(k, Send (MError code msg ''q.answer''))]\<rparr>))"
proof (cases "player_of r pid")
  case (Some p)
  have rej: "answer_error r p qid oid = Some code \<Longrightarrow> \<exists>msg. answer d pid qid oid r = reject p ''q.answer'' code msg r" for code
    using Some by (cases "ps_active p"; cases oid)
      (auto simp: answer_def answer_error_def rejectUnservedAnswer_def split: if_splits)
  have "case ps_sink p of None \<Rightarrow> reject p ''q.answer'' code msg r = r
      | Some k \<Rightarrow> reject p ''q.answer'' code msg r = r\<lparr>r_out := r_out r @ [(k, Send (MError code msg ''q.answer''))]\<rparr>"
    for code msg
    by (simp add: reject_def sendTo_def send_def emit_def ErrorMessage_def split: option.split)
  then show ?thesis
    using Some rej by (cases "answer_error r p qid oid"; cases "ps_sink p") (fastforce+)
qed (simp add: answer_def)

text \<open>
  C10. Persist first: when the store does not save the result, the player keeps question, totals and
  streak, nobody else changes either, and the player is told to try again (or that the question was
  already answered).
\<close>

theorem failed_save_changes_nothing:
  assumes "player_of r pid = Some p" "r_status r = Running" "ps_active p = Some a"
    and "\<And>i. oid = Some i \<Longrightarrow> hasOption (aq_options a) i"
    and "save_call d p a (fst (outcomeOf d p a oid r)) r = (Some e, s)"
  shows "\<exists>out. answer d pid (q_id (aq_question a)) oid r =
      r\<lparr>r_tick := Suc (r_tick r), r_store := s, r_out := out\<rparr> \<and>
    (\<forall>k. ps_sink p = Some k \<longrightarrow> (\<exists>msg. out = r_out r @
       [(k, Send (MError (if e = DuplicateAnswer then codeAnswered else codeInternal) msg ''q.answer''))]))"
proof -
  have e: "answer d pid (q_id (aq_question a)) oid r =
      snd (resolve d pid p a (fst (outcomeOf d p a oid r)) True (r\<lparr>r_tick := Suc (r_tick r)\<rparr>))"
    by (rule answer_active [OF assms(1-3) HOL.refl assms(4)])
  have c: "save_call d p a (fst (outcomeOf d p a oid r)) (r\<lparr>r_tick := Suc (r_tick r)\<rparr>) = (Some e, s)"
    using assms(5) by simp
  show ?thesis
    unfolding e resolve_refused [OF c]
    by (cases "ps_sink p")
       (auto simp: rejectFailedSave_def reject_def sendTo_def send_def emit_def ErrorMessage_def
         intro: exI [of _ "r_out r"])
qed

subsection \<open>The next question\<close>

lemma shuffledOptions_fields:
  "r_tick (snd (shuffledOptions d q r)) = r_tick r" "r_out (snd (shuffledOptions d q r)) = r_out r"
  by (simp_all add: shuffledOptions_def split_beta Let_def)


text \<open>
  One question at a time: while the open question has not reached its deadline, asking for the
  next one is refused and changes nothing, so no question can be skipped.
\<close>

theorem no_question_skipped:
  assumes "player_of r pid = Some p" "r_status r = Running" "ps_active p = Some a"
    and "d_clock d (r_tick r) < aq_deadline a"
  shows "\<exists>out. nextQuestion d pid r = r\<lparr>r_tick := Suc (r_tick r), r_out := out\<rparr> \<and>
    (\<forall>k. ps_sink p = Some k \<longrightarrow> (\<exists>msg. out = r_out r @ [(k, Send (MError codeInProgress msg ''q.next''))]))"
proof -
  have pa: "player_at (r\<lparr>r_tick := Suc (r_tick r)\<rparr>) pid = p" using assms(1) by (simp add: player_at_def player_of_def)
  have "nextQuestion d pid r = reject p ''q.next'' codeInProgress ''answer the current question first''
      (r\<lparr>r_tick := Suc (r_tick r)\<rparr>)"
    using assms pa by (simp add: nextQuestion_running settleExpired_def read_clock_def Let_def)
  then show ?thesis
    by (cases "ps_sink p")
       (auto simp: reject_def sendTo_def send_def emit_def ErrorMessage_def intro: exI [of _ "r_out r"])
qed

subsection \<open>The end of a game\<close>

text \<open>
  The game ends with the answer that completes it: after an accepted answer the room has ended
  if this was the player's last question and every other player had resolved all questions, and
  is still running otherwise.
\<close>

theorem game_ends_with_last_answer:
  assumes "room_inv d r" "player_of r pid = Some p" "r_status r = Running" "ps_active p = Some a"
    and "\<And>i. oid = Some i \<Longrightarrow> hasOption (aq_options a) i"
    and "save_call d p a (fst (outcomeOf d p a oid r)) r = (None, s)"
  shows "r_status (answer d pid (q_id (aq_question a)) oid r) =
    (if finishes r p \<and> (\<forall>k q. k \<noteq> pid \<longrightarrow> player_of r k = Some q \<longrightarrow>
          int (length (r_questions r)) \<le> ps_resolved q)
     then Ended else Running)"
proof -
  let ?r = "r\<lparr>r_tick := Suc (r_tick r)\<rparr>"
  let ?out = "fst (outcomeOf d p a oid r)"
  let ?n = "int (length (r_questions r))"
  have e: "answer d pid (q_id (aq_question a)) oid r = snd (resolve d pid p a ?out True ?r)"
    by (rule answer_active [OF assms(2-4) HOL.refl assms(5)])
  have c: "save_call d p a ?out ?r = (None, s)" using assms(6) by simp
  obtain r5 where q: "quiet d (set_player pid (settled p ?out) (?r\<lparr>r_store := s\<rparr>)) r5"
    and x: "resolve d pid p a ?out True ?r = (True, if finishes ?r p then endIfAllFinished d r5 else r5)"
    by (rule resolve_saved [OF c, where pid = pid and ann = True])
  have fin: "finishes ?r p = finishes r p" by (simp add: finishes_def)
  have r5: "r_status r5 = Running" "r_questions r5 = r_questions r" using quiet_fields(5,6) [OF q] assms(3) by simp_all
  have pl: "player_of r5 k = (if k = pid then Some (settled p ?out) else player_of r k)" for k
    using quiet_player_of_eq [OF q] by (simp add: player_of_def)
  have "order_ok (set_player pid (settled p ?out) (?r\<lparr>r_store := s\<rparr>))"
  proof -
    have "pid \<in> set (keys (r_players r))"
      using map_of_Some_key [of "r_players r" pid p] assms(2) by (simp add: player_of_def)
    then show ?thesis using assms(1) by (simp add: room_inv_def order_ok_def set_player_def keys_update_present)
  qed
  then have dist: "distinct (keys (r_players r5))" using quiet_fields(7) [OF q] by (simp add: order_ok_def)
  have "(\<exists>(k, y) \<in> set (r_players r5). ps_resolved y < ?n) \<longleftrightarrow> (\<exists>k y. player_of r5 k = Some y \<and> ps_resolved y < ?n)"
    using dist by (auto simp: player_of_def)
  moreover have "r_players r5 \<noteq> []" using pl [of pid] by (auto simp: player_of_def)
  ultimately have ends: "r_status (endIfAllFinished d r5) =
      (if \<exists>k y. player_of r5 k = Some y \<and> ps_resolved y < ?n then Running else Ended)"
    by (simp add: endIfAllFinished_def r5 endSession_fields(1))
  have "(\<exists>k y. player_of r5 k = Some y \<and> ps_resolved y < ?n) \<longleftrightarrow>
      \<not> (\<forall>k q. k \<noteq> pid \<longrightarrow> player_of r k = Some q \<longrightarrow> ?n \<le> ps_resolved q)" if "finishes r p"
    using that pl by (auto simp: finishes_def settled_totals not_le)
  then show ?thesis using ends r5(1) by (auto simp: e x fin)
qed

end
