(* ===== verification/Leaderboard.thy ===== *)
theory Leaderboard
  imports Gameplay Persist
begin

section \<open>The Redis leaderboard: api/internal/leaderboard/redis.go\<close>

text \<open>
  The board of a room is a sorted set in Redis. The client library is not part of the repository:
  \<open>redis_client\<close> holds the calls the code makes, and \<open>redis_laws\<close> what the documentation of the
  commands promises of a call that succeeds. From it follow the laws of the interface \<open>Board\<close>, the
  locale \<open>game_board\<close>: what a room may rely on. A room over a board that keeps the laws and
  loses no write shows its players in the right order, whatever entries the board forgets.
\<close>

subsection \<open>The client\<close>

datatype redis_cmd = ZADD string "(rat \<times> string) list" | EXPIRE string duration

record 'z redis_client =
  rc_exec :: "redis_cmd list \<Rightarrow> 'z \<Rightarrow> bool \<times> 'z"
  rc_zrange_rev :: "string \<Rightarrow> 'z \<Rightarrow> string list option \<times> 'z"
  rc_zrem :: "string \<Rightarrow> string \<Rightarrow> 'z \<Rightarrow> bool \<times> 'z"

definition keyTTL :: duration where "keyTTL = 120 * minute"

definition roomKey :: "uid \<Rightarrow> string" where
  "roomKey roomID = ''room:'' @ roomID @ '':lb''"

definition Redis_Save :: "'z redis_client \<Rightarrow> uid \<Rightarrow> standing list \<Rightarrow> 'z \<Rightarrow> bool \<times> 'z" where
  "Redis_Save rd roomID ss z =
     (if length ss = 0 then (True, z)
      else let members = map (\<lambda>s. (Key s, st_player s)) ss; key = roomKey roomID
           in rc_exec rd [ZADD key members, EXPIRE key keyTTL] z)"

definition Redis_Order :: "'z redis_client \<Rightarrow> uid \<Rightarrow> 'z \<Rightarrow> uid list option \<times> 'z" where
  "Redis_Order rd roomID z = rc_zrange_rev rd (roomKey roomID) z"

definition Redis_Forget :: "'z redis_client \<Rightarrow> uid \<Rightarrow> uid \<Rightarrow> 'z \<Rightarrow> bool \<times> 'z" where
  "Redis_Forget rd roomID playerID z = rc_zrem rd (roomKey roomID) playerID z"

definition board_ops :: "'z redis_client \<Rightarrow> 'z board_api" where
  "board_ops rd = \<lparr>b_Save = Redis_Save rd, b_Order = Redis_Order rd, b_Forget = Redis_Forget rd\<rparr>"

text \<open>
  The commands as documented: \<open>ZADD\<close> adds the members or overwrites their scores, \<open>ZRANGE key 0 -1
  REV\<close> lists all members from the highest score to the lowest and changes nothing, \<open>ZREM\<close>
  removes a member. Nothing is said of a call that fails.
\<close>

definition redis_laws :: "'z redis_client \<Rightarrow> ('z \<Rightarrow> string \<Rightarrow> string \<Rightarrow> rat option) \<Rightarrow> bool" where
  "redis_laws rd zset \<longleftrightarrow>
     (\<forall>key ms ttl z z'. rc_exec rd [ZADD key ms, EXPIRE key ttl] z = (True, z') \<longrightarrow>
        zset z' key = zset z key ++ map_of (rev (map (\<lambda>(s, m). (m, s)) ms))) \<and>
     (\<forall>key z ids z'. rc_zrange_rev rd key z = (ids, z') \<longrightarrow> zset z' key = zset z key) \<and>
     (\<forall>key z ids z'. rc_zrange_rev rd key z = (Some ids, z') \<longrightarrow> distinct ids \<and>
        set ids = dom (zset z key) \<and> sorted_wrt (\<lambda>a b. the (zset z key b) \<le> the (zset z key a)) ids) \<and>
     (\<forall>key m z z'. rc_zrem rd key m z = (True, z') \<longrightarrow> zset z' key = (zset z key)(m := None))"

subsection \<open>The interface of a board\<close>

definition scores_of :: "standing list \<Rightarrow> uid \<Rightarrow> rat option" where
  "scores_of ss = map_of (map (\<lambda>s. (st_player s, Key s)) ss)"

locale game_board =
  fixes b :: "'b board_api"
    and entries :: "'b \<Rightarrow> uid \<Rightarrow> uid \<Rightarrow> rat option"
  assumes board_save: "distinct (map st_player ss) \<Longrightarrow> b_Save b rid ss z = (True, z') \<Longrightarrow>
      entries z' rid = entries z rid ++ scores_of ss"
    and board_order: "b_Order b rid z = (Some ids, z') \<Longrightarrow> distinct ids \<and> set ids = dom (entries z rid) \<and>
      sorted_wrt (\<lambda>x y. the (entries z rid y) \<le> the (entries z rid x)) ids"
    and board_read: "b_Order b rid z = (res, z') \<Longrightarrow> entries z' rid = entries z rid"
    and board_forget: "b_Forget b rid pid z = (True, z') \<Longrightarrow> entries z' rid = (entries z rid)(pid := None)"

lemma map_of_rev_distinct: "distinct (map fst xs) \<Longrightarrow> map_of (rev xs) = map_of xs"
  by (rule map_of_eqI) (auto simp: rev_map [symmetric] distinct_keys_unique map_of_eq_Some_iff)

lemma board_ops_laws:
  assumes "redis_laws rd zset"
  shows "game_board (board_ops rd) (\<lambda>z rid. zset z (roomKey rid))"
proof
  fix ss rid z z'
  assume d: "distinct (map st_player ss)" and e: "b_Save (board_ops rd) rid ss z = (True, z')"
  show "zset z' (roomKey rid) = zset z (roomKey rid) ++ scores_of ss"
  proof (cases "ss = []")
    case True
    then show ?thesis using e by (simp add: board_ops_def Redis_Save_def scores_of_def)
  next
    case False
    let ?ms = "map (\<lambda>s. (Key s, st_player s)) ss"
    have "zset z' (roomKey rid) = zset z (roomKey rid) ++ map_of (rev (map (\<lambda>(s, m). (m, s)) ?ms))"
      using assms e False unfolding redis_laws_def board_ops_def Redis_Save_def by (auto simp: Let_def)
    also have "map (\<lambda>(s, m). (m, s)) ?ms = map (\<lambda>s. (st_player s, Key s)) ss" by simp
    also have "map_of (rev (map (\<lambda>s. (st_player s, Key s)) ss)) = map_of (map (\<lambda>s. (st_player s, Key s)) ss)"
      using d by (intro map_of_rev_distinct) (simp add: o_def)
    finally show ?thesis by (simp add: scores_of_def)
  qed
next
  fix rid z ids z'
  assume "b_Order (board_ops rd) rid z = (Some ids, z')"
  then show "distinct ids \<and> set ids = dom (zset z (roomKey rid)) \<and>
      sorted_wrt (\<lambda>x y. the (zset z (roomKey rid) y) \<le> the (zset z (roomKey rid) x)) ids"
    using assms unfolding redis_laws_def board_ops_def Redis_Order_def by fastforce
next
  fix rid z res z'
  assume "b_Order (board_ops rd) rid z = (res, z')"
  then show "zset z' (roomKey rid) = zset z (roomKey rid)"
    using assms by (simp add: redis_laws_def board_ops_def Redis_Order_def)
next
  fix rid pid z z'
  assume "b_Forget (board_ops rd) rid pid z = (True, z')"
  then show "zset z' (roomKey rid) = (zset z (roomKey rid))(pid := None)"
    using assms by (simp add: redis_laws_def board_ops_def Redis_Forget_def)
qed

subsection \<open>A board that is fresh\<close>

text \<open>
  \<open>fresh\<close>: every entry the board has for the room is of a player of the room and carries the key of
  that player's current totals. Entries may be missing (a new player, an expired key, a Redis
  that came back empty); then \<open>coversAllPlayers\<close> sends the room back to its memory.
\<close>

definition key_of :: "('s, 'b) room \<Rightarrow> uid \<Rightarrow> rat option" where
  "key_of r pid = map_option (\<lambda>p. Key (standingOf p)) (player_of r pid)"

definition fresh :: "('b \<Rightarrow> uid \<Rightarrow> uid \<Rightarrow> rat option) \<Rightarrow> ('s, 'b) room \<Rightarrow> bool" where
  "fresh entries r \<longleftrightarrow> entries (r_board r) (r_id r) \<subseteq>\<^sub>m key_of r"

lemma freshD: "fresh entries r \<Longrightarrow> entries (r_board r) (r_id r) pid = Some x \<Longrightarrow> key_of r pid = Some x"
  unfolding fresh_def map_le_def by (metis domI)

lemma freshI: "(\<And>pid x. entries (r_board r) (r_id r) pid = Some x \<Longrightarrow> key_of r pid = Some x) \<Longrightarrow> fresh entries r"
  unfolding fresh_def map_le_def by (metis domD)

lemma key_of_disconnected: "map_option (\<lambda>p. Key (standingOf p)) (map_option disconnected x) =
    map_option (\<lambda>p. Key (standingOf p)) x"
  by (cases x) (simp_all add: disconnected_def standingOf_def)

lemma fresh_cong:
  assumes "r_id r' = r_id r" "r_board r' = r_board r"
    and "player_of r' = player_of r \<or> (\<forall>pid. player_of r' pid = map_option disconnected (player_of r pid))"
  shows "fresh entries r' = fresh entries r"
proof -
  have "key_of r' = key_of r" using assms(3) by (auto simp: key_of_def fun_eq_iff key_of_disconnected)
  then show ?thesis using assms(1,2) by (simp add: fresh_def)
qed

lemma fresh_set_player_same:
  assumes "player_of r pid = Some p" "standingOf p' = standingOf p"
  shows "fresh entries (set_player pid p' r) = fresh entries r"
proof -
  have "key_of (set_player pid p' r) = key_of r" using assms by (auto simp: key_of_def fun_eq_iff)
  then show ?thesis by (simp add: fresh_def set_player_def)
qed

text \<open>The operations that only send or read leave board, name and players alone.\<close>

definition hushed :: "('s, 'b) room \<Rightarrow> ('s, 'b) room \<Rightarrow> bool" where
  "hushed r r' \<longleftrightarrow> r_id r' = r_id r \<and> r_board r' = r_board r \<and> r_players r' = r_players r"

lemma hushed_refl [simp]: "hushed r r"
  by (simp add: hushed_def)

lemma hushed_trans [trans]: "hushed r r' \<Longrightarrow> hushed r' r'' \<Longrightarrow> hushed r r''"
  by (simp add: hushed_def)

lemma fresh_hushed: "hushed r r' \<Longrightarrow> fresh entries r' = fresh entries r"
  by (rule fresh_cong) (simp_all add: hushed_def player_of_def fun_eq_iff)

lemma fresh_frame [simp]:
  "fresh entries (r\<lparr>r_lbDirty := x\<rparr>) = fresh entries r" "fresh entries (r\<lparr>r_lbWaiting := x\<rparr>) = fresh entries r"
  "fresh entries (r\<lparr>r_lbTimer := t\<rparr>) = fresh entries r" "fresh entries (r\<lparr>r_tick := n\<rparr>) = fresh entries r"
  "fresh entries (r\<lparr>r_store := s\<rparr>) = fresh entries r" "fresh entries (r\<lparr>r_host := h\<rparr>) = fresh entries r"
  "fresh entries (r\<lparr>r_status := st\<rparr>) = fresh entries r" "fresh entries (r\<lparr>r_deadline := t\<rparr>) = fresh entries r"
  "fresh entries (r\<lparr>r_done := x\<rparr>) = fresh entries r"
  by (rule fresh_hushed, simp add: hushed_def)+

lemma hushed_out: "hushed r (r\<lparr>r_out := out\<rparr>)"
  by (simp add: hushed_def)

lemma hushed_tick: "hushed r (r\<lparr>r_tick := n\<rparr>)"
  by (simp add: hushed_def)

lemma hushed_store: "hushed r (r\<lparr>r_store := s\<rparr>)"
  by (simp add: hushed_def)

lemma hushed_send: "hushed r (send s m r)"
  by (simp add: send_def hushed_out)

lemma hushed_close: "hushed r (close s r)"
  by (simp add: close_def hushed_out)

lemma hushed_sendTo: "hushed r (sendTo p m r)"
  by (simp add: sendTo_def hushed_send split: option.split)

lemma hushed_reject: "hushed r (reject p ref code msg r)"
  by (simp add: reject_def hushed_sendTo)

lemma hushed_broadcast: "hushed r (broadcast m r)"
  by (simp add: broadcast_def hushed_out)

lemma hushed_shuffledOptions: "hushed r (snd (shuffledOptions d q r))"
  by (simp add: shuffledOptions_def hushed_def split_beta Let_def)

lemma hushed_sendQuestion: "hushed r (sendQuestion p a now r)"
  by (simp add: sendQuestion_def hushed_sendTo)

lemma hushed_sendResult: "hushed r (sendResult p q out fin r)"
  by (simp add: sendResult_def hushed_sendTo)

lemma hushed_resumeActive: "hushed r (resumeActive d p r)"
  by (auto simp: resumeActive_def read_clock_def Let_def split: option.split
      intro: hushed_trans [OF hushed_tick hushed_sendQuestion])

lemma hushed_rejectFailedSave: "hushed r (rejectFailedSave p e r)"
  by (simp add: rejectFailedSave_def hushed_reject)

lemma hushed_rejectUnservedAnswer: "hushed r (rejectUnservedAnswer p q r)"
  by (simp add: rejectUnservedAnswer_def hushed_reject)

lemma hushed_outcomeOf: "hushed r (snd (outcomeOf d p a oid r))"
  by (simp add: outcomeOf_def read_clock_def hushed_tick Let_def split: option.split)

lemma hushed_armDeadline: "hushed r (armDeadline d t r)"
  by (simp add: armDeadline_def read_clock_def hushed_def)

lemmas fresh_say [simp] = hushed_send [THEN fresh_hushed] hushed_close [THEN fresh_hushed]
  hushed_sendTo [THEN fresh_hushed] hushed_reject [THEN fresh_hushed] hushed_broadcast [THEN fresh_hushed]
  hushed_shuffledOptions [THEN fresh_hushed] hushed_sendQuestion [THEN fresh_hushed]
  hushed_sendResult [THEN fresh_hushed] hushed_resumeActive [THEN fresh_hushed]
  hushed_rejectFailedSave [THEN fresh_hushed] hushed_rejectUnservedAnswer [THEN fresh_hushed]
  hushed_outcomeOf [THEN fresh_hushed] hushed_armDeadline [THEN fresh_hushed]

lemma fresh_endSession: "fresh entries (endSession d r) = fresh entries r"
proof (cases "r_status r = Ended")
  case False
  obtain s out where e: "endSession d r = closeAll (r\<lparr>r_store := s, r_status := Ended, r_out := out\<rparr>)"
    using endSession_eq [OF False] by blast
  show ?thesis unfolding e by (rule fresh_cong) (simp_all add: player_of_closeAll, simp_all add: closeAll_def player_of_def)
qed (simp add: endSession_def)

lemma fresh_endIfAllFinished: "fresh entries (endIfAllFinished d r) = fresh entries r"
  using endIfAllFinished_cases [of d r] fresh_endSession [of entries d r] by auto

subsection \<open>The order that is shown\<close>

definition standing_at :: "('s, 'b) room \<Rightarrow> uid \<Rightarrow> standing" where
  "standing_at r pid = standingOf (player_at r pid)"

definition ranked :: "('s, 'b) room \<Rightarrow> uid list \<Rightarrow> bool" where
  "ranked r ids \<longleftrightarrow> mset ids = mset (r_order r) \<and>
     sorted_wrt (\<lambda>x y. Key (standing_at r y) \<le> Key (standing_at r x)) ids"

definition roster_ok :: "('s, 'b) room \<Rightarrow> bool" where
  "roster_ok r \<longleftrightarrow> order_ok r \<and> (\<forall>pid p. player_of r pid = Some p \<longrightarrow> pl_id (ps_info p) = pid)"

lemma roster_room_inv: "room_inv d r \<Longrightarrow> roster_ok r"
  by (simp add: room_inv_def roster_ok_def player_ok_def)

lemma roster_cong:
  "r_players r' = r_players r \<Longrightarrow> r_order r' = r_order r \<Longrightarrow> roster_ok r' = roster_ok r"
  by (simp add: roster_ok_def order_ok_def player_of_def)

lemma order_player:
  assumes "roster_ok r" "pid \<in> set (r_order r)"
  shows "player_of r pid = Some (player_at r pid)" "st_player (standing_at r pid) = pid"
proof -
  have "pid \<in> set (keys (r_players r))" using assms by (simp add: roster_ok_def order_ok_def)
  then show p: "player_of r pid = Some (player_at r pid)"
    using map_of_key_Some [of pid "r_players r"] by (auto simp: player_at_def player_of_def simp del: set_map)
  show "st_player (standing_at r pid) = pid"
    using assms(1) p by (simp add: standing_at_def standingOf_def roster_ok_def)
qed

lemma standings_eq: "standings r = map (standing_at r) (r_order r)"
  by (simp add: standings_def standing_at_def)

lemma standings_players:
  assumes "roster_ok r"
  shows "map st_player (standings r) = r_order r"
  using order_player(2) [OF assms] by (simp add: standings_eq map_idI)

lemma standings_keys:
  assumes "roster_ok r" "s \<in> set (standings r)"
  shows "key_of r (st_player s) = Some (Key s)"
proof -
  obtain pid where "pid \<in> set (r_order r)" "s = standing_at r pid" using assms(2) by (auto simp: standings_eq)
  then show ?thesis using order_player [OF assms(1)] by (simp add: key_of_def standing_at_def)
qed

lemma ranked_Order:
  assumes "roster_ok r"
  shows "ranked r (Order (standings r))"
proof -
  obtain ts where ts: "Order (standings r) = map st_player ts" "mset ts = mset (standings r)"
    "sorted (map (\<lambda>s. - Key s) ts)"
    using Order_sorted_by_key [of "standings r"] by blast
  have "standing_at r (st_player t) = t" if "t \<in> set ts" for t
  proof -
    have "t \<in> set (standings r)" using that ts(2) by (metis mset_eq_setD)
    then obtain pid where "pid \<in> set (r_order r)" "t = standing_at r pid" by (auto simp: standings_eq)
    then show ?thesis using order_player(2) [OF assms] by simp
  qed
  then have "sorted_wrt (\<lambda>x y. Key (standing_at r y) \<le> Key (standing_at r x)) (map st_player ts)"
    using ts(3) by (auto simp: sorted_wrt_map sorted_map intro: sorted_wrt_mono_rel [rotated])
  moreover have "mset (Order (standings r)) = mset (r_order r)"
    by (simp only: mset_Order standings_players [OF assms])
  ultimately show ?thesis by (simp add: ranked_def ts(1))
qed

definition never_fails :: "'b board_api \<Rightarrow> bool" where
  "never_fails b \<longleftrightarrow> (\<forall>rid ss z. fst (b_Save b rid ss z)) \<and> (\<forall>rid pid z. fst (b_Forget b rid pid z))"

lemma never_fails_calls:
  assumes "never_fails b"
  shows "b_Save b rid ss z = (True, snd (b_Save b rid ss z))"
    "b_Forget b rid pid z = (True, snd (b_Forget b rid pid z))"
  using assms by (simp_all add: never_fails_def prod_eq_iff)

lemma scores_of_Some: "scores_of ss pid = Some x \<Longrightarrow> \<exists>s \<in> set ss. st_player s = pid \<and> x = Key s"
  by (auto simp: scores_of_def dest!: map_of_SomeD)

lemma scores_of_None: "scores_of ss pid = None \<longleftrightarrow> pid \<notin> st_player ` set ss"
  by (auto simp: scores_of_def map_of_eq_None_iff image_iff)

context game_board begin

lemma fresh_saveStandings:
  assumes bd: "d_board d = Some b" "never_fails b"
    and old: "\<And>pid x. pid \<notin> st_player ` set ss \<Longrightarrow> entries (r_board r) (r_id r) pid = Some x \<Longrightarrow>
      key_of r pid = Some x"
    and new: "\<And>s. s \<in> set ss \<Longrightarrow> key_of r (st_player s) = Some (Key s)"
    and dist: "distinct (map st_player ss)"
  shows "fresh entries (saveStandings d ss r)"
proof -
  let ?z = "snd (b_Save b (r_id r) ss (r_board r))"
  have e: "entries ?z (r_id r) = entries (r_board r) (r_id r) ++ scores_of ss"
    by (rule board_save [OF dist never_fails_calls(1) [OF bd(2)]])
  have s: "saveStandings d ss r = r\<lparr>r_board := ?z\<rparr>" using bd(1) by (simp add: saveStandings_def split_beta)
  have "key_of r pid = Some x" if "entries ?z (r_id r) pid = Some x" for pid x
  proof (cases "scores_of ss pid")
    case None
    then have "entries (r_board r) (r_id r) pid = Some x" using that e by (simp add: map_add_def)
    then show ?thesis using None old by (simp add: scores_of_None)
  next
    case (Some y)
    then show ?thesis using that e new scores_of_Some [OF Some] by (auto simp: map_add_def)
  qed
  then show ?thesis
    unfolding s by (force simp: fresh_def map_le_def key_of_def player_of_def)
qed

lemma fresh_restore:
  assumes "d_board d = Some b" "never_fails b" "roster_ok r" "dom (entries (r_board r) (r_id r)) \<subseteq> set (r_order r)"
  shows "fresh entries (saveStandings d (standings r) r)"
proof (rule fresh_saveStandings [OF assms(1,2)])
  have p: "st_player ` set (standings r) = set (r_order r)" using standings_players [OF assms(3)] by (metis set_map)
  show "key_of r pid = Some x"
    if "pid \<notin> st_player ` set (standings r)" "entries (r_board r) (r_id r) pid = Some x" for pid x
    using that p assms(4) by blast
  show "distinct (map st_player (standings r))"
    using assms(3) standings_players [OF assms(3)] by (simp add: roster_ok_def order_ok_def)
qed (rule standings_keys [OF assms(3)])

lemma fresh_dom:
  assumes "fresh entries r" "roster_ok r"
  shows "dom (entries (r_board r) (r_id r)) \<subseteq> set (r_order r)"
proof
  fix pid
  assume "pid \<in> dom (entries (r_board r) (r_id r))"
  then obtain x where "entries (r_board r) (r_id r) pid = Some x" by blast
  then have "key_of r pid = Some x" by (rule freshD [OF assms(1)])
  then have "player_of r pid \<noteq> None" by (auto simp: key_of_def)
  then have "pid \<in> set (keys (r_players r))" by (simp add: player_of_def map_of_None_key del: set_map)
  then show "pid \<in> set (r_order r)" using assms(2) by (simp add: roster_ok_def order_ok_def)
qed

lemma board_ranked:
  assumes "fresh entries r" "roster_ok r" "b_Order b (r_id r) (r_board r) = (Some ids, z)"
    and "coversAllPlayers ids r"
  shows "ranked r ids"
proof -
  note o = board_order [OF assms(3)]
  have ord: "order_ok r" using assms(2) by (simp add: roster_ok_def)
  have sub: "set ids \<subseteq> set (r_order r)" using o fresh_dom [OF assms(1,2)] by blast
  have "length ids = length (r_order r)"
    using assms(4) ord distinct_card [of "r_order r"] distinct_card [of "keys (r_players r)"]
    by (simp add: coversAllPlayers_def order_ok_def)
  then have "set ids = set (r_order r)"
    using card_subset_eq [OF _ sub] o ord distinct_card [of ids] distinct_card [of "r_order r"]
    by (simp add: order_ok_def)
  then have m: "mset ids = mset (r_order r)" using o ord by (metis order_ok_def set_eq_iff_mset_eq_distinct)
  have "the (entries (r_board r) (r_id r) pid) = Key (standing_at r pid)" if i: "pid \<in> set ids" for pid
  proof -
    have "entries (r_board r) (r_id r) pid = key_of r pid" using assms(1) i o by (auto simp: fresh_def map_le_def)
    then show ?thesis using order_player(1) [OF assms(2)] sub i by (auto simp: key_of_def standing_at_def)
  qed
  then have "sorted_wrt (\<lambda>x y. Key (standing_at r y) \<le> Key (standing_at r x)) ids"
    using o by (auto intro: sorted_wrt_mono_rel [rotated])
  then show ?thesis using m by (simp add: ranked_def)
qed

end

subsection \<open>Every event keeps the board fresh\<close>

context game_board begin

lemma rankedIDs_ranked:
  assumes "d_board d = Some b" "never_fails b" "roster_ok r" "fresh entries r"
  shows "fresh entries (snd (rankedIDs d r)) \<and> ranked r (fst (rankedIDs d r))"
proof -
  obtain ids z where o: "b_Order b (r_id r) (r_board r) = (ids, z)" by fastforce
  let ?r1 = "r\<lparr>r_board := z\<rparr>"
  have k: "key_of ?r1 = key_of r" by (simp add: key_of_def player_of_def fun_eq_iff)
  have f1: "fresh entries ?r1" using board_read [OF o] assms(4) k by (simp add: fresh_def)
  have ro: "roster_ok ?r1" using assms(3) by (simp add: roster_cong [of ?r1 r])
  have s1: "standings ?r1 = standings r" by (simp add: standings_def player_at_def player_of_def)
  have "fresh entries (saveStandings d (standings ?r1) ?r1)"
    using fresh_dom [OF f1 ro] by (intro fresh_restore [OF assms(1,2) ro]) simp
  then have f2: "fresh entries (saveStandings d (standings r) ?r1)" unfolding s1 .
  have "coversAllPlayers x ?r1 = coversAllPlayers x r" for x by (simp add: coversAllPlayers_def player_of_def)
  then show ?thesis
    using f1 f2 o assms(1) board_ranked [OF assms(4,3)] ranked_Order [OF assms(3)]
    by (auto simp: rankedIDs_def Let_def split: option.split)
qed

lemma fresh_sendLeaderboard:
  assumes "d_board d = Some b" "never_fails b" "roster_ok r" "fresh entries r"
  shows "fresh entries (sendLeaderboard d r)"
proof -
  have f: "fresh entries (snd (rankedIDs d r))" using rankedIDs_ranked [OF assms] by simp
  have "hushed (snd (rankedIDs d r)) (sendLeaderboard d r)"
    by (simp add: sendLeaderboard_def read_clock_def broadcast_def hushed_def Let_def split_beta)
  then show ?thesis using f by (simp add: fresh_hushed)
qed

lemma fresh_markLeaderboardDirty:
  assumes "d_board d = Some b" "never_fails b" "roster_ok r" "fresh entries r"
  shows "fresh entries (markLeaderboardDirty d r)"
proof -
  let ?r = "r\<lparr>r_lbDirty := True, r_tick := Suc (r_tick r)\<rparr>"
  have "roster_ok ?r" "fresh entries ?r" using assms(3,4) by (simp_all add: roster_cong [of ?r r])
  then have "fresh entries (sendLeaderboard d ?r)" by (rule fresh_sendLeaderboard [OF assms(1,2)])
  then show ?thesis
    using assms(4) by (auto simp: markLeaderboardDirty_def read_clock_def Let_def split: option.split)
qed

lemma fresh_lbTimerFires:
  assumes "d_board d = Some b" "never_fails b" "roster_ok r" "fresh entries r"
  shows "fresh entries (lbTimerFires d r)"
proof -
  let ?r = "r\<lparr>r_lbWaiting := False, r_lbTimer := None\<rparr>"
  have "roster_ok ?r" "fresh entries ?r" using assms(3,4) by (simp_all add: roster_cong [of ?r r])
  then show ?thesis
    using fresh_sendLeaderboard [OF assms(1,2)] by (simp add: lbTimerFires_def Let_def)
qed

text \<open>
  A resolved question changes one player's totals; the save that follows brings the entry of that
  player up to date.
\<close>

lemma fresh_saveStanding:
  assumes "d_board d = Some b" "never_fails b" "fresh entries r" "pl_id (ps_info p) = pid"
  shows "fresh entries (saveStanding d p (set_player pid p r))"
  unfolding saveStanding_def
proof (rule fresh_saveStandings [OF assms(1,2)])
  fix k x
  assume k: "k \<notin> st_player ` set [standingOf p]"
    and e: "entries (r_board (set_player pid p r)) (r_id (set_player pid p r)) k = Some x"
  have "k \<noteq> pid" using k assms(4) by (simp add: standingOf_def)
  moreover have "key_of r k = Some x" using e by (intro freshD [OF assms(3)]) (simp add: set_player_def)
  ultimately show "key_of (set_player pid p r) k = Some x" by (simp add: key_of_def)
qed (use assms(4) in \<open>simp_all add: key_of_def standingOf_def\<close>)

end

lemma roster_set_player:
  assumes "roster_ok r" "player_of r pid = Some p" "pl_id (ps_info p') = pid"
  shows "roster_ok (set_player pid p' r)"
proof -
  have "keys (r_players (set_player pid p' r)) = keys (r_players r)"
    using map_of_Some_key [of "r_players r" pid p] assms(2)
    by (simp add: set_player_def player_of_def keys_update_present)
  then show ?thesis using assms by (auto simp: roster_ok_def order_ok_def)
qed

lemma roster_saveStandings: "roster_ok (saveStandings d ss r) = roster_ok r"
  by (rule roster_cong) (simp_all add: saveStandings_def split: option.split prod.split)

lemma roster_sendResult: "roster_ok (sendResult p q out fin r) = roster_ok r"
  by (rule roster_cong) (simp_all add: sendResult_def sendTo_def send_def split: option.split)

context game_board begin

lemma fresh_resolve:
  assumes bd: "d_board d = Some b" "never_fails b" and ro: "roster_ok r" and f: "fresh entries r"
    and p: "player_of r pid = Some p"
  shows "fresh entries (snd (resolve d pid p a out ann r))"
proof (cases "save_call d p a out r")
  case (Pair err s)
  show ?thesis
  proof (cases err)
    case (Some e)
    then show ?thesis
      using Pair f by (simp add: resolve_refused)
  next
    case None
    let ?r1 = "r\<lparr>r_store := s\<rparr>"
    let ?p = "settled p out"
    let ?r3 = "saveStanding d ?p (set_player pid ?p ?r1)"
    let ?r4 = "if ann then sendResult ?p (aq_question a) out (finishes r p) ?r3 else ?r3"
    let ?r5 = "markLeaderboardDirty d ?r4"
    have id: "pl_id (ps_info ?p) = pid" using ro p by (simp add: roster_ok_def settled_def advance_def Let_def)
    have "roster_ok ?r1" "fresh entries ?r1" "player_of ?r1 pid = Some p"
      using ro f p by (simp_all add: roster_cong [of ?r1 r] player_of_def)
    then have "roster_ok (set_player pid ?p ?r1)" "fresh entries ?r3"
      using roster_set_player id fresh_saveStanding [OF bd _ id] by blast+
    then have "roster_ok ?r4" "fresh entries ?r4"
      by (simp_all add: saveStanding_def roster_saveStandings roster_sendResult)
    then have "fresh entries ?r5" by (rule fresh_markLeaderboardDirty [OF bd])
    moreover have "snd (resolve d pid p a out ann r) = (if finishes r p then endIfAllFinished d ?r5 else ?r5)"
      using Pair None by (simp add: resolve_def persist_def save_call_def finishes_def settled_def Let_def)
    ultimately show ?thesis by (simp add: fresh_endIfAllFinished)
  qed
qed

lemma fresh_settleExpired:
  assumes "d_board d = Some b" "never_fails b" "roster_ok r" "fresh entries r" "player_of r pid = Some p"
  shows "fresh entries (snd (settleExpired d pid p r))"
proof -
  let ?r = "r\<lparr>r_tick := Suc (r_tick r)\<rparr>"
  have "roster_ok ?r" "player_of ?r pid = Some p"
    using assms(3,5) by (simp_all add: roster_cong [of ?r r] player_of_def)
  then have "fresh entries (snd (resolve d pid p a out False ?r))" for a out
    using assms(4) by (intro fresh_resolve [OF assms(1,2)]) simp_all
  then show ?thesis using assms(4) by (simp add: settleExpired_def read_clock_def Let_def split: option.split)
qed

lemma fresh_serve:
  assumes "fresh entries r" "player_of r pid = Some p"
  shows "fresh entries (serve d pid p r)"
proof -
  let ?q = "r_questions r ! nat (ps_resolved p)"
  let ?r2 = "(snd (shuffledOptions d ?q r))\<lparr>r_tick := n\<rparr>"
  have h: "hushed r ((snd (shuffledOptions d ?q r))\<lparr>r_tick := n\<rparr>)" for n
    by (rule hushed_trans [OF hushed_shuffledOptions hushed_tick])
  have "fresh entries (sendQuestion p' a t (set_player pid (p\<lparr>ps_active := x\<rparr>) ((snd (shuffledOptions d ?q r))\<lparr>r_tick := n\<rparr>)))"
    for p' a t x n
  proof -
    have "player_of ((snd (shuffledOptions d ?q r))\<lparr>r_tick := n\<rparr>) pid = Some p"
      using h [of n] assms(2) by (simp add: hushed_def player_of_def)
    then show ?thesis
      using assms(1) by (simp add: fresh_set_player_same [where p = p] standingOf_def)
  qed
  then show ?thesis by (simp add: serve_def read_clock_def split_beta Let_def)
qed

lemma fresh_nextQuestion:
  assumes "d_board d = Some b" "never_fails b" "roster_ok r" "fresh entries r"
  shows "fresh entries (nextQuestion d pid r)"
proof (cases "player_of r pid")
  case (Some p)
  obtain free r1 where x: "settleExpired d pid p r = (free, r1)" by fastforce
  have f1: "fresh entries r1" using fresh_settleExpired [OF assms Some] x by simp
  have "same_game r r1" using same_game_settleExpired [OF Some, of d p] x by simp
  then have "player_of r1 pid = Some (player_at r1 pid)" using Some by (rule same_game_player_at)
  then show ?thesis
    using Some assms(4) f1 fresh_serve [OF f1]
    by (cases "r_status r = Running") (simp_all add: nextQuestion_running x Let_def, simp add: nextQuestion_def)
qed (simp add: nextQuestion_def assms)

end

lemma fresh_drop_sink:
  assumes "player_of r pid = Some p"
  shows "fresh entries (drop_sink pid p r) = fresh entries r"
proof -
  have "player_of (close old r) pid = Some p" for old using assms by (simp add: close_def player_of_def)
  then have "fresh entries (set_player pid (p\<lparr>ps_sink := None\<rparr>) (close old r)) = fresh entries (close old r)" for old
    by (intro fresh_set_player_same) (simp_all add: standingOf_def)
  then show ?thesis by (simp add: drop_sink_def split: option.split)
qed

lemma roster_drop_sink:
  assumes "roster_ok r" "player_of r pid = Some p"
  shows "roster_ok (drop_sink pid p r)"
proof -
  have "roster_ok (close old r)" for old using assms(1) by (subst roster_cong [of _ r]) (simp_all add: close_def)
  moreover have "player_of (close old r) pid = Some p" for old
    using assms(2) by (simp add: close_def player_of_def)
  ultimately have "roster_ok (set_player pid (p\<lparr>ps_sink := None\<rparr>) (close old r))" for old
    using assms by (intro roster_set_player) (auto simp: roster_ok_def)
  then show ?thesis using assms(1) by (simp add: drop_sink_def split: option.split)
qed

lemma fresh_detach: "fresh entries (detach s r) = fresh entries r"
proof -
  let ?f = "\<lambda>p. if ps_sink p = Some s then p\<lparr>ps_sink := None\<rparr> else p"
  have "player_of (detach s r) pid = map_option ?f (player_of r pid)" for pid
    by (simp add: detach_def player_of_def map_of_mapped)
  then have "key_of (detach s r) = key_of r"
    by (auto simp: key_of_def fun_eq_iff option.map_comp o_def standingOf_def intro!: option.map_cong)
  then show ?thesis by (simp add: fresh_def detach_def)
qed

lemma fresh_attachHost: "fresh entries (snd (attachHost hid s r)) = fresh entries r"
  by (simp add: attachHost_def Let_def split: option.split)

lemma fresh_addPlayer:
  assumes "fresh entries r"
  shows "fresh entries (addPlayer p r)"
proof (rule freshI)
  fix pid x
  assume "entries (r_board (addPlayer p r)) (r_id (addPlayer p r)) pid = Some x"
  then have "key_of r pid = Some x"
    by (intro freshD [OF assms]) (simp add: addPlayer_def set_player_def split: option.splits)
  then show "key_of (addPlayer p r) pid = Some x" by (auto simp: key_of_def player_of_addPlayer)
qed

lemma fresh_closeAll: "fresh entries (closeAll r) = fresh entries r"
  by (rule fresh_cong) (simp_all add: player_of_closeAll, simp_all add: closeAll_def)

context game_board begin

lemma fresh_answer:
  assumes "d_board d = Some b" "never_fails b" "roster_ok r" "fresh entries r"
  shows "fresh entries (answer d pid qid oid r)"
proof (cases "player_of r pid")
  case (Some p)
  have "fresh entries (snd (resolve d pid p a out True (snd (outcomeOf d p a oid r))))" for a out
  proof (rule fresh_resolve [OF assms(1,2)])
    show "roster_ok (snd (outcomeOf d p a oid r))" "player_of (snd (outcomeOf d p a oid r)) pid = Some p"
      using assms(3) Some roster_cong [of "snd (outcomeOf d p a oid r)" r]
      by (simp_all add: outcomeOf_def read_clock_def player_of_def Let_def split: option.split)
  qed (simp add: assms(4))
  then show ?thesis using Some assms(4) by (simp add: answer_def split_beta split: option.split)
qed (simp add: answer_def assms)

lemma fresh_attachPlayer:
  assumes "d_board d = Some b" "never_fails b" "roster_ok r" "fresh entries r"
  shows "fresh entries (snd (attachPlayer d pid s r))"
proof (cases "player_of r pid")
  case (Some p)
  let ?r1 = "drop_sink pid p r"
  have p1: "player_of ?r1 pid = Some (player_at ?r1 pid)" using drop_sink_player [OF Some] by (simp add: player_at_def)
  obtain free r2 where x: "settleExpired d pid (player_at ?r1 pid) ?r1 = (free, r2)" by fastforce
  have "fresh entries ?r1" using assms(4) by (simp add: fresh_drop_sink [OF Some])
  then have f2: "fresh entries r2"
    using fresh_settleExpired [OF assms(1,2) roster_drop_sink [OF assms(3) Some] _ p1] x by simp
  have "same_game ?r1 r2" using same_game_settleExpired [OF p1, of d "player_at ?r1 pid"] x by simp
  then have p2: "player_of r2 pid = Some (player_at r2 pid)" using p1 by (rule same_game_player_at)
  have "fresh entries (set_player pid ((player_at r2 pid)\<lparr>ps_sink := Some s\<rparr>) r2)"
    using f2 by (simp add: fresh_set_player_same [OF p2] standingOf_def)
  then show ?thesis using f2 by (simp add: attachPlayer_known [OF Some] x Let_def)
qed (simp add: attachPlayer_def assms)

lemma fresh_startSession: "fresh entries r \<Longrightarrow> fresh entries (startSession d r)"
  by (simp add: startSession_def split: sum.split prod.split)

lemma fresh_kick:
  assumes bd: "d_board d = Some b" "never_fails b" and i: "room_inv d r" and f: "fresh entries r"
  shows "fresh entries (kick d pid r)"
proof (cases "player_of r pid")
  case (Some p)
  obtain err s where x: "api_DeletePlayer (d_store d) pid (r_store r) = (err, s)" by fastforce
  let ?r1 = "r\<lparr>r_store := s, r_players := AList.delete pid (r_players r), r_order := removeID (r_order r) pid\<rparr>"
  let ?z = "snd (b_Forget b (r_id r) pid (r_board r))"
  let ?r2 = "?r1\<lparr>r_board := ?z\<rparr>"
  have fs: "forgetStanding d pid ?r1 = ?r2" using bd(1) by (simp add: forgetStanding_def split_beta)
  have e: "entries ?z (r_id r) = (entries (r_board r) (r_id r))(pid := None)"
    by (rule board_forget [OF never_fails_calls(2) [OF bd(2)]])
  have "key_of ?r2 = (key_of r)(pid := None)" by (auto simp: key_of_def player_of_def fun_eq_iff)
  then have f2: "fresh entries ?r2" using f e by (auto simp: fresh_def map_le_def)
  have ro: "roster_ok ?r1" by (rule roster_room_inv [OF room_inv_remove [OF i]])
  let ?r3 = "case ps_sink p of None \<Rightarrow> ?r2
    | Some k \<Rightarrow> close k (send k (MPlayerKicked ''kicked by host'') ?r2)"
  have "roster_ok ?r3"
    using ro by (subst roster_cong [of _ ?r1]) (simp_all add: close_def send_def split: option.split)
  moreover have "fresh entries ?r3" using f2 by (simp split: option.split)
  ultimately have "fresh entries (markLeaderboardDirty d ?r3)" by (rule fresh_markLeaderboardDirty [OF bd])
  then show ?thesis
    using Some x f fs by (cases err; cases "ps_sink p") (simp_all add: kick_def Let_def fresh_endIfAllFinished)
qed (simp add: kick_def f)

lemma fresh_turn:
  assumes bd: "d_board d = Some b" "never_fails b" and i: "room_inv d r" and f: "fresh entries r"
  shows "fresh entries (turn d ev r)"
proof -
  note ro = roster_room_inv [OF i]
  have "fresh entries (handle d ev r)"
  proof (cases ev)
    case EvRestoreBoard
    then show ?thesis using fresh_restore [OF bd ro fresh_dom [OF f ro]] by (simp add: restoreBoard_def)
  next
    case (EvAddPlayer p)
    then show ?thesis using fresh_addPlayer [OF f] by (simp add: addPlayerAndNotify_def Let_def split: option.split)
  qed (use f bd ro in \<open>simp_all add: fresh_attachPlayer fresh_attachHost fresh_detach fresh_startSession
    fresh_endSession fresh_kick [OF bd i] fresh_nextQuestion fresh_answer fresh_lbTimerFires fresh_closeAll\<close>)
  then show ?thesis by (simp add: turn_def stopTimers_def Let_def)
qed

end

subsection \<open>The leaderboard a running room shows\<close>

text \<open>
  A run of a room whose board may lose entries at any moment: a key expires after two hours, and
  Redis may come back empty. The goroutine restores the board before it takes an event.
\<close>

inductive board_steps :: "('b \<Rightarrow> uid \<Rightarrow> uid \<Rightarrow> rat option) \<Rightarrow> ('s, 'b) deps \<Rightarrow> ('s, 'b) room \<Rightarrow>
    ('s, 'b) room \<Rightarrow> bool" for entries d where
  refl: "board_steps entries d r r"
| step: "board_steps entries d r r' \<Longrightarrow> room_step d r' r'' \<Longrightarrow> board_steps entries d r r''"
| lose: "board_steps entries d r r' \<Longrightarrow> entries z (r_id r') \<subseteq>\<^sub>m entries (r_board r') (r_id r') \<Longrightarrow>
     board_steps entries d r (r'\<lparr>r_board := z\<rparr>)"

context game_board begin

lemma fresh_steps:
  assumes "board_steps entries d r r'" "d_board d = Some b" "never_fails b" "mono (d_clock d)"
    and "fresh entries r" "room_inv d r" "r_status r = Ended \<longrightarrow> r_done r"
  shows "fresh entries r' \<and> room_inv d r' \<and> (r_status r' = Ended \<longrightarrow> r_done r') \<and>
    r_questions r' = r_questions r"
  using assms
proof (induction rule: board_steps.induct)
  case (step r r' r'')
  then have i: "fresh entries r'" "room_inv d r'" "r_status r' = Ended \<longrightarrow> r_done r'"
    "r_questions r' = r_questions r" by simp_all
  have "fresh entries r'' \<and> r_questions r'' = r_questions r'"
    using step.hyps(2)
  proof (cases rule: room_step.cases)
    case (take_event ev)
    then show ?thesis
      using fresh_turn [OF step.prems(1,2) i(2,1)] by (simp add: turn_fields)
  qed (simp add: i(1))
  then show ?case using i(4) room_inv_step [OF step.prems(3) step.hyps(2) i(2,3)] by simp
next
  case (lose r r' z)
  then have i: "fresh entries r'" "room_inv d r'" "r_status r' = Ended \<longrightarrow> r_done r'"
    "r_questions r' = r_questions r" by simp_all
  have "key_of (r'\<lparr>r_board := z\<rparr>) = key_of r'" by (simp add: key_of_def player_of_def fun_eq_iff)
  then have "fresh entries (r'\<lparr>r_board := z\<rparr>)"
    using i(1) lose.hyps(2) by (auto simp: fresh_def intro: map_le_trans)
  then show ?case using i room_inv_quiet [OF quiet_board lose.prems(3) i(2)] by simp
qed simp

end

text \<open>While the room has at most 15 questions, the keys order the players as the criteria do.\<close>

lemma standing_in_range:
  assumes "room_inv d r" "length (r_questions r) \<le> 15" "pid \<in> set (r_order r)"
  shows "in_range (standing_at r pid)"
proof -
  have p: "player_of r pid = Some (player_at r pid)" by (rule order_player(1) [OF roster_room_inv [OF assms(1)] assms(3)])
  let ?p = "player_at r pid"
  have "totals_ok (length (r_questions r)) ?p" using room_invD(1) [OF assms(1) p] by (simp add: player_ok_def)
  then show ?thesis
    using assms(2) unfolding totals_ok_def in_range_def standing_at_def standingOf_def maxTotalMs_def correctUnit_def
    by simp
qed

definition best_first :: "('s, 'b) room \<Rightarrow> uid list \<Rightarrow> bool" where
  "best_first r ids \<longleftrightarrow> mset ids = mset (r_order r) \<and>
     sorted_wrt (\<lambda>x y. criteria (standing_at r x) \<le> criteria (standing_at r y)) ids"

lemma ranked_best_first:
  assumes "ranked r ids" "room_inv d r" "length (r_questions r) \<le> 15"
  shows "best_first r ids"
proof -
  have m: "mset ids = mset (r_order r)" using assms(1) by (simp add: ranked_def)
  have "in_range (standing_at r x)" if "x \<in> set ids" for x
    using standing_in_range [OF assms(2,3)] that m by (metis mset_eq_setD)
  then have "sorted_wrt (\<lambda>x y. criteria (standing_at r x) \<le> criteria (standing_at r y)) ids"
    using assms(1) Key_order by (auto simp: ranked_def intro: sorted_wrt_mono_rel [rotated])
  then show ?thesis using m by (simp add: best_first_def)
qed

lemma newRoom_order:
  fixes s :: 's and b :: 'b
  assumes "mono (d_clock d)" "players_loaded_ok qs ps"
  shows "pl_id ` set ps \<subseteq> set (r_order (newRoom d data ps qs s b))"
proof -
  have keeps: "player_of r pid \<noteq> None \<Longrightarrow> player_of (fold addPlayer xs r) pid \<noteq> None"
    for r :: "('s, 'b) room" and xs pid
    by (induction xs arbitrary: r) (auto simp: player_of_addPlayer)
  have "player_of (fold addPlayer xs r) pid \<noteq> None" if "pid \<in> pl_id ` set xs" for r :: "('s, 'b) room" and xs pid
    using that
  proof (induction xs arbitrary: r)
    case (Cons x xs)
    have "player_of (addPlayer x r) (pl_id x) \<noteq> None" by (auto simp: player_of_addPlayer)
    then show ?case using Cons keeps by (cases "pid = pl_id x") auto
  qed simp
  then have "player_of (newRoom d data ps qs s b) pid \<noteq> None" if "pid \<in> pl_id ` set ps" for pid
    using that by (simp add: newRoom_def armDeadline_def read_clock_def player_of_def Let_def)
  moreover have "set (r_order (newRoom d data ps qs s b)) = set (keys (r_players (newRoom d data ps qs s b)))"
    using room_inv_newRoom [OF assms] by (simp add: room_inv_def order_ok_def)
  ultimately show ?thesis
    unfolding player_of_def map_of_None_key by blast
qed

lemma newRoom_board:
  fixes s :: 's and b :: 'b
  shows "r_board (newRoom d data ps qs s b) = b"
proof -
  have "r_board (fold addPlayer ps r) = r_board r" for r :: "('s, 'b) room"
    by (induction ps arbitrary: r) (simp_all add: addPlayer_def set_player_def split: option.split)
  then show ?thesis by (simp add: newRoom_def blank_room_def armDeadline_def read_clock_def Let_def)
qed

definition rankings :: "('s, 'b) room \<Rightarrow> uid list \<Rightarrow> ranking list" where
  "rankings r ids = map (\<lambda>(i, pid). let p = player_at r pid in
     \<lparr>rk_rank = i + 1, rk_nickname = pl_nickname (ps_info p), rk_school = pl_school (ps_info p),
      rk_points = ps_score p, rk_correctCount = ps_correct p\<rparr>) (enumerate 0 ids)"

lemma sendLeaderboard_log:
  "r_out (sendLeaderboard d r) = r_out (broadcast (MLbUpdate (rankings r (fst (rankedIDs d r)))) r)"
proof -
  have u: "r_players (snd (rankedIDs d r)) = r_players r" "r_host (snd (rankedIDs d r)) = r_host r"
    using quiet_fields(7,9) [OF quiet_rankedIDs] by auto
  have "player_at (snd (rankedIDs d r)) = player_at r" by (simp add: player_at_def player_of_def u fun_eq_iff)
  then show ?thesis
    by (simp add: sendLeaderboard_def rankings_def read_clock_def broadcast_def u rankedIDs_out split_beta Let_def)
qed

lemma best_first_shown:
  assumes "redis_laws rd zset" "never_fails (board_ops rd)" "d_board d = Some (board_ops rd)"
    and "mono (d_clock d)" "players_loaded_ok qs ps" "rd_status data \<noteq> Ended" "length qs \<le> 15"
    and "dom (zset z (roomKey (rd_id data))) \<subseteq> pl_id ` set ps"
    and "board_steps (\<lambda>z rid. zset z (roomKey rid)) d (turn d EvRestoreBoard (newRoom d data ps qs s z)) r"
  shows "best_first r (fst (rankedIDs d r))"
proof -
  let ?e = "\<lambda>z rid. zset z (roomKey rid)"
  let ?n = "newRoom d data ps qs s z"
  let ?r0 = "turn d EvRestoreBoard ?n"
  note gb = board_ops_laws [OF assms(1)]
  have i: "room_inv d ?n" by (rule room_inv_newRoom [OF assms(4,5)])
  have r0: "?r0 = saveStandings d (standings ?n) ?n"
    using assms(6) quiet_fields(6) [OF quiet_restoreBoard [of d ?n]]
    by (simp add: turn_def restoreBoard_def newRoom_fields Let_def)
  have q: "quiet d ?n ?r0" unfolding r0 by (rule quiet_saveStandings)
  have "dom (?e (r_board ?n) (r_id ?n)) \<subseteq> set (r_order ?n)"
    using assms(8) newRoom_order [OF assms(4,5), of data s z] by (simp add: newRoom_board newRoom_fields)
  then have "fresh ?e ?r0"
    unfolding r0 by (rule game_board.fresh_restore [OF gb assms(3,2) roster_room_inv [OF i]])
  moreover have "room_inv d ?r0" by (rule room_inv_quiet [OF q assms(4) i])
  moreover have "r_status ?r0 \<noteq> Ended" "r_questions ?r0 = qs"
    using quiet_fields(5,6) [OF q] assms(6) by (simp_all add: newRoom_fields)
  ultimately have f: "fresh ?e r" "room_inv d r" "r_questions r = qs"
    using game_board.fresh_steps [OF gb assms(9,3,2,4)] by simp_all
  have "ranked r (fst (rankedIDs d r))"
    using game_board.rankedIDs_ranked [OF gb assms(3,2) roster_room_inv [OF f(2)] f(1)] by simp
  then show ?thesis using f assms(7) by (intro ranked_best_first) simp_all
qed


subsection \<open>The podium\<close>

definition podium_of :: "('s, 'b) room \<Rightarrow> uid list \<Rightarrow> podium_entry list" where
  "podium_of r ids = map (\<lambda>(i, pid). let p = player_at r pid in
     \<lparr>pe_rank = i + 1, pe_nickname = pl_nickname (ps_info p), pe_avatar = pl_avatar (ps_info p),
      pe_score = ps_score p\<rparr>) (enumerate 0 ids)"

lemma best_first_Order:
  "room_inv d r \<Longrightarrow> length (r_questions r) \<le> 15 \<Longrightarrow> best_first r (Order (standings r))"
  using ranked_best_first [OF ranked_Order [OF roster_room_inv]] by blast

lemma podium_take: "podium r = podium_of r (take 3 (Order (standings r)))"
  by (simp add: podium_def podium_of_def podiumSize_def Let_def min_def)


subsection \<open>A board in memory\<close>

text \<open>
  A concrete board that keeps the laws: sorted sets as association lists per key. It shows that the
  laws can be kept, and serves the concrete game of \<open>Scenario\<close>.
\<close>

type_synonym memory = "string \<Rightarrow> (string \<times> rat) list"

definition memory_zset :: "memory \<Rightarrow> string \<Rightarrow> string \<Rightarrow> rat option" where
  "memory_zset z key = map_of (z key)"

fun memory_cmd :: "redis_cmd \<Rightarrow> memory \<Rightarrow> memory" where
  "memory_cmd (ZADD key ms) z = z(key := fold (\<lambda>(s, m). AList.update m s) ms (z key))"
| "memory_cmd (EXPIRE key ttl) z = z"

definition memory_range :: "(string \<times> rat) list \<Rightarrow> string list" where
  "memory_range xs = rev (map fst (sort_key snd xs))"

definition memory_redis :: "memory redis_client" where
  "memory_redis = \<lparr>rc_exec = (\<lambda>cs z. (True, fold memory_cmd cs z)),
     rc_zrange_rev = (\<lambda>key z. (Some (memory_range (AList.clearjunk (z key))), z)),
     rc_zrem = (\<lambda>key m z. (True, z(key := AList.delete m (z key))))\<rparr>"

lemma memory_range_laws:
  assumes "distinct (keys xs)"
  shows "distinct (memory_range xs) \<and> set (memory_range xs) = dom (map_of xs) \<and>
    sorted_wrt (\<lambda>a b. the (map_of xs b) \<le> the (map_of xs a)) (memory_range xs)"
proof -
  let ?ys = "sort_key snd xs"
  have m: "mset ?ys = mset xs" by simp
  have "mset (map fst ?ys) = mset (map fst xs)" by simp
  then have d: "distinct (map fst ?ys)" using assms by (metis mset_eq_imp_distinct_iff)
  have v: "the (map_of xs (fst y)) = snd y" if "y \<in> set ?ys" for y
  proof -
    have "(fst y, snd y) \<in> set xs" using that by simp
    then have "map_of xs (fst y) = Some (snd y)" by (rule map_of_is_SomeI [OF assms])
    then show ?thesis by simp
  qed
  have "sorted_wrt (\<lambda>x y. snd x \<le> snd y) ?ys" by (metis sorted_map sorted_sort_key)
  then have "sorted_wrt (\<lambda>x y. the (map_of xs (fst x)) \<le> the (map_of xs (fst y))) ?ys"
    using v by (auto intro: sorted_wrt_mono_rel [rotated])
  then show ?thesis
    using d by (simp add: memory_range_def sorted_wrt_rev sorted_wrt_map dom_map_of_conv_image_fst)
qed

lemma fold_update_rev:
  "map_of (fold (\<lambda>(s, m). AList.update m s) ms xs) = map_of xs ++ map_of (rev (map (\<lambda>(s, m). (m, s)) ms))"
  by (induction ms arbitrary: xs) (auto simp: map_add_upd_left fun_eq_iff map_add_def split: option.split)

lemma memory_redis_laws: "redis_laws memory_redis memory_zset"
proof -
  have "map_of (AList.clearjunk xs) = map_of xs" "distinct (keys (AList.clearjunk xs))" for xs :: "(string \<times> rat) list"
    by (simp_all add: map_of_clearjunk distinct_clearjunk)
  then show ?thesis
    using memory_range_laws
    by (auto simp: redis_laws_def memory_redis_def memory_zset_def fold_update_rev simp del: distinct_clearjunk) metis+
qed

interpretation mem: game_board "board_ops memory_redis" "\<lambda>z rid. memory_zset z (roomKey rid)"
  by (rule board_ops_laws [OF memory_redis_laws])

lemma memory_never_fails: "never_fails (board_ops memory_redis)"
  by (simp add: never_fails_def board_ops_def Redis_Save_def Redis_Forget_def memory_redis_def Let_def)

end
