(* ===== verification/RateLimit.thy ===== *)
theory RateLimit
  imports Prelude
begin

section \<open>Rate limiting: api/internal/ratelimit/limiter.go\<close>

text \<open>
  Attempts are counted per key, in Redis where it answers and in memory otherwise. The call to
  Redis (\<open>INCR\<close> and \<open>EXPIRE NX\<close> in one transaction) is a parameter: it returns the counter or
  fails. The windows in memory are the Go map, with the pruning of a map that has grown large.

  The limiter promises a bound: of the attempts that the memory decides, no stretch of time as long
  as the window sees more than twice the limit let through, whatever keys are tried in between
  and whenever the map is pruned (\<open>at_most_twice_the_limit\<close>).
\<close>

subsection \<open>The code\<close>

definition pruneThreshold :: nat where "pruneThreshold = 1024"

record rate_window =
  w_count :: int
  w_resetAt :: time

record 'z limiter =
  lm_client :: "(string \<Rightarrow> duration \<Rightarrow> 'z \<Rightarrow> int option \<times> 'z) option"
  lm_limit :: int
  lm_window :: duration
  lm_now :: "nat \<Rightarrow> time"

text \<open>What changes: the windows, the state of Redis and the readings of the clock made so far.\<close>

record 'z limits =
  li_windows :: "(string \<times> rate_window) list"
  li_redis :: 'z
  li_tick :: nat

definition pruneExpired :: "time \<Rightarrow> (string \<times> rate_window) list \<Rightarrow> (string \<times> rate_window) list" where
  "pruneExpired now ws = filter (\<lambda>(key, w). now < w_resetAt w) ws"

definition countInRedis :: "'z limiter \<Rightarrow> string \<Rightarrow> 'z limits \<Rightarrow> int option \<times> 'z limits" where
  "countInRedis l key s =
     (case lm_client l of
        None \<Rightarrow> (None, s)
      | Some incr \<Rightarrow> (let (n, z) = incr key (lm_window l) (li_redis s) in (n, s\<lparr>li_redis := z\<rparr>)))"

definition countInMemory :: "'z limiter \<Rightarrow> string \<Rightarrow> 'z limits \<Rightarrow> int \<times> 'z limits" where
  "countInMemory l key s =
     (let now = lm_now l (li_tick s);
          ws = (if length (li_windows s) > pruneThreshold then pruneExpired now (li_windows s)
                else li_windows s);
          w = (case map_of ws key of
                 None \<Rightarrow> \<lparr>w_count = 0, w_resetAt = now + lm_window l\<rparr>
               | Some w \<Rightarrow> if \<not> now < w_resetAt w then \<lparr>w_count = 0, w_resetAt = now + lm_window l\<rparr> else w);
          w' = w\<lparr>w_count := w_count w + 1\<rparr>
      in (w_count w', s\<lparr>li_windows := AList.update key w' ws, li_tick := Suc (li_tick s)\<rparr>))"

definition Allow :: "'z limiter \<Rightarrow> string \<Rightarrow> 'z limits \<Rightarrow> bool \<times> 'z limits" where
  "Allow l key s =
     (if lm_limit l \<le> 0 then (True, s)
      else case (if lm_client l = None then (None, s) else countInRedis l (''rl:'' @ key) s) of
             (Some n, s1) \<Rightarrow> (n \<le> lm_limit l, s1)
           | (None, s1) \<Rightarrow> (let (n, s2) = countInMemory l key s1 in (n \<le> lm_limit l, s2)))"

subsection \<open>Runs\<close>

text \<open>
  The attempts of a run, newest first: the key, the time, whether the memory decided, the end of
  the window it counted in, and the verdict.
\<close>

record attempt =
  at_key :: string
  at_time :: time
  at_memory :: bool
  at_reset :: time
  at_allowed :: bool

definition attempt_of :: "'z limiter \<Rightarrow> string \<Rightarrow> 'z limits \<Rightarrow> attempt" where
  "attempt_of l key s =
     (let (ok, s') = Allow l key s in
      \<lparr>at_key = key, at_time = lm_now l (li_tick s), at_memory = (li_tick s' \<noteq> li_tick s),
       at_reset = (case map_of (li_windows s') key of None \<Rightarrow> 0 | Some w \<Rightarrow> w_resetAt w), at_allowed = ok\<rparr>)"

fun attempts :: "'z limiter \<Rightarrow> string list \<Rightarrow> attempt list \<Rightarrow> 'z limits \<Rightarrow> attempt list \<times> 'z limits" where
  "attempts l [] log s = (log, s)"
| "attempts l (key # ks) log s = attempts l ks (attempt_of l key s # log) (snd (Allow l key s))"

definition start_of :: "'z \<Rightarrow> 'z limits" where
  "start_of z = \<lparr>li_windows = [], li_redis = z, li_tick = 0\<rparr>"

definition run_log :: "'z limiter \<Rightarrow> string list \<Rightarrow> 'z \<Rightarrow> attempt list" where
  "run_log l ks z = fst (attempts l ks [] (start_of z))"

text \<open>The attempts of a key that the memory let through.\<close>

definition passed :: "string \<Rightarrow> attempt list \<Rightarrow> attempt list" where
  "passed key log = filter (\<lambda>a. at_key a = key \<and> at_memory a \<and> at_allowed a) log"

subsection \<open>The windows of a key\<close>

text \<open>
  What holds after any run, for one key: the windows its attempts counted in do not overlap, each
  attempt lies in its window, at most \<open>limit\<close> passed in each, and the map knows the last window
  unless it is over.
\<close>

definition window_inv :: "'z limiter \<Rightarrow> string \<Rightarrow> attempt list \<Rightarrow> 'z limits \<Rightarrow> bool" where
  "window_inv l key log s \<longleftrightarrow>
     (\<forall>a \<in> set (passed key log). at_reset a - lm_window l \<le> at_time a \<and> at_time a < at_reset a) \<and>
     (\<forall>a \<in> set (passed key log). \<forall>b \<in> set (passed key log). at_reset a = at_reset b \<or>
        at_reset a + lm_window l \<le> at_reset b \<or> at_reset b + lm_window l \<le> at_reset a) \<and>
     (\<forall>r. int (length (filter (\<lambda>a. at_reset a = r) (passed key log))) \<le> lm_limit l) \<and>
     (case map_of (li_windows s) key of
        None \<Rightarrow> \<forall>a \<in> set (passed key log). at_reset a \<le> lm_now l (li_tick s)
      | Some w \<Rightarrow> (\<forall>a \<in> set (passed key log). at_reset a = w_resetAt w \<or>
            at_reset a + lm_window l \<le> w_resetAt w) \<and>
          w_resetAt w - lm_window l \<le> lm_now l (li_tick s) \<and> 0 \<le> w_count w \<and>
          int (length (filter (\<lambda>a. at_reset a = w_resetAt w) (passed key log))) \<le> w_count w)"

lemma window_inv_later:
  assumes "window_inv l key log s" "mono (lm_now l)" "li_tick s \<le> li_tick s'"
    and "map_of (li_windows s') key = map_of (li_windows s) key"
  shows "window_inv l key log s'"
proof -
  have "lm_now l (li_tick s) \<le> lm_now l (li_tick s')" using assms(2,3) by (rule monoD)
  then show ?thesis using assms(1,4) by (force simp: window_inv_def split: option.splits)
qed

lemma map_of_prune: "map_of (pruneExpired now ws) key = None \<or> map_of (pruneExpired now ws) key = map_of ws key"
  if "distinct (keys ws)"
proof (cases "map_of (pruneExpired now ws) key")
  case (Some w)
  then have "(key, w) \<in> set ws" by (auto simp: pruneExpired_def dest!: map_of_SomeD)
  then show ?thesis using that Some by simp
qed simp

lemma map_of_prune_None:
  assumes "map_of (pruneExpired now ws) key = None" "map_of ws key = Some w"
  shows "w_resetAt w \<le> now"
proof (rule ccontr)
  assume "\<not> w_resetAt w \<le> now"
  then have "(key, w) \<in> set (pruneExpired now ws)" using map_of_SomeD [OF assms(2)] by (simp add: pruneExpired_def)
  then show False using assms(1) by (force simp: map_of_eq_None_iff)
qed

lemma distinct_prune: "distinct (keys ws) \<Longrightarrow> distinct (keys (pruneExpired now ws))"
  unfolding pruneExpired_def by (induction ws) (auto split: if_splits)

subsection \<open>One attempt\<close>

text \<open>The window an attempt counts in: the one on record while it lasts, else a new one.\<close>

definition window_at :: "'z limiter \<Rightarrow> string \<Rightarrow> 'z limits \<Rightarrow> rate_window" where
  "window_at l key s =
     (let now = lm_now l (li_tick s) in
      case map_of (li_windows s) key of
        Some w \<Rightarrow> if now < w_resetAt w then w else \<lparr>w_count = 0, w_resetAt = now + lm_window l\<rparr>
      | None \<Rightarrow> \<lparr>w_count = 0, w_resetAt = now + lm_window l\<rparr>)"

definition kept_windows :: "'z limiter \<Rightarrow> 'z limits \<Rightarrow> (string \<times> rate_window) list" where
  "kept_windows l s = (if length (li_windows s) > pruneThreshold
     then pruneExpired (lm_now l (li_tick s)) (li_windows s) else li_windows s)"

lemma kept_windows_cases:
  assumes "distinct (keys (li_windows s))"
  shows "map_of (kept_windows l s) key = map_of (li_windows s) key \<or>
    map_of (kept_windows l s) key = None \<and> (\<exists>w. map_of (li_windows s) key = Some w \<and> w_resetAt w \<le> lm_now l (li_tick s))"
proof (cases "map_of (pruneExpired (lm_now l (li_tick s)) (li_windows s)) key = map_of (li_windows s) key")
  case False
  then obtain w where "map_of (li_windows s) key = Some w"
    "map_of (pruneExpired (lm_now l (li_tick s)) (li_windows s)) key = None"
    using map_of_prune [OF assms] by (cases "map_of (li_windows s) key") metis+
  then show ?thesis using map_of_prune_None by (auto simp: kept_windows_def)
qed (simp add: kept_windows_def)

lemma countInMemory_eq:
  assumes "distinct (keys (li_windows s))"
  shows "countInMemory l key s =
    (let w = window_at l key s; w' = w\<lparr>w_count := w_count w + 1\<rparr> in
     (w_count w', s\<lparr>li_windows := AList.update key w' (kept_windows l s), li_tick := Suc (li_tick s)\<rparr>))"
proof -
  have "(case map_of (kept_windows l s) key of
          None \<Rightarrow> \<lparr>w_count = 0, w_resetAt = lm_now l (li_tick s) + lm_window l\<rparr>
        | Some w \<Rightarrow> if \<not> lm_now l (li_tick s) < w_resetAt w
            then \<lparr>w_count = 0, w_resetAt = lm_now l (li_tick s) + lm_window l\<rparr> else w) = window_at l key s"
    using kept_windows_cases [OF assms, of l key] by (auto simp: window_at_def Let_def split: option.split)
  then show ?thesis by (simp add: countInMemory_def kept_windows_def Let_def)
qed

lemma window_at_fields:
  assumes "window_inv l key log s" "0 < lm_window l"
  defines "w \<equiv> window_at l key s"
  shows "lm_now l (li_tick s) < w_resetAt w" "w_resetAt w - lm_window l \<le> lm_now l (li_tick s)" "0 \<le> w_count w"
    and "\<forall>a \<in> set (passed key log). at_reset a = w_resetAt w \<or> at_reset a + lm_window l \<le> w_resetAt w"
    and "int (length (filter (\<lambda>a. at_reset a = w_resetAt w) (passed key log))) \<le> w_count w"
proof -
  let ?now = "lm_now l (li_tick s)"
  have "?now < w_resetAt w \<and> w_resetAt w - lm_window l \<le> ?now \<and> 0 \<le> w_count w \<and>
    (\<forall>a \<in> set (passed key log). at_reset a = w_resetAt w \<or> at_reset a + lm_window l \<le> w_resetAt w) \<and>
    int (length (filter (\<lambda>a. at_reset a = w_resetAt w) (passed key log))) \<le> w_count w"
  proof (cases "\<exists>v. map_of (li_windows s) key = Some v \<and> ?now < w_resetAt v")
    case True
    then obtain v where v: "map_of (li_windows s) key = Some v" "?now < w_resetAt v" by blast
    then have "w = v" by (simp add: w_def window_at_def)
    then show ?thesis using assms(1) v by (simp add: window_inv_def)
  next
    case False
    then have w: "w = \<lparr>w_count = 0, w_resetAt = ?now + lm_window l\<rparr>"
      by (auto simp: w_def window_at_def Let_def split: option.split)
    have old: "at_reset a \<le> ?now" if "a \<in> set (passed key log)" for a
    proof (cases "map_of (li_windows s) key")
      case None
      then show ?thesis using assms(1) that by (simp add: window_inv_def)
    next
      case (Some v)
      then have "at_reset a \<le> w_resetAt v" using assms that by (force simp: window_inv_def)
      then show ?thesis using False Some by auto
    qed
    then have "filter (\<lambda>a. at_reset a = ?now + lm_window l) (passed key log) = []"
      using assms(2) old by (fastforce simp: filter_empty_conv)
    then show ?thesis using w old assms(2) by (auto simp: less_imp_le)
  qed
  then show "lm_now l (li_tick s) < w_resetAt w" "w_resetAt w - lm_window l \<le> lm_now l (li_tick s)" "0 \<le> w_count w"
    and "\<forall>a \<in> set (passed key log). at_reset a = w_resetAt w \<or> at_reset a + lm_window l \<le> w_resetAt w"
    and "int (length (filter (\<lambda>a. at_reset a = w_resetAt w) (passed key log))) \<le> w_count w" by blast+
qed

lemma passed_Cons:
  "passed key (a # log) = (if at_key a = key \<and> at_memory a \<and> at_allowed a then a # passed key log else passed key log)"
  by (simp add: passed_def)

lemma window_inv_passed: "passed k log' = passed k log \<Longrightarrow> window_inv l k log' s = window_inv l k log s"
  by (simp only: window_inv_def)

text \<open>An attempt that the memory does not decide changes no window.\<close>

lemma Allow_cases:
  assumes "distinct (keys (li_windows s))"
  obtains (other) ok z where "Allow l key s = (ok, s\<lparr>li_redis := z\<rparr>)"
  | (memory) z where "0 < lm_limit l"
    "Allow l key s = (let (n, s2) = countInMemory l key (s\<lparr>li_redis := z\<rparr>) in (n \<le> lm_limit l, s2))"
proof (cases "lm_limit l \<le> 0")
  case True
  then show ?thesis using other [of True "li_redis s"] by (simp add: Allow_def)
next
  case pos: False
  show ?thesis
  proof (cases "lm_client l")
    case None
    then show ?thesis using memory [of "li_redis s"] pos by (simp add: Allow_def)
  next
    case (Some incr)
    obtain c z where "incr (''rl:'' @ key) (lm_window l) (li_redis s) = (c, z)" by fastforce
    then show ?thesis using memory [of z] other [of _ z] pos Some
      by (cases c) (auto simp: Allow_def countInRedis_def)
  qed
qed

lemma window_inv_redis [simp]: "window_inv l key log (s\<lparr>li_redis := z\<rparr>) = window_inv l key log s"
  unfolding window_inv_def limits.simps limits.update_convs by (simp split: option.split)

lemma window_at_redis [simp]:
  "window_at l key (s\<lparr>li_redis := z\<rparr>) = window_at l key s" "kept_windows l (s\<lparr>li_redis := z\<rparr>) = kept_windows l s"
  by (simp_all add: window_at_def kept_windows_def)

lemma distinct_update: "distinct (keys ws) \<Longrightarrow> distinct (keys (AList.update k v ws))"
  by (rule distinct_update)

lemma distinct_kept: "distinct (keys (li_windows s)) \<Longrightarrow> distinct (keys (kept_windows l s))"
  by (simp add: kept_windows_def distinct_prune del: set_map)

lemma window_inv_counted:
  assumes inv: "window_inv l k log s" and d: "distinct (keys (li_windows s))"
    and m: "mono (lm_now l)" and pos: "0 < lm_window l" "0 < lm_limit l"
    and s': "s' = s\<lparr>li_windows := AList.update key (w\<lparr>w_count := w_count w + 1\<rparr>) (kept_windows l s),
      li_tick := Suc (li_tick s)\<rparr>"
    and w: "w = window_at l key s"
    and a: "at_key a = key" "at_time a = lm_now l (li_tick s)" "at_reset a = w_resetAt w"
      "at_allowed a \<longrightarrow> w_count w + 1 \<le> lm_limit l"
  shows "window_inv l k (a # log) s'"
proof (cases "k = key")
  case False
  have t: "lm_now l (li_tick s) \<le> lm_now l (li_tick s')" using m s' by (simp add: monoD)
  have p: "passed k (a # log) = passed k log" using False a(1) by (auto simp: passed_Cons)
  have new: "map_of (li_windows s') k = map_of (kept_windows l s) k" using False s' by simp
  from kept_windows_cases [OF d, of l k] show ?thesis
  proof
    assume "map_of (kept_windows l s) k = map_of (li_windows s) k"
    then have "window_inv l k log s'" using inv m s' new by (intro window_inv_later [OF inv m]) simp_all
    then show ?thesis unfolding window_inv_def p .
  next
    assume "map_of (kept_windows l s) k = None \<and>
      (\<exists>w. map_of (li_windows s) k = Some w \<and> w_resetAt w \<le> lm_now l (li_tick s))"
    then obtain v where v: "map_of (kept_windows l s) k = None" "map_of (li_windows s) k = Some v"
      "w_resetAt v \<le> lm_now l (li_tick s)" by blast
    have "at_reset x \<le> lm_now l (li_tick s')" if "x \<in> set (passed k log)" for x
      using inv v t pos that by (force simp: window_inv_def)
    moreover have "map_of (li_windows s') k = None" using v new by simp
    ultimately show ?thesis using inv unfolding window_inv_def p by simp
  qed
next
  case True
  note f = window_at_fields [OF inv pos(1), unfolded True, folded w]
  let ?p = "passed key log"
  have c: "int (length (filter (\<lambda>x. at_reset x = r) (passed key (a # log)))) \<le>
      (if r = w_resetAt w then w_count w + 1 else lm_limit l)" for r
  proof -
    have "int (length (filter (\<lambda>x. at_reset x = r) ?p)) \<le> lm_limit l" using inv True by (simp add: window_inv_def)
    then show ?thesis using f(5) a(3) by (auto simp: passed_Cons)
  qed
  have lim: "int (length (filter (\<lambda>x. at_reset x = r) (passed key (a # log)))) \<le> lm_limit l" for r
  proof (cases "r = w_resetAt w \<and> at_allowed a")
    case True
    then show ?thesis using c [of r] a(4) by simp
  next
    case False
    then have "filter (\<lambda>x. at_reset x = r) (passed key (a # log)) = filter (\<lambda>x. at_reset x = r) ?p"
      using a(3) by (auto simp: passed_Cons)
    then show ?thesis using inv True by (simp add: window_inv_def)
  qed
  have t: "lm_now l (li_tick s) \<le> lm_now l (li_tick s')" using m s' by (simp add: monoD)
  have mem: "map_of (li_windows s') key = Some (w\<lparr>w_count := w_count w + 1\<rparr>)" using s' by simp
  have old: "at_reset x - lm_window l \<le> at_time x \<and> at_time x < at_reset x" if "x \<in> set ?p" for x
    using inv that True by (simp add: window_inv_def)
  have apart: "at_reset x = at_reset y \<or> at_reset x + lm_window l \<le> at_reset y \<or> at_reset y + lm_window l \<le> at_reset x"
    if "x \<in> set ?p" "y \<in> set ?p" for x y
    using inv that True unfolding window_inv_def by blast
  have sub: "x \<in> set (passed key (a # log)) \<Longrightarrow> x = a \<or> x \<in> set ?p" for x by (auto simp: passed_Cons split: if_splits)
  have own: "at_reset a - lm_window l \<le> at_time a \<and> at_time a < at_reset a" using a f(1,2) by simp
  have new: "at_reset x = at_reset a \<or> at_reset x + lm_window l \<le> at_reset a" if "x \<in> set ?p" for x
    using f(4) that a(3) by auto
  show ?thesis
    unfolding window_inv_def True mem option.case rate_window.simps
  proof (intro conjI ballI allI)
    fix x y
    assume "x \<in> set (passed key (a # log))" "y \<in> set (passed key (a # log))"
    then show "at_reset x = at_reset y \<or> at_reset x + lm_window l \<le> at_reset y \<or> at_reset y + lm_window l \<le> at_reset x"
      using sub new apart by metis
  next
    show "int (length (filter (\<lambda>x. at_reset x = w_resetAt (w\<lparr>w_count := w_count w + 1\<rparr>)) (passed key (a # log))))
        \<le> w_count (w\<lparr>w_count := w_count w + 1\<rparr>)"
      using c [of "w_resetAt w"] by simp
  qed (use sub own old new lim f t a(3) in \<open>auto dest: sub\<close>)
qed

lemma attempt_step:
  assumes inv: "window_inv l k log s" and d: "distinct (keys (li_windows s))"
    and m: "mono (lm_now l)" and pos: "0 < lm_window l"
  shows "window_inv l k (attempt_of l key s # log) (snd (Allow l key s)) \<and>
    distinct (keys (li_windows (snd (Allow l key s))))"
proof (rule Allow_cases [OF d, of l key])
  fix ok z
  assume other: "Allow l key s = (ok, s\<lparr>li_redis := z\<rparr>)"
  have "\<not> at_memory (attempt_of l key s)" using other by (simp add: attempt_of_def Let_def)
  then have "passed k (attempt_of l key s # log) = passed k log" by (simp add: passed_Cons)
  moreover have "window_inv l k log (snd (Allow l key s))" using inv other by simp
  ultimately have "window_inv l k (attempt_of l key s # log) (snd (Allow l key s))" by (subst window_inv_passed)
  then show ?thesis using d other by simp
next
  fix z
  assume memory: "0 < lm_limit l"
    "Allow l key s = (let (n, s2) = countInMemory l key (s\<lparr>li_redis := z\<rparr>) in (n \<le> lm_limit l, s2))"
  let ?s = "s\<lparr>li_redis := z\<rparr>"
  let ?w = "window_at l key ?s"
  let ?s' = "?s\<lparr>li_windows := AList.update key (?w\<lparr>w_count := w_count ?w + 1\<rparr>) (kept_windows l ?s),
    li_tick := Suc (li_tick ?s)\<rparr>"
  have d': "distinct (keys (li_windows ?s))" using d by simp
  have e: "Allow l key s = (w_count ?w + 1 \<le> lm_limit l, ?s')"
    unfolding memory(2) countInMemory_eq [OF d'] Let_def by simp
  have "window_inv l k (attempt_of l key s # log) ?s'"
  proof (rule window_inv_counted [OF _ d' m pos memory(1) HOL.refl HOL.refl])
    show "window_inv l k log ?s" using inv by simp
  qed (simp_all add: attempt_of_def e Let_def)
  moreover have "distinct (keys (li_windows ?s'))"
    using distinct_update [OF distinct_kept [OF d', of l]] by simp
  ultimately show ?thesis unfolding e by simp
qed

lemma window_inv_attempts:
  "window_inv l k log s \<Longrightarrow> distinct (keys (li_windows s)) \<Longrightarrow> mono (lm_now l) \<Longrightarrow> 0 < lm_window l \<Longrightarrow>
   window_inv l k (fst (attempts l ks log s)) (snd (attempts l ks log s))"
  by (induction ks arbitrary: log s) (use attempt_step in fastforce)+

lemma two_values:
  "\<forall>a \<in> set xs. f a = x \<or> f a = y \<Longrightarrow>
   length xs \<le> length (filter (\<lambda>a. f a = x) xs) + length (filter (\<lambda>a. f a = y) xs)"
  by (induction xs) auto

lemma length_filter_sub: "length (filter P (filter Q xs)) \<le> length (filter P xs)"
  by (induction xs) auto

lemma window_bound:
  assumes inv: "window_inv l k log s" and pos: "0 < lm_window l"
  shows "int (length (filter (\<lambda>a. t \<le> at_time a \<and> at_time a < t + lm_window l) (passed k log))) \<le> 2 * lm_limit l"
proof -
  let ?W = "lm_window l"
  let ?in = "\<lambda>a. t \<le> at_time a \<and> at_time a < t + ?W"
  let ?P = "filter ?in (passed k log)"
  let ?R = "at_reset ` set ?P"
  have lim: "int (length (filter (\<lambda>a. at_reset a = r) ?P)) \<le> lm_limit l" for r
  proof -
    have "int (length (filter (\<lambda>a. at_reset a = r) (passed k log))) \<le> lm_limit l" using inv by (simp add: window_inv_def)
    then show ?thesis using length_filter_sub [of "\<lambda>a. at_reset a = r" ?in "passed k log"] by linarith
  qed
  show ?thesis
  proof (cases "?P = []")
    case True
    then show ?thesis using lim [of 0] by simp
  next
    case False
    then have R: "finite ?R" "?R \<noteq> {}" by (auto simp: filter_empty_conv)
    have two: "at_reset a = Min ?R \<or> at_reset a = Max ?R" if "a \<in> set ?P" for a
    proof (rule ccontr)
      assume "\<not> (at_reset a = Min ?R \<or> at_reset a = Max ?R)"
      then have o: "Min ?R < at_reset a" "at_reset a < Max ?R"
      proof -
        have "at_reset a \<in> ?R" using that by simp
        then have "Min ?R \<le> at_reset a" "at_reset a \<le> Max ?R" using R(1) by simp_all
        then show "Min ?R < at_reset a" "at_reset a < Max ?R"
          using \<open>\<not> (at_reset a = Min ?R \<or> at_reset a = Max ?R)\<close> by linarith+
      qed
      from Min_in [OF R] obtain x where x: "Min ?R = at_reset x" "x \<in> set ?P" by (rule imageE)
      from Max_in [OF R] obtain y where y: "Max ?R = at_reset y" "y \<in> set ?P" by (rule imageE)
      have sub: "a \<in> set (passed k log)" "x \<in> set (passed k log)" "y \<in> set (passed k log)"
        using that x(2) y(2) by simp_all
      have own: "\<forall>b \<in> set (passed k log). at_reset b - ?W \<le> at_time b \<and> at_time b < at_reset b"
        and apart: "\<forall>b \<in> set (passed k log). \<forall>c \<in> set (passed k log). at_reset b = at_reset c \<or>
          at_reset b + ?W \<le> at_reset c \<or> at_reset c + ?W \<le> at_reset b"
        using inv by (simp_all add: window_inv_def)
      have "at_reset x + ?W \<le> at_reset a" "at_reset a + ?W \<le> at_reset y"
        using apart sub o x(1) y(1) pos by force+
      moreover have "at_time x < at_reset x" "at_reset y - ?W \<le> at_time y" using own sub by auto
      ultimately show False using x(2) y(2) by simp
    qed
    have "length ?P \<le> length (filter (\<lambda>a. at_reset a = Min ?R) ?P) + length (filter (\<lambda>a. at_reset a = Max ?R) ?P)"
      using two by (intro two_values) blast
    then show ?thesis using lim [of "Min ?R"] lim [of "Max ?R"] by linarith
  qed
qed

text \<open>
  Whatever sequence of keys attempts, and however often the map of windows is pruned on the
  way, in any stretch of time as long as the window at most twice the limit of one key's attempts
  pass that the memory decides; and within one window of the counter at most the limit.
\<close>

theorem at_most_twice_the_limit:
  assumes "mono (lm_now l)" "0 < lm_window l" "0 \<le> lm_limit l"
  shows "int (length (filter (\<lambda>a. t \<le> at_time a \<and> at_time a < t + lm_window l) (passed key (run_log l ks z)))) \<le> 2 * lm_limit l \<and>
    int (length (filter (\<lambda>a. at_reset a = r) (passed key (run_log l ks z)))) \<le> lm_limit l"
proof -
  have "window_inv l key [] (start_of z)" using assms(3) by (simp add: window_inv_def passed_def start_of_def)
  then have inv: "window_inv l key (run_log l ks z) (snd (attempts l ks [] (start_of z)))"
    unfolding run_log_def using assms(1,2) by (intro window_inv_attempts) (simp_all add: start_of_def)
  then show ?thesis using window_bound [OF inv assms(2)] by (simp add: window_inv_def)
qed

definition demo_limiter :: "unit limiter" where
  "demo_limiter = \<lparr>lm_client = None, lm_limit = 2, lm_window = 10, lm_now = (\<lambda>n. int n)\<rparr>"

lemma demo_attempts_log:
  "map at_allowed (fst (attempts demo_limiter (replicate 4 ''ip'') [] (start_of ()))) = [False, False, True, True]"
  by code_simp

theorem at_most_twice_the_limit_witness:
  "int (length (filter (\<lambda>a. 0 \<le> at_time a \<and> at_time a < 10)
     (passed ''ip'' (run_log demo_limiter (replicate 4 ''ip'') ())))) \<le> 4"
  using at_most_twice_the_limit [of demo_limiter 0 "''ip''" "replicate 4 ''ip''" "()" 0]
  by (simp add: demo_limiter_def mono_def)

end
