(* ===== verification/Registry.thy ===== *)
theory Registry
  imports GameStore
begin

section \<open>The registry of live rooms: api/internal/game/registry.go\<close>

text \<open>
  The registry maps the id of a room to its running goroutine and loads a room from the database
  on first use. Its methods run on the goroutines of the requests, several at a time: the map is
  locked only inside \<open>lookup\<close>, \<open>spawn\<close> and \<open>forget\<close>, and the calls to the store between them
  interleave with everything else. \<open>Get\<close> is therefore a small machine (\<open>get_step\<close>), and the server
  a step relation over its goroutines.

  An instance of a room is a number (the pointer in Go). Store, board and clock are shared: an
  instance sees their current state when it takes an event.
\<close>

subsection \<open>State\<close>

record ('s, 'b) live_room =
  lr_room :: "('s, 'b) room"
  lr_leaving :: bool

datatype get_error = StoreError store_error | EndExpired store_error

datatype getting =
    GetLookup uid
  | GetRoom uid
  | GetExpired uid
  | GetPlayers uid room_data
  | GetQuestions room_data "player list"
  | GetSpawn room_data "player list" "question list"
  | Got "get_error + nat"

record ('s, 'b) server =
  sv_rooms :: "uid \<rightharpoonup> nat"
  sv_heap :: "nat \<rightharpoonup> ('s, 'b) live_room"
  sv_next :: nat
  sv_gets :: "nat \<rightharpoonup> getting"
  sv_store :: 's
  sv_board :: 'b
  sv_tick :: nat

subsection \<open>The registry\<close>

definition lookup :: "uid \<Rightarrow> ('s, 'b) server \<Rightarrow> nat option" where
  "lookup roomID sv = sv_rooms sv roomID"

text \<open>The clock as a goroutine sees it that starts now.\<close>

definition deps_now :: "('s, 'b) deps \<Rightarrow> ('s, 'b) server \<Rightarrow> ('s, 'b) deps" where
  "deps_now d sv = d\<lparr>d_clock := (\<lambda>n. d_clock d (sv_tick sv + n))\<rparr>"

definition spawn :: "('s, 'b) deps \<Rightarrow> room_data \<Rightarrow> player list \<Rightarrow> question list \<Rightarrow> ('s, 'b) server \<Rightarrow>
    nat \<times> ('s, 'b) server" where
  "spawn d data players questions sv =
     (case sv_rooms sv (rd_id data) of
        Some existing \<Rightarrow> (existing, sv)
      | None \<Rightarrow>
          let r = newRoom (deps_now d sv) data players questions (sv_store sv) (sv_board sv);
              room = r\<lparr>r_tick := sv_tick sv + r_tick r\<rparr>;
              h = sv_next sv
          in (h, sv\<lparr>sv_rooms := (sv_rooms sv)(rd_id data \<mapsto> h), sv_next := Suc h, sv_tick := r_tick room,
                    sv_heap := (sv_heap sv)(h \<mapsto> \<lparr>lr_room = room, lr_leaving = False\<rparr>)\<rparr>))"

definition forget :: "nat \<Rightarrow> ('s, 'b) room \<Rightarrow> ('s, 'b) server \<Rightarrow> ('s, 'b) server" where
  "forget h room sv =
     (if sv_rooms sv (r_id room) = Some h then sv\<lparr>sv_rooms := (sv_rooms sv)(r_id room := None)\<rparr> else sv)"

text \<open>
  One step of \<open>Get\<close>, up to the next point at which another goroutine can run. A missing start time
  is Go's zero time, long before \<open>MaxRoomDuration\<close>.
\<close>

definition since :: "('s, 'b) deps \<Rightarrow> time option \<Rightarrow> ('s, 'b) server \<Rightarrow> duration" where
  "since d startedAt sv = (case startedAt of None \<Rightarrow> MaxRoomDuration | Some t \<Rightarrow> d_clock d (sv_tick sv) - t)"

fun get_step :: "('s, 'b) deps \<Rightarrow> getting \<Rightarrow> ('s, 'b) server \<Rightarrow> getting \<times> ('s, 'b) server" where
  "get_step d (GetLookup roomID) sv =
     (case lookup roomID sv of Some h \<Rightarrow> (Got (Inr h), sv) | None \<Rightarrow> (GetRoom roomID, sv))"
| "get_step d (GetRoom roomID) sv =
     (let (res, s) = api_RoomByID (d_store d) roomID (sv_store sv); sv1 = sv\<lparr>sv_store := s\<rparr> in
      case res of
        Inl e \<Rightarrow> (Got (Inl (StoreError e)), sv1)
      | Inr data \<Rightarrow>
          if rd_status data = Ended then (Got (Inl (StoreError NotFound)), sv1)
          else if rd_status data = Running \<and> since d (rd_startedAt data) sv1 \<ge> MaxRoomDuration
          then (GetExpired roomID, sv1\<lparr>sv_tick := Suc (sv_tick sv1)\<rparr>)
          else (GetPlayers roomID data, sv1\<lparr>sv_tick := Suc (sv_tick sv1)\<rparr>))"
| "get_step d (GetExpired roomID) sv =
     (let (err, s) = api_MarkRoomEnded (d_store d) roomID (sv_store sv); sv1 = sv\<lparr>sv_store := s\<rparr> in
      case err of
        Some e \<Rightarrow> (Got (Inl (EndExpired e)), sv1)
      | None \<Rightarrow> (Got (Inl (StoreError NotFound)), sv1))"
| "get_step d (GetPlayers roomID data) sv =
     (let (res, s) = api_PlayersOfRoom (d_store d) roomID (sv_store sv); sv1 = sv\<lparr>sv_store := s\<rparr> in
      case res of
        Inl e \<Rightarrow> (Got (Inl (StoreError e)), sv1)
      | Inr players \<Rightarrow> (GetQuestions data players, sv1))"
| "get_step d (GetQuestions data players) sv =
     (let (res, s) = api_QuestionsByIDs (d_store d) (rd_questionIDs data) (sv_store sv);
          sv1 = sv\<lparr>sv_store := s\<rparr> in
      case res of
        Inl e \<Rightarrow> (Got (Inl (StoreError e)), sv1)
      | Inr questions \<Rightarrow> (GetSpawn data players questions, sv1))"
| "get_step d (GetSpawn data players questions) sv =
     (let (h, sv1) = spawn d data players questions sv in (Got (Inr h), sv1))"
| "get_step d (Got res) sv = (Got res, sv)"

text \<open>\<open>Get\<close> without interruption; five steps are the longest way through it.\<close>

definition Get :: "('s, 'b) deps \<Rightarrow> uid \<Rightarrow> ('s, 'b) server \<Rightarrow> getting \<times> ('s, 'b) server" where
  "Get d roomID sv = ((\<lambda>(g, sv). get_step d g sv) ^^ 5) (GetLookup roomID, sv)"

subsection \<open>Rooms take events\<close>

definition loaded :: "('s, 'b) server \<Rightarrow> ('s, 'b) room \<Rightarrow> ('s, 'b) room" where
  "loaded sv r = r\<lparr>r_store := sv_store sv, r_board := sv_board sv, r_tick := sv_tick sv\<rparr>"

definition put_room :: "nat \<Rightarrow> ('s, 'b) room \<Rightarrow> bool \<Rightarrow> ('s, 'b) server \<Rightarrow> ('s, 'b) server" where
  "put_room h r leaving sv =
     sv\<lparr>sv_heap := (sv_heap sv)(h \<mapsto> \<lparr>lr_room = r, lr_leaving = leaving\<rparr>), sv_store := r_store r,
        sv_board := r_board r, sv_tick := r_tick r\<rparr>"

text \<open>
  An event of the instance \<open>h\<close>. The deferred calls of \<open>loop\<close> run in a later step (\<open>room_leaves\<close>):
  first \<open>onStop\<close>, which is \<open>forget\<close>, and only then \<open>done\<close> is closed.
\<close>

definition room_event :: "('s, 'b) deps \<Rightarrow> nat \<Rightarrow> event \<Rightarrow> ('s, 'b) room \<Rightarrow> ('s, 'b) server \<Rightarrow> ('s, 'b) server" where
  "room_event d h ev r sv =
     (let r' = handle d ev (loaded sv r)
      in if r_status r' = Ended \<or> ev = EvShutdown then put_room h (stopTimers r') True sv
         else put_room h r' False sv)"

definition room_leaves :: "nat \<Rightarrow> ('s, 'b) room \<Rightarrow> ('s, 'b) server \<Rightarrow> ('s, 'b) server" where
  "room_leaves h r sv =
     (forget h r sv)\<lparr>sv_heap := (sv_heap sv)(h \<mapsto> \<lparr>lr_room = r\<lparr>r_done := True\<rparr>, lr_leaving = True\<rparr>)\<rparr>"

inductive server_step :: "('s, 'b) deps \<Rightarrow> ('s, 'b) server \<Rightarrow> ('s, 'b) server \<Rightarrow> bool" for d where
  begin_get: "sv_gets sv i = None \<Longrightarrow>
     server_step d sv (sv\<lparr>sv_gets := (sv_gets sv)(i \<mapsto> GetLookup roomID)\<rparr>)"
| step_get: "sv_gets sv i = Some g \<Longrightarrow> get_step d g sv = (g', sv') \<Longrightarrow>
     server_step d sv (sv'\<lparr>sv_gets := (sv_gets sv')(i \<mapsto> g')\<rparr>)"
| event: "sv_heap sv h = Some \<lparr>lr_room = r, lr_leaving = False\<rparr> \<Longrightarrow> enabled d ev (loaded sv r) \<Longrightarrow>
     server_step d sv (room_event d h ev r sv)"
| leave: "sv_heap sv h = Some \<lparr>lr_room = r, lr_leaving = True\<rparr> \<Longrightarrow> \<not> r_done r \<Longrightarrow>
     server_step d sv (room_leaves h r sv)"
| others: "server_step d sv (sv\<lparr>sv_store := s, sv_board := b, sv_tick := Suc (sv_tick sv)\<rparr>)"

inductive server_steps :: "('s, 'b) deps \<Rightarrow> ('s, 'b) server \<Rightarrow> ('s, 'b) server \<Rightarrow> bool" for d where
  refl: "server_steps d sv sv"
| step: "server_steps d sv sv' \<Longrightarrow> server_step d sv' sv'' \<Longrightarrow> server_steps d sv sv''"

text \<open>\<open>NewRegistry\<close>: no room is live.\<close>

definition new_server :: "'s \<Rightarrow> 'b \<Rightarrow> ('s, 'b) server" where
  "new_server s b = \<lparr>sv_rooms = Map.empty, sv_heap = Map.empty, sv_next = 0, sv_gets = Map.empty,
     sv_store = s, sv_board = b, sv_tick = 0\<rparr>"

subsection \<open>One instance per room\<close>

text \<open>
  The registry and the instances agree: the map leads from a room's id to an instance of that room
  that has not closed yet, and every instance that has not closed is on the map under its id.
  Every instance a \<open>Get\<close> returned exists.
\<close>

definition registry_inv :: "('s, 'b) server \<Rightarrow> bool" where
  "registry_inv sv \<longleftrightarrow>
     (\<forall>rid h. sv_rooms sv rid = Some h \<longleftrightarrow>
        (\<exists>i. sv_heap sv h = Some i \<and> r_id (lr_room i) = rid \<and> \<not> r_done (lr_room i))) \<and>
     (\<forall>h. sv_next sv \<le> h \<longrightarrow> sv_heap sv h = None) \<and>
     (\<forall>k h. sv_gets sv k = Some (Got (Inr h)) \<longrightarrow> sv_heap sv h \<noteq> None)"

text \<open>What the registry sees of an instance: its id, and whether it has closed.\<close>

definition profile :: "('s, 'b) server \<Rightarrow> nat \<Rightarrow> (uid \<times> bool) option" where
  "profile sv h = map_option (\<lambda>i. (r_id (lr_room i), r_done (lr_room i))) (sv_heap sv h)"

lemma registry_inv_profile:
  "registry_inv sv \<longleftrightarrow>
     (\<forall>rid h. sv_rooms sv rid = Some h \<longleftrightarrow> profile sv h = Some (rid, False)) \<and>
     (\<forall>h. sv_next sv \<le> h \<longrightarrow> profile sv h = None) \<and>
     (\<forall>k h. sv_gets sv k = Some (Got (Inr h)) \<longrightarrow> profile sv h \<noteq> None)"
  by (auto simp: registry_inv_def profile_def)

lemma profile_frame [simp]:
  "profile (sv\<lparr>sv_store := s\<rparr>) = profile sv" "profile (sv\<lparr>sv_board := b\<rparr>) = profile sv"
  "profile (sv\<lparr>sv_tick := t\<rparr>) = profile sv" "profile (sv\<lparr>sv_gets := g\<rparr>) = profile sv"
  "profile (sv\<lparr>sv_rooms := m\<rparr>) = profile sv" "profile (sv\<lparr>sv_next := n\<rparr>) = profile sv"
  by (simp_all add: profile_def fun_eq_iff)

lemma profile_heap:
  "profile (sv\<lparr>sv_heap := (sv_heap sv)(h \<mapsto> i)\<rparr>) = (profile sv)(h \<mapsto> (r_id (lr_room i), r_done (lr_room i)))"
  by (simp add: profile_def fun_eq_iff)

lemma registry_inv_same:
  assumes "registry_inv sv" "sv_rooms sv' = sv_rooms sv" "profile sv' = profile sv" "sv_next sv' = sv_next sv"
    and "\<And>k h. sv_gets sv' k = Some (Got (Inr h)) \<Longrightarrow> profile sv h \<noteq> None"
  shows "registry_inv sv'"
  using assms by (simp add: registry_inv_profile)

lemma profile_event:
  assumes "sv_heap sv h = Some \<lparr>lr_room = r, lr_leaving = l\<rparr>"
  shows "profile (room_event d h ev r sv) = profile sv"
proof -
  have f: "r_id (handle d ev (loaded sv r)) = r_id r" "r_done (handle d ev (loaded sv r)) = r_done r"
    using same_room_handle [of "loaded sv r" d ev] by (simp_all add: same_room_def loaded_def)
  have "profile (put_room h r' b sv) = profile sv" if "r_id r' = r_id r" "r_done r' = r_done r" for r' b
    using assms that by (auto simp: put_room_def profile_def fun_eq_iff)
  then show ?thesis using f by (simp add: room_event_def stopTimers_def Let_def)
qed

lemma room_event_fields:
  "sv_rooms (room_event d h ev r sv) = sv_rooms sv" "sv_next (room_event d h ev r sv) = sv_next sv"
  "sv_gets (room_event d h ev r sv) = sv_gets sv"
  by (simp_all add: room_event_def put_room_def Let_def)

lemma spawn_inv:
  assumes "registry_inv sv" "spawn d data ps qs sv = (h, sv')"
  shows "registry_inv sv' \<and> sv_rooms sv' (rd_id data) = Some h \<and> profile sv' h = Some (rd_id data, False) \<and>
    sv_gets sv' = sv_gets sv \<and> (\<forall>k. profile sv k \<noteq> None \<longrightarrow> profile sv' k = profile sv k)"
proof (cases "sv_rooms sv (rd_id data)")
  case (Some x)
  then show ?thesis using assms by (auto simp: spawn_def registry_inv_profile)
next
  case None
  let ?p = "(profile sv)(sv_next sv \<mapsto> (rd_id data, False))"
  have h: "h = sv_next sv" and p: "profile sv' = ?p" and m: "sv_rooms sv' = (sv_rooms sv)(rd_id data \<mapsto> h)"
    and n: "sv_next sv' = Suc h" and g: "sv_gets sv' = sv_gets sv"
    using assms(2) None by (auto simp: spawn_def Let_def profile_def newRoom_fields fun_eq_iff)
  have new: "profile sv h = None" using assms(1) h by (simp add: registry_inv_profile)
  have free: "profile sv k \<noteq> Some (rd_id data, False)" for k
    using assms(1) None by (metis option.distinct(1) registry_inv_profile)
  have "sv_rooms sv' rid = Some k \<longleftrightarrow> profile sv' k = Some (rid, False)" for rid k
    using assms(1) None new h free unfolding p m by (auto simp: registry_inv_profile)
  moreover have "profile sv' k = None" if "sv_next sv' \<le> k" for k
    using assms(1) that h n unfolding p by (simp add: registry_inv_profile)
  ultimately show ?thesis
    using assms(1) m g new h unfolding p by (auto simp: registry_inv_profile p)
qed

lemma get_step_inv:
  assumes "registry_inv sv" "get_step d g sv = (g', sv')" "\<And>h. g = Got (Inr h) \<Longrightarrow> profile sv h \<noteq> None"
  shows "registry_inv sv' \<and> sv_gets sv' = sv_gets sv \<and> (\<forall>h. g' = Got (Inr h) \<longrightarrow> profile sv' h \<noteq> None) \<and>
    (\<forall>k. profile sv k \<noteq> None \<longrightarrow> profile sv' k = profile sv k)"
proof (cases "\<exists>data ps qs. g = GetSpawn data ps qs")
  case True
  then obtain data ps qs where g: "g = GetSpawn data ps qs" by blast
  obtain h s where x: "spawn d data ps qs sv = (h, s)" by fastforce
  then show ?thesis using spawn_inv [OF assms(1) x] assms(2) g by auto
next
  case False
  have "profile sv' = profile sv \<and> sv_rooms sv' = sv_rooms sv \<and> sv_next sv' = sv_next sv \<and> sv_gets sv' = sv_gets sv"
    using assms(2) False by (cases g) (auto simp: Let_def split: prod.splits sum.splits option.splits if_splits)
  moreover have "profile sv h \<noteq> None" if "g' = Got (Inr h)" for h
    using assms False that
    by (cases g) (auto simp: lookup_def registry_inv_profile Let_def split: prod.splits sum.splits option.splits if_splits)
  ultimately show ?thesis using assms(1) by (auto simp: registry_inv_profile)
qed

lemma leave_inv:
  assumes "registry_inv sv" "sv_heap sv h = Some \<lparr>lr_room = r, lr_leaving = l\<rparr>" "\<not> r_done r"
  shows "registry_inv (room_leaves h r sv)"
proof -
  have p: "profile sv h = Some (r_id r, False)" using assms(2,3) by (simp add: profile_def)
  then have "sv_rooms sv (r_id r) = Some h" using assms(1) by (simp add: registry_inv_profile)
  then have f: "sv_rooms (room_leaves h r sv) = (sv_rooms sv)(r_id r := None)"
    "profile (room_leaves h r sv) = (profile sv)(h \<mapsto> (r_id r, True))"
    "sv_next (room_leaves h r sv) = sv_next sv" "sv_gets (room_leaves h r sv) = sv_gets sv"
    by (simp_all add: room_leaves_def forget_def profile_def fun_eq_iff)
  show ?thesis using assms(1) p unfolding registry_inv_profile f by (auto; metis option.inject prod.inject)
qed

lemma registry_inv_step:
  assumes "server_step d sv sv'" "registry_inv sv"
  shows "registry_inv sv'"
  using assms(1)
proof cases
  case (begin_get i roomID)
  then show ?thesis using assms(2) by (auto simp: registry_inv_profile split: if_splits)
next
  case (step_get i g g' sv1)
  have "registry_inv sv1 \<and> sv_gets sv1 = sv_gets sv \<and> (\<forall>h. g' = Got (Inr h) \<longrightarrow> profile sv1 h \<noteq> None) \<and>
      (\<forall>k. profile sv k \<noteq> None \<longrightarrow> profile sv1 k = profile sv k)"
    using assms(2) step_get by (intro get_step_inv [OF assms(2) step_get(3)]) (auto simp: registry_inv_profile)
  then show ?thesis using step_get by (auto simp: registry_inv_profile split: if_splits)
next
  case (event h r ev)
  then show ?thesis
    using assms(2) profile_event [OF event(2)] by (intro registry_inv_same [OF assms(2)])
      (auto simp: room_event_fields registry_inv_profile)
next
  case (leave h r)
  then show ?thesis using leave_inv [OF assms(2)] by blast
next
  case (others s b)
  then show ?thesis using assms(2) by (simp add: registry_inv_profile)
qed

lemma registry_inv_steps: "server_steps d sv sv' \<Longrightarrow> registry_inv sv \<Longrightarrow> registry_inv sv'"
  by (induction rule: server_steps.induct) (auto intro: registry_inv_step)

lemma registry_inv_new: "registry_inv (new_server s b)"
  by (simp add: registry_inv_def new_server_def)

text \<open>
  C24. A room has at most one live instance: however the calls of \<open>Get\<close>, the events of rooms and the
  ends of rooms interleave, two instances of the same room of which neither has closed are one, and
  it is the one the registry hands out.
\<close>

theorem one_room_per_id:
  assumes "server_steps d (new_server s b) sv"
    and "sv_heap sv h = Some i" "\<not> r_done (lr_room i)"
    and "sv_heap sv k = Some j" "\<not> r_done (lr_room j)" "r_id (lr_room i) = r_id (lr_room j)"
  shows "h = k \<and> lookup (r_id (lr_room i)) sv = Some h"
proof -
  have "registry_inv sv" using assms(1) registry_inv_new by (rule registry_inv_steps)
  then have "sv_rooms sv (r_id (lr_room i)) = Some h" "sv_rooms sv (r_id (lr_room i)) = Some k"
    using assms(2-6) by (auto simp: registry_inv_def)
  then show ?thesis by (simp add: lookup_def)
qed

subsection \<open>What \<open>Get\<close> answers\<close>

text \<open>A server on which no round trip fails.\<close>

definition calm :: "pg \<Rightarrow> bool" where
  "calm pg \<longleftrightarrow> (\<forall>n. fault pg n = NoFault)"

lemma exec_calm:
  "calm pg \<Longrightarrow> exec pg s d =
     (case s (server_now pg (trips d)) (tabs d) of
        Inl e \<Rightarrow> (Inl e, d\<lparr>trips := Suc (trips d)\<rparr>)
      | Inr (a, t) \<Rightarrow> (Inr a, d\<lparr>trips := Suc (trips d), tabs := t\<rparr>))"
  by (auto simp: calm_def exec_def Let_def split: sum.splits prod.splits)

text \<open>Every step but the last moves on, so five steps end \<open>Get\<close>.\<close>

fun steps_left :: "getting \<Rightarrow> nat" where
  "steps_left (GetLookup _) = 5"
| "steps_left (GetRoom _) = 4"
| "steps_left (GetExpired _) = 1"
| "steps_left (GetPlayers _ _) = 3"
| "steps_left (GetQuestions _ _) = 2"
| "steps_left (GetSpawn _ _ _) = 1"
| "steps_left (Got _) = 0"

lemma get_step_left: "steps_left (fst (get_step d g sv)) \<le> steps_left g - 1"
  by (cases g) (auto simp: Let_def split: prod.splits sum.splits option.splits)

lemma get_steps_left: "steps_left (fst (((\<lambda>(g, sv). get_step d g sv) ^^ n) (g, sv))) \<le> steps_left g - n"
proof (induction n)
  case (Suc n)
  obtain g' sv' where x: "((\<lambda>(g, sv). get_step d g sv) ^^ n) (g, sv) = (g', sv')" by fastforce
  then show ?case using Suc get_step_left [of d g' sv'] by simp
qed simp

lemma Get_got: "\<exists>res sv'. Get d roomID sv = (Got res, sv')"
proof -
  have "steps_left (fst (Get d roomID sv)) = 0"
    using get_steps_left [where n = 5 and g = "GetLookup roomID"] by (auto simp: Get_def)
  then show ?thesis by (cases "Get d roomID sv"; cases "fst (Get d roomID sv)") auto
qed


definition room_row_of :: "db \<Rightarrow> uid \<Rightarrow> room_row option" where
  "room_row_of s rid = find (\<lambda>r. rr_id r = rid) (tb_rooms (tabs s))"

definition players_on_record :: "db \<Rightarrow> uid \<Rightarrow> uid set" where
  "players_on_record s rid = pr_id ` set (filter (\<lambda>p. pr_roomID p = rid) (tb_players (tabs s)))"

text \<open>The instance \<open>h\<close> is freshly loaded from the row: same status, these questions, all players on record.\<close>

definition loaded_as :: "db \<Rightarrow> room_row \<Rightarrow> question list \<Rightarrow> nat \<Rightarrow> (db, 'b) server \<Rightarrow> bool" where
  "loaded_as s row qs h sv \<longleftrightarrow> sv_rooms sv (rr_id row) = Some h \<and>
     (case sv_heap sv h of None \<Rightarrow> False
      | Some i \<Rightarrow> \<not> lr_leaving i \<and> \<not> r_done (lr_room i) \<and> r_id (lr_room i) = rr_id row \<and>
          r_status (lr_room i) = rr_status row \<and> r_questions (lr_room i) = qs \<and>
          dom (player_of (lr_room i)) = players_on_record s (rr_id row))"

definition get_answers :: "(db, 'b) deps \<Rightarrow> pg \<Rightarrow> uid \<Rightarrow> (db, 'b) server \<Rightarrow> get_error + nat \<Rightarrow> (db, 'b) server \<Rightarrow> bool" where
  "get_answers d pg rid sv res sv' \<longleftrightarrow>
     (case room_row_of (sv_store sv) rid of
        None \<Rightarrow> res = Inl (StoreError NotFound) \<and> sv_rooms sv' = sv_rooms sv \<and> tabs (sv_store sv') = tabs (sv_store sv)
      | Some row \<Rightarrow>
          if rr_status row = Ended
          then res = Inl (StoreError NotFound) \<and> sv_rooms sv' = sv_rooms sv \<and> tabs (sv_store sv') = tabs (sv_store sv)
          else if rr_status row = Running \<and> since d (rr_startedAt row) sv \<ge> MaxRoomDuration
          then res = Inl (StoreError NotFound) \<and> sv_rooms sv' = sv_rooms sv \<and>
               map_option rr_status (room_row_of (sv_store sv') rid) = Some Ended
          else tabs (sv_store sv') = tabs (sv_store sv) \<and>
            (case fst (QuestionsByIDs pg (rr_questionIDs row) (sv_store sv)) of
               Inl e \<Rightarrow> res = Inl (StoreError e) \<and> sv_rooms sv' = sv_rooms sv
             | Inr qs \<Rightarrow> (\<exists>h. res = Inr h \<and> loaded_as (sv_store sv) row qs h sv')))"

lemma dom_fold_addPlayer:
  "dom (player_of (fold addPlayer ps r)) = dom (player_of r) \<union> pl_id ` set ps" for r :: "('s, 'b) room"
  by (induction ps arbitrary: r) (auto simp: player_of_addPlayer)

lemma dom_newRoom: "dom (player_of (newRoom d data ps qs s b)) = pl_id ` set ps"
proof -
  have p: "player_of (r\<lparr>r_tick := n\<rparr>) = player_of r" "player_of (r\<lparr>r_deadline := t\<rparr>) = player_of r"
    for r :: "('s, 'b) room" and n t by (simp_all add: player_of_def fun_eq_iff)
  have "dom (player_of (blank_room data qs s b)) = {}" by (auto simp: player_of_def blank_room_def)
  then show ?thesis
    by (simp add: newRoom_def Let_def read_clock_def armDeadline_def p dom_fold_addPlayer)
qed

lemma loaded_as_spawn:
  assumes "sv_rooms sv (rr_id row) = None" "pl_id ` set ps = players_on_record s (rr_id row)"
    and "spawn d (roomFromRow row) ps qs sv = (h, sv')"
  shows "loaded_as s row qs h sv' \<and> sv_store sv' = sv_store sv"
proof -
  have p: "player_of (r\<lparr>r_tick := n\<rparr>) = player_of r" for r :: "(db, 'b) room" and n
    by (simp add: player_of_def fun_eq_iff)
  show ?thesis using assms
    by (auto simp: spawn_def Let_def loaded_as_def newRoom_fields roomFromRow_def p dom_newRoom)
qed

lemma find_room_id: "room_row_of s rid = Some row \<Longrightarrow> rr_id row = rid"
  by (auto simp: room_row_of_def find_Some_iff)

lemma calm_reads:
  assumes "calm pg" "uuid_parse pg rid = Some rid"
  shows "RoomByID pg rid s = (case room_row_of s rid of None \<Rightarrow> Inl NotFound | Some row \<Rightarrow> Inr (roomFromRow row),
      s\<lparr>trips := Suc (trips s)\<rparr>)"
    and "\<exists>ps. PlayersOfRoom pg rid s = (Inr ps, s\<lparr>trips := Suc (trips s)\<rparr>) \<and> pl_id ` set ps = players_on_record s rid"
    and "QuestionsByIDs pg ids s = (fst (QuestionsByIDs pg ids (s\<lparr>trips := n\<rparr>)), s\<lparr>trips := Suc (trips s)\<rparr>)"
  using assms
  by (auto simp: RoomByID_def GetRoomByID_def room_row_of_def notFoundOr_def PlayersOfRoom_def ListRoomPlayers_def
      players_on_record_def playerFromRow_def QuestionsByIDs_def GetQuestionsByIDs_def exec_calm image_image
      split: option.split sum.split)

lemma find_map_room:
  "(\<And>x. rr_id (f x) = rr_id x) \<Longrightarrow>
   find (\<lambda>r. rr_id r = k) (map f rs) = map_option f (find (\<lambda>r. rr_id r = k) rs)"
  by (induction rs) auto

lemma calm_ends:
  assumes "calm pg" "uuid_parse pg rid = Some rid" "room_row_of s rid = Some row"
  shows "\<exists>s'. MarkRoomEnded pg rid s = (None, s') \<and> map_option rr_status (room_row_of s' rid) = Some Ended"
  using assms find_room_id [OF assms(3)]
  by (auto simp: MarkRoomEnded_def MarkRoomEndedRow_def exec_calm room_row_of_def find_map_room)

text \<open>\<open>Get\<close> of a room without a live instance, on the database store.\<close>

lemma store_ops_calls:
  assumes "d_store d = store_ops pg"
  shows "api_RoomByID (d_store d) = RoomByID pg" "api_PlayersOfRoom (d_store d) = PlayersOfRoom pg"
    "api_QuestionsByIDs (d_store d) = QuestionsByIDs pg" "api_MarkRoomEnded (d_store d) = MarkRoomEnded pg"
  using assms by (simp_all add: store_ops_def)

lemma Get_missing:
  "lookup rid sv = None \<Longrightarrow>
   Get d rid sv = (\<lambda>(g, sv). get_step d g sv) ((\<lambda>(g, sv). get_step d g sv) ((\<lambda>(g, sv). get_step d g sv)
     ((\<lambda>(g, sv). get_step d g sv) (GetRoom rid, sv))))"
  by (simp add: Get_def eval_nat_numeral)

lemma since_store: "since d t (sv\<lparr>sv_store := s\<rparr>) = since d t sv"
  by (simp add: since_def split: option.split)

lemma roomFromRow_fields:
  "rd_status (roomFromRow row) = rr_status row" "rd_startedAt (roomFromRow row) = rr_startedAt row"
  "rd_questionIDs (roomFromRow row) = rr_questionIDs row"
  by (simp_all add: roomFromRow_def)

lemma Get_loads:
  fixes d :: "(db, 'b) deps" and sv :: "(db, 'b) server"
  assumes store: "d_store d = store_ops pg" and ok: "calm pg" and id: "uuid_parse pg rid = Some rid"
    and miss: "lookup rid sv = None" and row: "room_row_of (sv_store sv) rid = Some row"
    and live: "rr_status row \<noteq> Ended"
    and early: "(rr_status row = Running \<and> since d (rr_startedAt row) sv \<ge> MaxRoomDuration) = False"
  shows "\<exists>res sv'. Get d rid sv = (Got res, sv') \<and> get_answers d pg rid sv res sv'"
proof -
  let ?s = "sv_store sv"
  let ?bump = "\<lambda>s :: db. s\<lparr>trips := Suc (trips s)\<rparr>"
  let ?s1 = "?bump ?s"
  have rid: "rr_id row = rid" using row by (rule find_room_id)
  have room: "RoomByID pg rid ?s = (Inr (roomFromRow row), ?s1)" using row by (simp add: calm_reads(1) [OF ok id])
  obtain ps where ps: "PlayersOfRoom pg rid ?s1 = (Inr ps, ?bump ?s1)" "pl_id ` set ps = players_on_record ?s rid"
    using calm_reads(2) [OF ok id, of ?s1] by (auto simp: players_on_record_def)
  let ?q = "fst (QuestionsByIDs pg (rr_questionIDs row) ?s)"
  have qs: "QuestionsByIDs pg (rr_questionIDs row) (?s\<lparr>trips := Suc (Suc (trips ?s))\<rparr>) = (?q, ?bump (?bump ?s1))"
    using calm_reads(3) [OF ok id, where n = "trips ?s" and s = "?bump ?s1" and ids = "rr_questionIDs row"]
    by simp
  let ?sv = "sv\<lparr>sv_tick := Suc (sv_tick sv), sv_store := ?bump (?bump ?s1)\<rparr>"
  have g: "Get d rid sv = (case ?q of Inl e \<Rightarrow> (Got (Inl (StoreError e)), ?sv)
      | Inr q \<Rightarrow> (\<lambda>(h, sv1). (Got (Inr h), sv1)) (spawn d (roomFromRow row) ps q ?sv))"
    using live
    by (simp add: Get_missing [OF miss] store_ops_calls [OF store] room roomFromRow_fields since_store early ps qs Let_def
        split: sum.split)
  show ?thesis
  proof (cases ?q)
    case (Inl e)
    then show ?thesis using live g by (simp add: get_answers_def row early)
  next
    case (Inr q)
    obtain h sv' where x: "spawn d (roomFromRow row) ps q ?sv = (h, sv')" by fastforce
    have "loaded_as ?s row q h sv' \<and> sv_store sv' = sv_store ?sv"
      using miss ps(2) rid by (intro loaded_as_spawn [OF _ _ x]) (simp_all add: lookup_def)
    then show ?thesis using live g Inr x by (simp add: get_answers_def row early)
  qed
qed

text \<open>
  C23. What \<open>Get\<close> answers for a room without a live instance, on a database that works: an unknown
  or ended room is not found; a room that has run for \<open>MaxRoomDuration\<close> is ended in the database
  and not found; any other room comes back to life with its status, its questions and its players.
\<close>

theorem Get_answers:
  fixes d :: "(db, 'b) deps" and sv :: "(db, 'b) server"
  assumes store: "d_store d = store_ops pg" and ok: "calm pg" and id: "uuid_parse pg rid = Some rid"
    and miss: "lookup rid sv = None"
  shows "\<exists>res sv'. Get d rid sv = (Got res, sv') \<and> get_answers d pg rid sv res sv'"
proof -
  let ?s = "sv_store sv"
  note step = Get_missing [OF miss] store_ops_calls [OF store] roomFromRow_fields since_store get_answers_def
  show ?thesis
  proof (cases "room_row_of ?s rid")
    case None
    then show ?thesis by (simp add: step calm_reads(1) [OF ok id])
  next
    case (Some row)
    have room: "RoomByID pg rid ?s = (Inr (roomFromRow row), ?s\<lparr>trips := Suc (trips ?s)\<rparr>)"
      using Some by (simp add: calm_reads(1) [OF ok id])
    consider (ended) "rr_status row = Ended"
      | (late) "rr_status row = Running" "since d (rr_startedAt row) sv \<ge> MaxRoomDuration"
      | (live) "rr_status row \<noteq> Ended" "(rr_status row = Running \<and> since d (rr_startedAt row) sv \<ge> MaxRoomDuration) = False"
      by blast
    then show ?thesis
    proof cases
      case ended
      then show ?thesis by (simp add: step room Some)
    next
      case late
      obtain s' where "MarkRoomEnded pg rid (?s\<lparr>trips := Suc (trips ?s)\<rparr>) = (None, s')"
          "map_option rr_status (room_row_of s' rid) = Some Ended"
        using calm_ends [OF ok id, of "?s\<lparr>trips := Suc (trips ?s)\<rparr>" row] Some by (auto simp: room_row_of_def)
      then show ?thesis using late by (simp add: step room Some)
    next
      case live
      then show ?thesis by (rule Get_loads [OF store ok id miss Some])
    qed
  qed
qed

subsection \<open>Adding a player\<close>

text \<open>
  An event for an instance. A room that has left its loop takes none: \<open>run\<close> waits for \<open>done\<close> and
  drops the event.
\<close>

definition deliver :: "('s, 'b) deps \<Rightarrow> nat \<Rightarrow> event \<Rightarrow> ('s, 'b) server \<Rightarrow> ('s, 'b) server" where
  "deliver d h ev sv =
     (case sv_heap sv h of
        None \<Rightarrow> sv
      | Some i \<Rightarrow> if lr_leaving i then sv else room_event d h ev (lr_room i) sv)"

definition Registry_AddPlayer :: "('s, 'b) deps \<Rightarrow> uid \<Rightarrow> player \<Rightarrow> ('s, 'b) server \<Rightarrow>
    get_error option \<times> ('s, 'b) server" where
  "Registry_AddPlayer d roomID p sv =
     (case Get d roomID sv of
        (Got (Inr h), sv') \<Rightarrow> (None, deliver d h (EvAddPlayer p) sv')
      | (Got (Inl e), sv') \<Rightarrow> (Some e, sv')
      | (_, sv') \<Rightarrow> (None, sv'))"

text \<open>What \<open>Get\<close> hands out is the live instance of the room asked for.\<close>

fun concerns :: "uid \<Rightarrow> getting \<Rightarrow> bool" where
  "concerns rid (GetLookup i) = (i = rid)"
| "concerns rid (GetRoom i) = (i = rid)"
| "concerns rid (GetExpired i) = (i = rid)"
| "concerns rid (GetPlayers i data) = (i = rid \<and> rd_id data = rid)"
| "concerns rid (GetQuestions data ps) = (rd_id data = rid)"
| "concerns rid (GetSpawn data ps qs) = (rd_id data = rid)"
| "concerns rid (Got res) = True"

definition get_sound :: "('s \<Rightarrow> 'v) \<Rightarrow> 's \<Rightarrow> uid \<Rightarrow> getting \<Rightarrow> ('s, 'b) server \<Rightarrow> bool" where
  "get_sound view s0 rid g sv \<longleftrightarrow> registry_inv sv \<and> concerns rid g \<and>
     (\<forall>h. g = Got (Inr h) \<longrightarrow> profile sv h = Some (rid, False)) \<and>
     (view (sv_store sv) = view s0 \<or> (\<exists>e. g = Got (Inl e)))"

text \<open>What the store must promise: it returns the room asked for, and its reads leave \<open>view\<close> alone.\<close>

definition honest_reads :: "('s \<Rightarrow> 'v) \<Rightarrow> ('s, 'b) deps \<Rightarrow> uid \<Rightarrow> bool" where
  "honest_reads view d rid \<longleftrightarrow>
     (\<forall>s data s'. api_RoomByID (d_store d) rid s = (Inr data, s') \<longrightarrow> rd_id data = rid) \<and>
     (\<forall>i s. view (snd (api_RoomByID (d_store d) i s)) = view s) \<and>
     (\<forall>i s. view (snd (api_PlayersOfRoom (d_store d) i s)) = view s) \<and>
     (\<forall>i s. view (snd (api_QuestionsByIDs (d_store d) i s)) = view s)"

lemma spawn_store: "spawn d data ps qs sv = (h, sv') \<Longrightarrow> sv_store sv' = sv_store sv"
  by (auto simp: spawn_def Let_def split: option.splits)

lemma get_step_sound:
  assumes "honest_reads view d rid" "get_sound view s0 rid g sv" "get_step d g sv = (g', sv')"
  shows "get_sound view s0 rid g' sv'"
proof -
  have inv: "registry_inv sv" and c: "concerns rid g" using assms(2) by (simp_all add: get_sound_def)
  have inv': "registry_inv sv'" and "\<forall>k. profile sv k \<noteq> None \<longrightarrow> profile sv' k = profile sv k"
    using get_step_inv [OF inv assms(3)] assms(2) by (auto simp: get_sound_def)
  show ?thesis
  proof (cases "\<exists>data ps qs. g = GetSpawn data ps qs")
    case True
    then obtain data ps qs where g: "g = GetSpawn data ps qs" by blast
    obtain h s where x: "spawn d data ps qs sv = (h, s)" by fastforce
    then show ?thesis
      using spawn_inv [OF inv x] spawn_store [OF x] assms(2,3) c g by (auto simp: get_sound_def)
  next
    case False
    have st: "view (sv_store sv) = view s0 \<or> (\<exists>e. g = Got (Inl e))" using assms(2) by (simp add: get_sound_def)
    have reads: "view (snd (api_RoomByID (d_store d) i s)) = view s"
      "view (snd (api_PlayersOfRoom (d_store d) i s)) = view s"
      "view (snd (api_QuestionsByIDs (d_store d) q s)) = view s" for i q s
      using assms(1) by (simp_all add: honest_reads_def)
    have hit: "profile sv h = Some (rid, False)" if "sv_rooms sv rid = Some h" for h
      using inv that by (simp add: registry_inv_profile)
    have own: "rd_id data = rid" if "api_RoomByID (d_store d) rid s = (Inr data, s')" for data s s'
      using assms(1) that by (auto simp: honest_reads_def)
    have v: "view (sv_store sv') = view s0 \<or> (\<exists>e. g' = Got (Inl e))"
      using assms(3) st False reads
      by (cases g) (auto simp: Let_def split: prod.splits sum.splits option.splits if_splits; metis snd_conv)+
    have "concerns rid g' \<and> (\<forall>h. g' = Got (Inr h) \<longrightarrow> profile sv' h = Some (rid, False))"
      using assms(2,3) False c hit own
      by (cases g) (auto simp: get_sound_def lookup_def Let_def split: prod.splits sum.splits option.splits if_splits)
    then show ?thesis using v inv' by (simp add: get_sound_def)
  qed
qed

lemma Get_hands_out:
  assumes "honest_reads view d rid" "registry_inv sv" "Get d rid sv = (Got (Inr h), sv')"
  shows "registry_inv sv' \<and> profile sv' h = Some (rid, False) \<and> view (sv_store sv') = view (sv_store sv)"
proof -
  have "case ((\<lambda>(g, sv). get_step d g sv) ^^ n) (GetLookup rid, sv) of (g, sv1) \<Rightarrow>
      get_sound view (sv_store sv) rid g sv1" for n
  proof (induction n)
    case (Suc n)
    obtain g sv1 where x: "((\<lambda>(g, sv). get_step d g sv) ^^ n) (GetLookup rid, sv) = (g, sv1)" by fastforce
    obtain g' sv2 where y: "get_step d g sv1 = (g', sv2)" by fastforce
    show ?case using Suc get_step_sound [OF assms(1) _ y] by (simp add: x y)
  qed (simp add: assms(2) get_sound_def)
  from this [of 5] show ?thesis using assms(3) by (simp add: Get_def get_sound_def)
qed

lemma Registry_AddPlayer_added:
  assumes "honest_reads view d rid" "registry_inv sv" "Registry_AddPlayer d rid p sv = (None, sv')"
  obtains h sv1 where "registry_inv sv1" "profile sv1 h = Some (rid, False)"
    "view (sv_store sv1) = view (sv_store sv)" "sv' = deliver d h (EvAddPlayer p) sv1"
proof -
  obtain res sv1 where g: "Get d rid sv = (Got res, sv1)"
    using Get_got by blast
  then obtain h where h: "res = Inr h" using assms(3) by (cases res) (auto simp: Registry_AddPlayer_def)
  then have "sv' = deliver d h (EvAddPlayer p) sv1" using assms(3) g by (simp add: Registry_AddPlayer_def)
  then show ?thesis using that Get_hands_out [OF assms(1,2), of h sv1] g h by blast
qed

end
