(* ===== verification/Schools.thy ===== *)
theory Schools
  imports Store "HOL-Library.List_Lexorder" "HOL-Library.Char_ord"
begin

section \<open>Searching schools: store.go, queries/schools.sql.go\<close>

text \<open>
  The search of the join form: the query becomes a LIKE pattern, the database matches it without
  regard to case, the two special entries follow the matches. The database sorts and compares
  bytes (the deployment uses the collation of musl); letters outside ASCII keep their case.
\<close>

subsection \<open>LIKE\<close>

text \<open>
  A backslash takes the next character literally, a percent sign stands for any text, an underscore
  for one character (a rune). Postgres refuses a pattern that ends in a backslash.
\<close>

definition backslash :: char where "backslash = CHR 0x5C"

function like :: "string \<Rightarrow> string \<Rightarrow> bool" where
  "like [] s = (s = [])"
| "like (c # p) s =
     (if c = backslash then
        (case p of [] \<Rightarrow> False | e # p' \<Rightarrow> (case s of [] \<Rightarrow> False | x # xs \<Rightarrow> x = e \<and> like p' xs))
      else if c = CHR ''%'' then like p s \<or> (case s of [] \<Rightarrow> False | x # xs \<Rightarrow> like (c # p) xs)
      else if c = CHR ''_'' then (case s of [] \<Rightarrow> False | x # xs \<Rightarrow> like p (dropWhile is_cont xs))
      else (case s of [] \<Rightarrow> False | x # xs \<Rightarrow> x = c \<and> like p xs))"
  by pat_completeness auto

termination like
  by (relation "measure (\<lambda>(p, s). length p + length s)")
    (auto intro: le_less_trans [OF length_dropWhile_le])

definition ilike :: "string \<Rightarrow> string \<Rightarrow> bool" where
  "ilike p s = like (map ascii_lower p) (map ascii_lower s)"

subsection \<open>The statements\<close>

record school =
  sc_id :: int
  sc_name :: string
  sc_jenjang :: "string option"

definition SearchSchoolsRows :: "string \<Rightarrow> string list \<Rightarrow> time \<Rightarrow> school_row list stmt" where
  "SearchSchoolsRows q special now t =
     Inr (take 20 (sort_key sr_name (filter (\<lambda>s. sr_verified s \<and> sr_name s \<notin> set special \<and>
        (q = '''' \<or> ilike (''%'' @ q @ ''%'') (sr_name s))) (tb_schools t))), t)"

definition ListSchoolsByName :: "string list \<Rightarrow> time \<Rightarrow> school_row list stmt" where
  "ListSchoolsByName names now t =
     Inr (sort_key sr_name (filter (\<lambda>s. sr_name s \<in> set names) (tb_schools t)), t)"

subsection \<open>The store\<close>

definition escape_char :: "char \<Rightarrow> string" where
  "escape_char c = (if c = backslash \<or> c = CHR ''%'' \<or> c = CHR ''_'' then [backslash, c] else [c])"

definition escapeLike :: "string \<Rightarrow> string" where
  "escapeLike s = concat (map escape_char (TrimSpace s))"

text \<open>\<open>textPtr\<close> turns the driver's nullable text into a pointer; both are \<open>option\<close> here.\<close>

definition school_of :: "school_row \<Rightarrow> school" where
  "school_of r = \<lparr>sc_id = sr_id r, sc_name = sr_name r, sc_jenjang = sr_jenjang r\<rparr>"

definition SearchSchools :: "pg \<Rightarrow> string \<Rightarrow> db \<Rightarrow> (store_error + school list) \<times> db" where
  "SearchSchools pg query d =
     (case exec pg (SearchSchoolsRows (escapeLike query) specialSchools) d of
        (Inl _, d1) \<Rightarrow> (Inl (DbFailure ''search schools''), d1)
      | (Inr matches, d1) \<Rightarrow>
     (case exec pg (ListSchoolsByName specialSchools) d1 of
        (Inl _, d2) \<Rightarrow> (Inl (DbFailure ''list special schools''), d2)
      | (Inr special, d2) \<Rightarrow> (Inr (map school_of matches @ map school_of special), d2)))"

subsection \<open>What a search finds\<close>

text \<open>An escaped text matches itself and nothing else, so between two percent signs it means "contains".\<close>

lemma like_escaped:
  "like (concat (map escape_char q) @ p) s \<longleftrightarrow> (\<exists>rest. s = q @ rest \<and> like p rest)"
  by (induction q arbitrary: s) (auto simp: escape_char_def backslash_def split: list.split)

lemma like_percent: "like (CHR ''%'' # p) s \<longleftrightarrow> (\<exists>xs ys. s = xs @ ys \<and> like p ys)"
proof (induction s)
  case Nil
  show ?case by (subst like.simps(2)) (simp add: backslash_def)
next
  case (Cons x s)
  have "like (CHR ''%'' # p) (x # s) \<longleftrightarrow> like p (x # s) \<or> like (CHR ''%'' # p) s"
    by (subst like.simps(2)) (simp add: backslash_def)
  also have "\<dots> \<longleftrightarrow> like p (x # s) \<or> (\<exists>xs ys. s = xs @ ys \<and> like p ys)" by (simp only: Cons)
  also have "\<dots> \<longleftrightarrow> (\<exists>xs ys. x # s = xs @ ys \<and> like p ys)"
  proof
    assume "like p (x # s) \<or> (\<exists>xs ys. s = xs @ ys \<and> like p ys)"
    then show "\<exists>xs ys. x # s = xs @ ys \<and> like p ys" by (metis append_Cons append_Nil)
  next
    assume "\<exists>xs ys. x # s = xs @ ys \<and> like p ys"
    then obtain xs ys where e: "x # s = xs @ ys" "like p ys" by blast
    show "like p (x # s) \<or> (\<exists>xs ys. s = xs @ ys \<and> like p ys)"
    proof (cases xs)
      case Nil
      then show ?thesis using e by simp
    next
      case (Cons a zs)
      then have "s = zs @ ys" using e(1) by simp
      then show ?thesis using e(2) by blast
    qed
  qed
  finally show ?case .
qed

lemma like_contains: "like (''%'' @ concat (map escape_char q) @ ''%'') s \<longleftrightarrow> (\<exists>xs ys. s = xs @ q @ ys)"
proof -
  have any: "like ''%'' s" for s by (subst like_percent) (metis append_Nil2 like.simps(1))
  have "like (''%'' @ concat (map escape_char q) @ ''%'') s \<longleftrightarrow>
      (\<exists>xs ys. s = xs @ ys \<and> like (concat (map escape_char q) @ ''%'') ys)"
    by (simp only: append_Cons append_Nil like_percent)
  then show ?thesis by (simp only: like_escaped any simp_thms) blast
qed

lemma ascii_lower_same:
  assumes "x \<in> {backslash, CHR ''%'', CHR ''_''}"
  shows "ascii_lower c = x \<longleftrightarrow> c = x"
proof (cases "65 \<le> (of_char c :: nat) \<and> (of_char c :: nat) \<le> 90")
  case True
  then have "(of_char (ascii_lower c) :: nat) = of_char c + 32" by (simp add: ascii_lower_def)
  moreover have "(of_char x :: nat) \<in> {92, 37, 95}" using assms by (auto simp: backslash_def)
  ultimately show ?thesis using True by auto
next
  case False
  then show ?thesis unfolding ascii_lower_def by (simp only: if_False)
qed

lemma lower_escape: "map ascii_lower (escape_char c) = escape_char (ascii_lower c)"
proof -
  have "ascii_lower backslash = backslash" by (simp add: ascii_lower_same)
  then show ?thesis by (simp add: escape_char_def ascii_lower_same)
qed

definition matches :: "string \<Rightarrow> string \<Rightarrow> bool" where
  "matches query name \<longleftrightarrow>
     (\<exists>xs ys. map ascii_lower name = xs @ map ascii_lower (TrimSpace query) @ ys)"

lemma ilike_matches: "ilike (''%'' @ escapeLike query @ ''%'') name \<longleftrightarrow> matches query name"
proof -
  have "map ascii_lower (concat (map escape_char q)) = concat (map escape_char (map ascii_lower q))" for q
    by (induction q) (simp_all add: lower_escape)
  moreover have "ascii_lower (CHR ''%'') = CHR ''%''" by (simp add: ascii_lower_same)
  ultimately have "map ascii_lower (''%'' @ escapeLike query @ ''%'') =
      ''%'' @ concat (map escape_char (map ascii_lower (TrimSpace query))) @ ''%''"
    by (simp add: escapeLike_def)
  then show ?thesis unfolding ilike_def matches_def by (simp only: like_contains)
qed

lemma empty_matches: "escapeLike query = '''' \<Longrightarrow> matches query name"
  by (cases "TrimSpace query") (auto simp: escapeLike_def matches_def escape_char_def split: if_splits)

definition findable :: "string \<Rightarrow> school_row \<Rightarrow> bool" where
  "findable query s \<longleftrightarrow> sr_verified s \<and> sr_name s \<notin> set specialSchools \<and> matches query (sr_name s)"

text \<open>
  A search answers with the first 20, by name, of the verified schools whose name contains the
  trimmed query, whatever case and whatever wildcards the query has in it; then the special
  entries. Nothing in the database changes.
\<close>

theorem SearchSchools_finds:
  assumes "SearchSchools pg query d = (Inr found, d')"
  shows "tabs d' = tabs d \<and>
    (\<exists>hits special. found = map school_of (take 20 hits) @ map school_of special \<and>
       sorted (map sr_name hits) \<and> mset hits = mset (filter (findable query) (tb_schools (tabs d))) \<and>
       mset special = mset (filter (\<lambda>s. sr_name s \<in> set specialSchools) (tb_schools (tabs d))))"
proof -
  obtain m d1 s where m: "exec pg (SearchSchoolsRows (escapeLike query) specialSchools) d = (Inr m, d1)"
    and s: "exec pg (ListSchoolsByName specialSchools) d1 = (Inr s, d')"
    and f: "found = map school_of m @ map school_of s"
    using assms by (auto simp: SearchSchools_def split: prod.splits sum.splits)
  have "(\<lambda>s. sr_verified s \<and> sr_name s \<notin> set specialSchools \<and>
      (escapeLike query = '''' \<or> ilike (''%'' @ escapeLike query @ ''%'') (sr_name s))) = findable query"
    using empty_matches [of query] by (auto simp: findable_def fun_eq_iff simp del: append_Cons append_Nil simp: ilike_matches)
  then have m': "m = take 20 (sort_key sr_name (filter (findable query) (tb_schools (tabs d))))" "tabs d1 = tabs d"
    using exec_result [OF m] by (simp_all add: SearchSchoolsRows_def)
  have s': "s = sort_key sr_name (filter (\<lambda>s. sr_name s \<in> set specialSchools) (tb_schools (tabs d)))" "tabs d' = tabs d"
    using exec_result [OF s] m'(2) by (simp_all add: ListSchoolsByName_def)
  show ?thesis using f m'(1) s' by (intro conjI exI) auto
qed

end
