(* ===== verification/Results.thy ===== *)
theory Results
  imports Store Rank "HOL-Library.List_Lexorder" "HOL-Library.Char_ord"
begin

section \<open>Final results: store/results.go, queries/results.sql.go\<close>

text \<open>
  The standings of a room as the host exports them, and the leaderboard of the schools. Both are
  computed by the database, with window functions, and not by the code that orders the live
  leaderboard; \<open>RoomResults_ranked\<close> says that the two agree.
\<close>

subsection \<open>The statements\<close>

record room_lb_row =
  gl_nickname :: string
  gl_schoolName :: string
  gl_jenjang :: string
  gl_score :: int
  gl_correctCount :: int
  gl_totalMs :: int
  gl_rank :: int

definition standing_of_row :: "player_row \<Rightarrow> standing" where
  "standing_of_row p = \<lparr>st_player = pr_nickname p, st_score = pr_score p,
     st_correct = pr_correctCount p, st_totalMs = pr_totalMs p\<rparr>"

text \<open>\<open>RANK() OVER (ORDER BY ...)\<close>: one more than the rows that come strictly before.\<close>

definition rank_over :: "('a \<Rightarrow> 'k :: linorder) \<Rightarrow> 'a list \<Rightarrow> 'a \<Rightarrow> int" where
  "rank_over key xs x = 1 + int (length (filter (\<lambda>y. key y < key x) xs))"

definition GetRoomLeaderboard :: "uid \<Rightarrow> time \<Rightarrow> room_lb_row list stmt" where
  "GetRoomLeaderboard room now t =
     (let ps = filter (\<lambda>p. pr_roomID p = room) (tb_players t);
          rows = map (\<lambda>p. \<lparr>gl_nickname = pr_nickname p, gl_schoolName = school_name t (pr_schoolID p),
             gl_jenjang = pr_jenjang p, gl_score = pr_score p, gl_correctCount = pr_correctCount p,
             gl_totalMs = pr_totalMs p, gl_rank = rank_over (\<lambda>q. criteria (standing_of_row q)) ps p\<rparr>) ps
      in Inr (sort_key gl_rank (sort_key gl_nickname rows), t))"

text \<open>
  The schools: of the finished players of each, the five best scores (\<open>ROW_NUMBER\<close>); schools with
  three or more. \<open>AVG\<close> of integers is exact to 16 digits and more, and is then rounded to a float64.
\<close>

record school_lb_row =
  sl_schoolName :: string
  sl_avgScore :: rat
  sl_playerCount :: nat

definition finished_scores :: "tables \<Rightarrow> int \<Rightarrow> int list" where
  "finished_scores t sid =
     map pr_score (filter (\<lambda>p. pr_schoolID p = Some sid \<and> pr_finishedAt p \<noteq> None) (tb_players t))"

definition top5 :: "int list \<Rightarrow> int list" where
  "top5 scores = take 5 (rev (sort scores))"

definition GetSchoolLeaderboard :: "string list \<Rightarrow> time \<Rightarrow> school_lb_row list stmt" where
  "GetSchoolLeaderboard special now t =
     (let line = (\<lambda>s. let best = top5 (finished_scores t (sr_id s)) in
            \<lparr>sl_schoolName = sr_name s, sl_avgScore = fl (of_int (sum_list best) / of_nat (length best)),
             sl_playerCount = length best\<rparr>);
          rows = filter (\<lambda>r. 3 \<le> sl_playerCount r)
            (map line (filter (\<lambda>s. sr_name s \<notin> set special) (tb_schools t)))
      in Inr (sort_key (\<lambda>r. - sl_avgScore r) (sort_key sl_schoolName rows), t))"

subsection \<open>The store\<close>

record result_row =
  rw_rank :: int
  rw_nickname :: string
  rw_school :: string
  rw_jenjang :: string
  rw_score :: int
  rw_correctCount :: int
  rw_totalMs :: int

definition RoomResults :: "pg \<Rightarrow> string \<Rightarrow> db \<Rightarrow> (store_error + result_row list) \<times> db" where
  "RoomResults pg roomID d =
     (case uuid_parse pg roomID of
        None \<Rightarrow> (Inl NotFound, d)
      | Some rid \<Rightarrow>
     (case exec pg (GetRoomLeaderboard rid) d of
        (Inl _, d') \<Rightarrow> (Inl (DbFailure ''room results''), d')
      | (Inr rows, d') \<Rightarrow>
          (Inr (map (\<lambda>r. \<lparr>rw_rank = gl_rank r, rw_nickname = gl_nickname r, rw_school = gl_schoolName r,
             rw_jenjang = gl_jenjang r, rw_score = gl_score r, rw_correctCount = gl_correctCount r,
             rw_totalMs = gl_totalMs r\<rparr>) rows), d')))"

record school_rank =
  sk_school :: string
  sk_avgScore :: rat
  sk_playerCount :: nat

definition SchoolLeaderboard :: "pg \<Rightarrow> db \<Rightarrow> (store_error + school_rank list) \<times> db" where
  "SchoolLeaderboard pg d =
     (case exec pg (GetSchoolLeaderboard specialSchools) d of
        (Inl _, d') \<Rightarrow> (Inl (DbFailure ''school leaderboard''), d')
      | (Inr rows, d') \<Rightarrow>
          (Inr (map (\<lambda>r. \<lparr>sk_school = sl_schoolName r, sk_avgScore = sl_avgScore r,
             sk_playerCount = sl_playerCount r\<rparr>) rows), d'))"

subsection \<open>Ranks\<close>

lemma filter_length_mono: "(\<And>x. x \<in> set xs \<Longrightarrow> P x \<Longrightarrow> Q x) \<Longrightarrow> length (filter P xs) \<le> length (filter Q xs)"
  by (induction xs) (auto intro: le_SucI)

lemma filter_length_less:
  "(\<And>x. x \<in> set xs \<Longrightarrow> P x \<Longrightarrow> Q x) \<Longrightarrow> y \<in> set xs \<Longrightarrow> Q y \<Longrightarrow> \<not> P y \<Longrightarrow>
   length (filter P xs) < length (filter Q xs)"
proof (induction xs)
  case (Cons x xs)
  have m: "length (filter P xs) \<le> length (filter Q xs)" using Cons.prems(1) by (intro filter_length_mono) auto
  show ?case
  proof (cases "y \<in> set xs")
    case True
    then have "length (filter P xs) < length (filter Q xs)" using Cons by auto
    then show ?thesis using Cons.prems(1) [of x] by auto
  qed (use Cons.prems m in auto)
qed simp

lemma rank_over_order:
  assumes "x \<in> set xs" "y \<in> set xs"
  shows "rank_over key xs x \<le> rank_over key xs y \<longleftrightarrow> key x \<le> key y"
proof (cases "key x \<le> key y")
  case True
  then have "length (filter (\<lambda>z. key z < key x) xs) \<le> length (filter (\<lambda>z. key z < key y) xs)"
    by (intro filter_length_mono) auto
  then show ?thesis using True by (simp add: rank_over_def)
next
  case False
  then have "length (filter (\<lambda>z. key z < key y) xs) < length (filter (\<lambda>z. key z < key x) xs)"
    using assms by (intro filter_length_less [where y = y]) auto
  then show ?thesis using False by (simp add: rank_over_def)
qed

lemma sorted_agree:
  assumes "sorted (map f xs)" "\<And>x y. x \<in> set xs \<Longrightarrow> y \<in> set xs \<Longrightarrow> f x \<le> f y \<longleftrightarrow> g x \<le> g y"
  shows "sorted (map g xs)"
  using assms by (induction xs) auto

lemma length_filter_mset: "length (filter P xs) = size (filter_mset P (mset xs))"
  by (metis mset_filter size_mset)

definition result_standing :: "result_row \<Rightarrow> standing" where
  "result_standing r = \<lparr>st_player = rw_nickname r, st_score = rw_score r,
     st_correct = rw_correctCount r, st_totalMs = rw_totalMs r\<rparr>"

lemma RoomResults_rows:
  assumes "RoomResults pg roomID d = (Inr rows, d')" "uuid_parse pg roomID = Some rid"
  obtains ps line where "ps = filter (\<lambda>p. pr_roomID p = rid) (tb_players (tabs d))" "tabs d' = tabs d"
    and "mset rows = image_mset line (mset ps)" "sorted (map rw_rank rows)"
    and "\<And>p. result_standing (line p) = standing_of_row p"
    and "\<And>p. rw_rank (line p) = rank_over (\<lambda>q. criteria (standing_of_row q)) ps p"
proof -
  obtain gs where x: "exec pg (GetRoomLeaderboard rid) d = (Inr gs, d')"
    and r: "rows = map (\<lambda>r. \<lparr>rw_rank = gl_rank r, rw_nickname = gl_nickname r, rw_school = gl_schoolName r,
             rw_jenjang = gl_jenjang r, rw_score = gl_score r, rw_correctCount = gl_correctCount r,
             rw_totalMs = gl_totalMs r\<rparr>) gs" (is "_ = map ?c gs")
    using assms by (auto simp: RoomResults_def split: prod.splits sum.splits)
  let ?ps = "filter (\<lambda>p. pr_roomID p = rid) (tb_players (tabs d))"
  let ?g = "\<lambda>p. \<lparr>gl_nickname = pr_nickname p, gl_schoolName = school_name (tabs d) (pr_schoolID p),
      gl_jenjang = pr_jenjang p, gl_score = pr_score p, gl_correctCount = pr_correctCount p,
      gl_totalMs = pr_totalMs p, gl_rank = rank_over (\<lambda>q. criteria (standing_of_row q)) ?ps p\<rparr>"
  have gs: "gs = sort_key gl_rank (sort_key gl_nickname (map ?g ?ps))" and t: "tabs d' = tabs d"
    using exec_result [OF x] by (auto simp: GetRoomLeaderboard_def Let_def)
  have "map rw_rank rows = map gl_rank gs" by (simp add: r)
  then have "sorted (map rw_rank rows)" by (simp add: gs)
  moreover have "mset rows = image_mset (\<lambda>p. ?c (?g p)) (mset ?ps)"
    by (simp add: r gs image_mset.compositionality comp_def)
  ultimately show ?thesis using that [of ?ps "\<lambda>p. ?c (?g p)"] t by (simp add: result_standing_def standing_of_row_def)
qed


subsection \<open>The schools\<close>

text \<open>The first numbers of a descending list have the largest sum that so many of its numbers can have.\<close>

lemma take_sum_max:
  fixes xs :: "int list"
  shows "sorted_wrt (\<ge>) xs \<Longrightarrow> M \<subseteq># mset xs \<Longrightarrow> size M = k \<Longrightarrow> sum_mset M \<le> sum_list (take k xs)"
proof (induction xs arbitrary: M k)
  case (Cons x xs)
  show ?case
  proof (cases k)
    case (Suc j)
    then obtain e where e: "e \<in># M" "x \<in># M \<longrightarrow> e = x" using Cons.prems(3) by (metis size_eq_Suc_imp_elem)
    have "e \<in> set (x # xs)" using e(1) Cons.prems(2) by (metis mset_subset_eqD set_mset_mset)
    then have "e \<le> x" using Cons.prems(1) by auto
    have "M - {#e#} \<subseteq># mset xs"
    proof (cases "x \<in># M")
      case True
      then show ?thesis using e(2) Cons.prems(2) by (simp add: subset_eq_diff_conv)
    next
      case False
      have "M \<subseteq># mset xs"
      proof (rule mset_subset_eqI)
        fix a show "Multiset.count M a \<le> Multiset.count (mset xs) a"
          using mset_subset_eq_count [OF Cons.prems(2), of a] False
          by (cases "a = x") (auto simp: not_in_iff)
      qed
      then show ?thesis by (rule subset_mset.order_trans [OF diff_subset_eq_self])
    qed
    then have "sum_mset (M - {#e#}) \<le> sum_list (take j xs)"
      using Cons.prems(1,3) Suc e(1) by (intro Cons.IH) (simp_all add: size_Diff_singleton)
    moreover have "sum_mset M = e + sum_mset (M - {#e#})" 
      by (subst insert_DiffM [OF e(1), symmetric]) simp
    ultimately show ?thesis using Suc \<open>e \<le> x\<close> by simp
  qed (use Cons.prems in auto)
qed simp

definition best_of :: "nat \<Rightarrow> int list \<Rightarrow> int \<Rightarrow> bool" where
  "best_of k xs s \<longleftrightarrow> (\<exists>M. M \<subseteq># mset xs \<and> size M = k \<and> sum_mset M = s) \<and>
     (\<forall>M. M \<subseteq># mset xs \<longrightarrow> size M = k \<longrightarrow> sum_mset M \<le> s)"

lemma top5_best: "best_of (min 5 (length xs)) xs (sum_list (top5 xs))" "length (top5 xs) = min 5 (length xs)"
proof -
  let ?ys = "rev (sort xs)" and ?k = "min 5 (length xs)"
  have d: "sorted_wrt (\<ge>) ?ys" by (simp add: sorted_wrt_rev)
  have t: "top5 xs = take ?k ?ys" unfolding top5_def by (cases "length xs \<le> 5") (simp_all add: min_def)
  show l: "length (top5 xs) = ?k" by (simp add: t)
  have "mset (top5 xs) \<subseteq># mset xs" 
    unfolding t by (metis append_take_drop_id mset_append mset_rev mset_sort mset_subset_eq_add_left)
  moreover have "M \<subseteq># mset xs \<Longrightarrow> size M = ?k \<Longrightarrow> sum_mset M \<le> sum_list (top5 xs)" for M
    unfolding t by (rule take_sum_max [OF d]) auto
  ultimately show "best_of ?k xs (sum_list (top5 xs))"
    unfolding best_of_def using l by (metis size_mset sum_mset_sum_list)
qed

text \<open>
  The leaderboard of the schools lists exactly the schools, apart from the special entries, of
  which at least three players have finished, best average first. The average is over the five
  best scores (all, if there are fewer), and \<open>player_count\<close> is the number of scores in it.
\<close>

theorem SchoolLeaderboard_ranks:
  assumes "SchoolLeaderboard pg d = (Inr ranks, d')"
  shows "tabs d' = tabs d \<and> sorted (map (\<lambda>r. - sk_avgScore r) ranks) \<and>
    mset (map sk_school ranks) = mset (map sr_name (filter (\<lambda>s. sr_name s \<notin> set specialSchools \<and>
      3 \<le> length (finished_scores (tabs d) (sr_id s))) (tb_schools (tabs d)))) \<and>
    (\<forall>r \<in> set ranks. \<exists>s \<in> set (tb_schools (tabs d)). \<exists>total. sk_school r = sr_name s \<and>
      sk_playerCount r = min 5 (length (finished_scores (tabs d) (sr_id s))) \<and>
      best_of (sk_playerCount r) (finished_scores (tabs d) (sr_id s)) total \<and>
      sk_avgScore r = fl (of_int total / of_nat (sk_playerCount r)))"
proof -
  let ?c = "\<lambda>r. \<lparr>sk_school = sl_schoolName r, sk_avgScore = sl_avgScore r, sk_playerCount = sl_playerCount r\<rparr>"
  let ?f = "\<lambda>s. finished_scores (tabs d) (sr_id s)"
  let ?line = "\<lambda>s. let best = top5 (?f s) in \<lparr>sl_schoolName = sr_name s,
      sl_avgScore = fl (of_int (sum_list best) / of_nat (length best)), sl_playerCount = length best\<rparr>"
  let ?ss = "filter (\<lambda>s. sr_name s \<notin> set specialSchools) (tb_schools (tabs d))"
  obtain rows where x: "exec pg (GetSchoolLeaderboard specialSchools) d = (Inr rows, d')" and r: "ranks = map ?c rows"
    using assms by (auto simp: SchoolLeaderboard_def split: prod.splits sum.splits)
  have rows: "rows = sort_key (\<lambda>r. - sl_avgScore r) (sort_key sl_schoolName
      (filter (\<lambda>r. 3 \<le> sl_playerCount r) (map ?line ?ss)))" and t: "tabs d' = tabs d"
    using exec_result [OF x] by (auto simp: GetSchoolLeaderboard_def Let_def)
  have "map (\<lambda>r. - sk_avgScore r) ranks = map (\<lambda>r. - sl_avgScore r) rows" by (simp add: r)
  then have sorted: "sorted (map (\<lambda>r. - sk_avgScore r) ranks)" by (simp add: rows)
  have count: "sl_playerCount (?line s) = min 5 (length (?f s))" for s by (simp add: Let_def top5_best)
  have m: "mset rows = image_mset ?line (mset (filter (\<lambda>s. 3 \<le> length (?f s)) ?ss))"
    by (simp add: rows filter_map comp_def Let_def top5_best)
  have names: "mset (map sk_school ranks) = mset (map sr_name (filter (\<lambda>s. sr_name s \<notin> set specialSchools \<and>
      3 \<le> length (?f s)) (tb_schools (tabs d))))"
    by (simp add: r m image_mset.compositionality comp_def Let_def conj_commute)
  have "\<exists>s \<in> set (tb_schools (tabs d)). \<exists>total. sk_school q = sr_name s \<and>
      sk_playerCount q = min 5 (length (?f s)) \<and> best_of (sk_playerCount q) (?f s) total \<and>
      sk_avgScore q = fl (of_int total / of_nat (sk_playerCount q))" if "q \<in> set ranks" for q
  proof -
    have "q \<in># image_mset (\<lambda>s. ?c (?line s)) (mset (filter (\<lambda>s. 3 \<le> length (?f s)) ?ss))"
      using that m by (metis (mono_tags, lifting) image_mset.compositionality comp_apply image_mset_cong mset_map r set_mset_mset)
    then obtain s where "s \<in> set (tb_schools (tabs d))" "q = ?c (?line s)" by auto
    then show ?thesis by (intro bexI [of _ s] exI [of _ "sum_list (top5 (?f s))"]) (simp_all add: Let_def top5_best)
  qed
  then show ?thesis using t sorted names by blast
qed

end
