(* ===== verification/Csv.thy ===== *)
theory Csv
  imports Results Utf8
begin

section \<open>Exporting results: http/results.go\<close>

text \<open>
  The CSV file of a room's results: \<open>encoding/csv\<close> as far as the code uses it (fields are quoted when
  they must be, lines end in CR LF), and the guard against cells that a spreadsheet would run as a
  formula. A reader for the format (RFC 4180) is the specification: the file reads back as the rows.
\<close>

subsection \<open>Writing\<close>

definition cr :: char where "cr = CHR 0x0D"
definition lf :: char where "lf = CHR 0x0A"
definition quote :: char where "quote = CHR 0x22"
definition comma :: char where "comma = CHR '',''"

definition utf8BOM :: string where "utf8BOM = [CHR 0xEF, CHR 0xBB, CHR 0xBF]"
definition csvFormulaChars :: string where "csvFormulaChars = ''=+-@'' @ [CHR 0x09, cr]"

definition csvHeader :: "string list" where
  "csvHeader = [''rank'', ''nickname'', ''school'', ''jenjang'', ''score'', ''correct_count'', ''total_ms'']"

definition fieldNeedsQuotes :: "string \<Rightarrow> bool" where
  "fieldNeedsQuotes f \<longleftrightarrow> f \<noteq> [] \<and>
     (f = [CHR 0x5C, CHR ''.''] \<or> (\<exists>c \<in> set f. c = lf \<or> c = cr \<or> c = quote \<or> c = comma) \<or>
      (\<exists>w \<in> set space_runes. starts_with w f))"

text \<open>With \<open>UseCRLF\<close>, a quoted field loses its carriage returns and gets one before every line feed.\<close>

fun escaped :: "string \<Rightarrow> string" where
  "escaped [] = []"
| "escaped (c # s) =
     (if c = quote then [quote, quote] else if c = cr then [] else if c = lf then [cr, lf] else [c]) @ escaped s"

definition write_field :: "string \<Rightarrow> string" where
  "write_field f = (if fieldNeedsQuotes f then quote # escaped f @ [quote] else f)"

fun write_record :: "string list \<Rightarrow> string" where
  "write_record [] = [cr, lf]"
| "write_record [f] = write_field f @ [cr, lf]"
| "write_record (f # fs) = write_field f @ comma # write_record fs"

definition safeCell :: "string \<Rightarrow> string" where
  "safeCell s = (case s of [] \<Rightarrow> s | c # _ \<Rightarrow> if c \<in> set csvFormulaChars then CHR 0x27 # s else s)"

definition result_cells :: "result_row \<Rightarrow> string list" where
  "result_cells r = [Itoa (rw_rank r), safeCell (rw_nickname r), safeCell (rw_school r), rw_jenjang r,
     Itoa (rw_score r), Itoa (rw_correctCount r), Itoa (rw_totalMs r)]"

definition writeResultsCSV :: "result_row list \<Rightarrow> string" where
  "writeResultsCSV rows = utf8BOM @ concat (map write_record (csvHeader # map result_cells rows))"

subsection \<open>Reading\<close>

fun read_plain :: "string \<Rightarrow> string \<times> string" where
  "read_plain [] = ([], [])"
| "read_plain (c # s) =
     (if c = comma \<or> c = cr \<or> c = lf then ([], c # s) else let (f, r) = read_plain s in (c # f, r))"

text \<open>After the opening quote: two quotes are one, a single one ends the field, CR LF is a line feed.\<close>

fun read_quoted :: "string \<Rightarrow> (string \<times> string) option" where
  "read_quoted [] = None"
| "read_quoted [c] = (if c = quote then Some ([], []) else None)"
| "read_quoted (c # x # s) =
     (if c = quote \<and> x = quote then map_option (\<lambda>(f, r). (quote # f, r)) (read_quoted s)
      else if c = quote then Some ([], x # s)
      else if c = cr \<and> x = lf then map_option (\<lambda>(f, r). (lf # f, r)) (read_quoted s)
      else map_option (\<lambda>(f, r). (c # f, r)) (read_quoted (x # s)))"

definition read_field :: "string \<Rightarrow> (string \<times> string) option" where
  "read_field s = (case s of c # s' \<Rightarrow> if c = quote then read_quoted s' else Some (read_plain s)
     | [] \<Rightarrow> Some ([], []))"

lemma read_plain_length: "length (snd (read_plain s)) \<le> length s"
  by (induction s) (auto split: prod.splits)

lemma read_quoted_length: "read_quoted s = Some (f, r) \<Longrightarrow> length r \<le> length s"
  by (induction s arbitrary: f r rule: read_quoted.induct) (fastforce split: if_splits)+

lemma read_field_length: "read_field s = Some (f, r) \<Longrightarrow> length r \<le> length s"
  using read_plain_length [of s] read_quoted_length [of "tl s" f r]
  by (auto simp: read_field_def split: list.splits if_splits)

function read_record :: "string \<Rightarrow> (string list \<times> string) option" where
  "read_record s =
     (case read_field s of
        None \<Rightarrow> None
      | Some (f, r) \<Rightarrow>
          (case r of
             [] \<Rightarrow> Some ([f], [])
           | c # r' \<Rightarrow>
               if c = comma then map_option (\<lambda>(fs, rest). (f # fs, rest)) (read_record r')
               else (case r' of
                       [] \<Rightarrow> None
                     | x # rest \<Rightarrow> if c = cr \<and> x = lf then Some ([f], rest) else None)))"
  by pat_completeness auto

termination read_record
  by (relation "measure length") (auto dest: read_field_length)

text \<open>One record after the other; \<open>n\<close> bounds their number (the length of the text is enough).\<close>

fun read_records :: "nat \<Rightarrow> string \<Rightarrow> string list list option" where
  "read_records n [] = Some []"
| "read_records 0 (c # s) = None"
| "read_records (Suc n) (c # s) =
     (case read_record (c # s) of
        None \<Rightarrow> None
      | Some (r, rest) \<Rightarrow> map_option (Cons r) (read_records n rest))"

definition read_csv :: "string \<Rightarrow> string list list option" where
  "read_csv s = (let s' = (if starts_with utf8BOM s then drop (length utf8BOM) s else s)
     in read_records (length s') s')"

subsection \<open>The file reads back\<close>

lemma csv_chars [simp]:
  "quote \<noteq> cr" "quote \<noteq> lf" "quote \<noteq> comma" "cr \<noteq> lf" "cr \<noteq> comma" "lf \<noteq> comma"
  "cr \<noteq> quote" "lf \<noteq> quote" "comma \<noteq> quote" "lf \<noteq> cr" "comma \<noteq> cr" "comma \<noteq> lf"
  by (simp_all add: quote_def cr_def lf_def comma_def)

definition field_end :: "string \<Rightarrow> bool" where
  "field_end s \<longleftrightarrow> s = [] \<or> hd s = comma \<or> hd s = cr"

lemma read_plain_append:
  "\<forall>c \<in> set f. c \<noteq> comma \<and> c \<noteq> cr \<and> c \<noteq> lf \<Longrightarrow> field_end s \<Longrightarrow> read_plain (f @ s) = (f, s)"
proof (induction f)
  case Nil
  then show ?case by (cases s) (auto simp: field_end_def)
qed simp

lemma read_quoted_step:
  "c \<noteq> quote \<Longrightarrow> c \<noteq> cr \<Longrightarrow> s \<noteq> [] \<Longrightarrow>
   read_quoted (c # s) = map_option (\<lambda>(f, r). (c # f, r)) (read_quoted s)"
  by (cases s) auto

lemma read_quoted_escaped:
  "cr \<notin> set f \<Longrightarrow> field_end s \<Longrightarrow> read_quoted (escaped f @ quote # s) = Some (f, s)"
proof (induction f)
  case Nil
  then show ?case by (cases s) (auto simp: field_end_def)
next
  case (Cons c f)
  then have "read_quoted (escaped f @ quote # s) = Some (f, s)" by simp
  then show ?case using Cons.prems by (auto simp: read_quoted_step)
qed

lemma read_field_write:
  assumes "cr \<notin> set f" "field_end s"
  shows "read_field (write_field f @ s) = Some (f, s)"
proof (cases "fieldNeedsQuotes f")
  case True
  then show ?thesis using read_quoted_escaped [OF assms] by (simp add: write_field_def read_field_def)
next
  case False
  then have p: "\<forall>c \<in> set f. c \<noteq> comma \<and> c \<noteq> cr \<and> c \<noteq> lf" "quote \<notin> set f"
    by (auto simp: fieldNeedsQuotes_def)
  then have "read_plain (f @ s) = (f, s)" using read_plain_append assms(2) by blast
  then show ?thesis
    using False p(2) assms(2) by (cases f; cases s) (auto simp: write_field_def read_field_def field_end_def)
qed

lemma read_record_write:
  "fs \<noteq> [] \<Longrightarrow> \<forall>f \<in> set fs. cr \<notin> set f \<Longrightarrow> read_record (write_record fs @ s) = Some (fs, s)"
proof (induction fs rule: write_record.induct)
  case (2 f)
  have "read_field (write_field f @ [cr, lf] @ s) = Some (f, [cr, lf] @ s)"
    using 2 by (intro read_field_write) (auto simp: field_end_def)
  then show ?case by (subst read_record.simps) simp
next
  case (3 f g fs)
  have "read_field (write_field f @ comma # write_record (g # fs) @ s) = Some (f, comma # write_record (g # fs) @ s)"
    using 3 by (intro read_field_write) (auto simp: field_end_def)
  then show ?case using 3 by (subst read_record.simps) simp
qed simp

lemma write_record_nonempty: "write_record fs \<noteq> []"
  by (cases fs rule: write_record.cases) simp_all

lemma read_records_write:
  "\<forall>fs \<in> set rs. fs \<noteq> [] \<and> (\<forall>f \<in> set fs. cr \<notin> set f) \<Longrightarrow> length rs \<le> n \<Longrightarrow>
   read_records n (concat (map write_record rs)) = Some rs"
proof (induction rs arbitrary: n)
  case (Cons fs rs)
  obtain m where n: "n = Suc m" using Cons.prems(2) by (cases n) auto
  let ?s = "concat (map write_record (fs # rs))"
  have "read_record ?s = Some (fs, concat (map write_record rs))"
    using read_record_write [of fs] Cons.prems(1) by simp
  moreover obtain c s where "?s = c # s" using write_record_nonempty [of fs] by (cases ?s) auto
  ultimately show ?case using Cons n by simp
qed simp

lemma length_records: "length rs \<le> length (concat (map write_record rs))"
proof (induction rs)
  case (Cons fs rs)
  then show ?case using write_record_nonempty [of fs] by (cases "write_record fs") auto
qed simp

lemma cr_digits: "cr \<notin> set (digits n)"
proof (induction n rule: digits.induct)
  case (1 n)
  have d: "char_of (48 + k) \<noteq> cr" if "k < 10" for k :: nat
  proof
    assume "char_of (48 + k) = cr"
    then have "(of_char (char_of (48 + k)) :: nat) = of_char cr" by simp
    then show False using that by (simp add: cr_def)
  qed
  have "n mod 10 < 10" by simp
  from d [OF this] d [of n] show ?case using 1 by (subst digits.simps) auto
qed

lemma cr_Itoa: "cr \<notin> set (Itoa n)"
  using cr_digits by (simp add: Itoa_def cr_def)

lemma set_safeCell: "set (safeCell s) \<subseteq> insert (CHR 0x27) (set s)"
  by (auto simp: safeCell_def split: list.splits)

lemma safeCell_safe: "safeCell s = [] \<or> hd (safeCell s) \<notin> set csvFormulaChars"
  by (auto simp: safeCell_def csvFormulaChars_def cr_def split: list.split)

lemma BOM_dropped: "starts_with utf8BOM (utf8BOM @ s) \<and> drop (length utf8BOM) (utf8BOM @ s) = s"
  by (simp add: starts_with_def)

text \<open>
  C20. The exported file reads back as the header and one row for each player, in order, whatever
  commas, quotes, line feeds and spaces the names hold (a name has no carriage return); and no
  nickname and no school in it starts with a character that makes a spreadsheet run it.
\<close>

theorem results_csv_reads_back:
  assumes "\<forall>r \<in> set rows. cr \<notin> set (rw_nickname r) \<and> cr \<notin> set (rw_school r) \<and> cr \<notin> set (rw_jenjang r)"
  shows "read_csv (writeResultsCSV rows) = Some (csvHeader # map result_cells rows) \<and>
    (\<forall>cells \<in> set (map result_cells rows). length cells = length csvHeader \<and>
      (\<forall>i \<in> {1, 2}. cells ! i = [] \<or> hd (cells ! i) \<notin> set csvFormulaChars))"
proof -
  have h: "\<forall>f \<in> set csvHeader. cr \<notin> set f" "csvHeader \<noteq> []" "length csvHeader = 7"
    by (simp_all add: csvHeader_def cr_def)
  have q: "cr \<noteq> CHR 0x27" by (simp add: cr_def)
  have "\<forall>f \<in> set (result_cells r). cr \<notin> set f" if "r \<in> set rows" for r
    using that assms cr_Itoa set_safeCell q by (auto simp: result_cells_def)
  moreover have "result_cells r \<noteq> []" for r by (simp add: result_cells_def)
  ultimately have "read_csv (writeResultsCSV rows) = Some (csvHeader # map result_cells rows)"
    unfolding read_csv_def writeResultsCSV_def using h length_records [of "csvHeader # map result_cells rows"]
    by (simp only: BOM_dropped if_True Let_def) (intro read_records_write, auto)
  moreover have "length (result_cells r) = 7" "result_cells r ! 1 = safeCell (rw_nickname r)"
    "result_cells r ! 2 = safeCell (rw_school r)" for r by (simp_all add: result_cells_def)
  ultimately show ?thesis using safeCell_safe h(3) by auto
qed

end
