(* ===== verification/Seed.thy ===== *)
theory Seed
  imports Store Selector
begin

section \<open>Seeding the question bank: seed/questions.go, seed/schools.go, cmd/seed\<close>

text \<open>
  The operator's command that fills the tables of questions and schools: validation of the file,
  then one transaction that inserts or updates every row. The command starts here with the decoded
  questions and the rows of the CSV file; \<open>Commands\<close> reads the files.
\<close>

subsection \<open>Validation\<close>

definition ExpectedQuestionCount :: nat where "ExpectedQuestionCount = 66"
definition MinQuestionsPerSite :: nat where "MinQuestionsPerSite = 12"
definition siteCount :: nat where "siteCount = 5"
definition reserveSite :: int where "reserveSite = 0"

record seed_question =
  sq_id :: string
  sq_site :: int
  sq_level :: int
  sq_type :: string
  sq_prompt :: text_bi
  sq_options :: "option_q list"
  sq_explanation :: text_bi
  sq_active :: "bool option"

definition IsActive :: "seed_question \<Rightarrow> bool" where
  "IsActive q = (case sq_active q of None \<Rightarrow> True | Some b \<Rightarrow> b)"

datatype problem =
    DuplicateID | ReserveNotSite0 | BadID | SiteMismatch | BadLevel | BlankPrompt | BlankExplanation
  | UnknownType | OptionCount nat | BadOptionID string | BlankLabel string | CorrectCount nat

definition is_digit :: "char \<Rightarrow> bool" where
  "is_digit c \<longleftrightarrow> 48 \<le> (of_char c :: nat) \<and> (of_char c :: nat) \<le> 57"

text \<open>The patterns \<open>^X-\d{2}$\<close>, \<open>^M([1-5])-\d{2}$\<close> (with its group) and \<open>^opt-[a-d]$\<close>.\<close>

definition reserveIDPattern :: "string \<Rightarrow> bool" where
  "reserveIDPattern s = (case s of
     [x, m, a, b] \<Rightarrow> x = CHR ''X'' \<and> m = CHR ''-'' \<and> is_digit a \<and> is_digit b | _ \<Rightarrow> False)"

definition questionIDPattern :: "string \<Rightarrow> string option" where
  "questionIDPattern s = (case s of
     [x, d, m, a, b] \<Rightarrow> if x = CHR ''M'' \<and> d \<in> set ''12345'' \<and> m = CHR ''-'' \<and> is_digit a \<and> is_digit b
                        then Some [d] else None
   | _ \<Rightarrow> None)"

definition optionIDPattern :: "string \<Rightarrow> bool" where
  "optionIDPattern s \<longleftrightarrow> s \<in> {''opt-a'', ''opt-b'', ''opt-c'', ''opt-d''}"

definition optionCountByType :: "string \<Rightarrow> (nat \<times> nat) option" where
  "optionCountByType t =
     (if t = ''mc'' then Some (2, 4) else if t = ''tf'' then Some (2, 2)
      else if t = ''fill'' then Some (2, 4) else None)"

definition isBlank :: "text_bi \<Rightarrow> bool" where
  "isBlank b \<longleftrightarrow> TrimSpace (t_id b) = '''' \<or> TrimSpace (t_en b) = ''''"

definition validateID :: "seed_question \<Rightarrow> problem list" where
  "validateID q =
     (if reserveIDPattern (sq_id q)
      then if sq_site q \<noteq> reserveSite then [ReserveNotSite0] else []
      else case questionIDPattern (sq_id q) of
             None \<Rightarrow> [BadID]
           | Some m \<Rightarrow> (if m \<noteq> Itoa (sq_site q) then [SiteMismatch] else []) @
                       (if sq_level q < 1 \<or> sq_level q > 3 then [BadLevel] else []))"

text \<open>The loop over the options with the set of ids seen so far.\<close>

fun option_problems :: "string list \<Rightarrow> option_q list \<Rightarrow> problem list" where
  "option_problems ids [] = []"
| "option_problems ids (x # xs) =
     (if \<not> optionIDPattern (o_id x) \<or> o_id x \<in> set ids then [BadOptionID (o_id x)] else []) @
     (if isBlank (o_label x) then [BlankLabel (o_id x)] else []) @
     option_problems (o_id x # ids) xs"

definition validateOptions :: "seed_question \<Rightarrow> problem list" where
  "validateOptions q =
     (case optionCountByType (sq_type q) of
        None \<Rightarrow> [UnknownType]
      | Some (lo, hi) \<Rightarrow>
          (let n = length (sq_options q); correct = length (filter o_correct (sq_options q)) in
             (if n < lo \<or> n > hi then [OptionCount n] else []) @
             option_problems [] (sq_options q) @
             (if correct \<noteq> 1 then [CorrectCount correct] else [])))"

definition validateQuestion :: "seed_question \<Rightarrow> problem list" where
  "validateQuestion q =
     validateID q @ (if isBlank (sq_prompt q) then [BlankPrompt] else []) @
     (if isBlank (sq_explanation q) then [BlankExplanation] else []) @ validateOptions q"

fun validate_from :: "string list \<Rightarrow> seed_question list \<Rightarrow> problem list" where
  "validate_from seen [] = []"
| "validate_from seen (q # qs) =
     (if sq_id q \<in> set seen then [DuplicateID] else []) @ validateQuestion q @
     validate_from (sq_id q # seen) qs"

text \<open>\<open>errors.Join\<close> of the problems is nil exactly when there is none.\<close>

definition ValidateQuestions :: "seed_question list \<Rightarrow> problem list" where
  "ValidateQuestions qs = validate_from [] qs"

datatype bank_problem = WrongCount nat | TooFewAtSite int nat

definition ValidateBankSize :: "seed_question list \<Rightarrow> bank_problem list" where
  "ValidateBankSize qs =
     (if length qs \<noteq> ExpectedQuestionCount then [WrongCount (length qs)] else []) @
     concat (map (\<lambda>site. let n = length (filter (\<lambda>q. sq_site q = site) qs)
                    in if n < MinQuestionsPerSite then [TooFewAtSite site n] else [])
       (map int [1..<siteCount + 1]))"

definition validate :: "seed_question list \<Rightarrow> bool \<Rightarrow> bool" where
  "validate qs strict \<longleftrightarrow> ValidateQuestions qs = [] \<and> (strict \<longrightarrow> ValidateBankSize qs = [])"

subsection \<open>Schools\<close>

record seed_school =
  ss_name :: string
  ss_jenjang :: string
  ss_city :: string

fun parseSchoolRows :: "string list list \<Rightarrow> seed_school list option" where
  "parseSchoolRows [] = Some []"
| "parseSchoolRows (row # rows) =
     (case row of
        [a, b, c] \<Rightarrow>
          if TrimSpace a = '''' then None
          else map_option (Cons \<lparr>ss_name = TrimSpace a, ss_jenjang = TrimSpace b, ss_city = TrimSpace c\<rparr>)
                 (parseSchoolRows rows)
      | _ \<Rightarrow> None)"

text \<open>The first row is the header.\<close>

definition LoadSchools :: "string list list \<Rightarrow> seed_school list option" where
  "LoadSchools rows = (case rows of [] \<Rightarrow> Some [] | _ # rows' \<Rightarrow> parseSchoolRows rows')"

subsection \<open>seed.sql\<close>

text \<open>Checks of the migrations: site 0 to 5, level 1 to 3, the three types, ids of at most 10 characters.\<close>

definition UpsertQuestion :: "question_row \<Rightarrow> time \<Rightarrow> unit stmt" where
  "UpsertQuestion q now t =
     (if \<not> (0 \<le> qr_qsite q \<and> qr_qsite q \<le> 5 \<and> 1 \<le> qr_qlevel q \<and> qr_qlevel q \<le> 3 \<and>
            qr_qtype q \<in> {''mc'', ''tf'', ''fill''} \<and> rune_count (qr_qid q) \<le> 10) then Inl CheckViolation
      else if qr_qid q \<in> set (map qr_qid (tb_questions t))
      then Inr ((), t\<lparr>tb_questions := map (\<lambda>r. if qr_qid r = qr_qid q then q else r) (tb_questions t)\<rparr>)
      else Inr ((), t\<lparr>tb_questions := tb_questions t @ [q]\<rparr>))"

text \<open>The id of a new row is the next number of the table's sequence; \<open>verified\<close> stays on an update.\<close>

definition UpsertSchool :: "int \<Rightarrow> string \<Rightarrow> string option \<Rightarrow> string option \<Rightarrow> time \<Rightarrow> unit stmt" where
  "UpsertSchool fresh name jenjang city now t =
     (if name \<in> set (map sr_name (tb_schools t))
      then Inr ((), t\<lparr>tb_schools := map (\<lambda>s. if sr_name s = name
             then s\<lparr>sr_jenjang := jenjang, sr_city := city\<rparr> else s) (tb_schools t)\<rparr>)
      else Inr ((), t\<lparr>tb_schools := tb_schools t @ [\<lparr>sr_id = fresh, sr_name = name, sr_jenjang = jenjang,
             sr_city = city, sr_verified = True\<rparr>]\<rparr>))"

subsection \<open>The command\<close>

text \<open>\<open>int16\<close> of Go wraps around.\<close>

definition int16 :: "int \<Rightarrow> int" where
  "int16 v = (v + 32768) mod 65536 - 32768"

definition toQuestionParams :: "seed_question \<Rightarrow> question_row" where
  "toQuestionParams q =
     \<lparr>qr_qid = sq_id q, qr_qsite = int16 (sq_site q), qr_qlevel = int16 (sq_level q), qr_qtype = sq_type q,
      qr_prompt = marshal_text (sq_prompt q), qr_options = marshal_options (sq_options q),
      qr_explanation = marshal_text (sq_explanation q), qr_active = IsActive q\<rparr>"

definition textOrNull :: "string \<Rightarrow> string option" where
  "textOrNull s = (if s = '''' then None else Some s)"

fun upsertQuestions :: "pg \<Rightarrow> seed_question list \<Rightarrow> tables \<Rightarrow> db \<Rightarrow> tables option \<times> db" where
  "upsertQuestions pg [] t d = (Some t, d)"
| "upsertQuestions pg (q # qs) t d =
     (case tx_exec pg (UpsertQuestion (toQuestionParams q)) t d of
        (Inl _, d') \<Rightarrow> (None, d')
      | (Inr (_, t'), d') \<Rightarrow> upsertQuestions pg qs t' d')"

fun upsertSchools :: "pg \<Rightarrow> (nat \<Rightarrow> int) \<Rightarrow> seed_school list \<Rightarrow> tables \<Rightarrow> db \<Rightarrow> tables option \<times> db" where
  "upsertSchools pg serial [] t d = (Some t, d)"
| "upsertSchools pg serial (s # ss) t d =
     (case tx_exec pg (UpsertSchool (serial (trips d)) (ss_name s) (textOrNull (ss_jenjang s)) (textOrNull (ss_city s))) t d of
        (Inl _, d') \<Rightarrow> (None, d')
      | (Inr (_, t'), d') \<Rightarrow> upsertSchools pg serial ss t' d')"

text \<open>The transaction of \<open>run\<close>; the result says whether it committed.\<close>

definition seed_tx :: "pg \<Rightarrow> (nat \<Rightarrow> int) \<Rightarrow> seed_question list \<Rightarrow> seed_school list \<Rightarrow> db \<Rightarrow> bool \<times> db" where
  "seed_tx pg serial qs schools d =
     (case tx_begin pg d of
        (Inl _, d1) \<Rightarrow> (False, d1)
      | (Inr t, d1) \<Rightarrow>
     (case upsertQuestions pg qs t d1 of
        (None, d2) \<Rightarrow> (False, d2)
      | (Some t2, d2) \<Rightarrow>
     (case upsertSchools pg serial schools t2 d2 of
        (None, d3) \<Rightarrow> (False, d3)
      | (Some t3, d3) \<Rightarrow> tx_commit pg t3 d3)))"

text \<open>The command on decoded files and an open database; \<open>Commands\<close> has the whole of it.\<close>

definition seed_run :: "pg \<Rightarrow> (nat \<Rightarrow> int) \<Rightarrow> seed_question list \<Rightarrow> string list list \<Rightarrow> bool \<Rightarrow> db \<Rightarrow> bool \<times> db" where
  "seed_run pg serial qs rows strict d =
     (if \<not> validate qs strict then (False, d)
      else case LoadSchools rows of
        None \<Rightarrow> (False, d)
      | Some schools \<Rightarrow> seed_tx pg serial qs schools d)"

subsection \<open>What the validation guarantees\<close>

definition playable :: "question \<Rightarrow> bool" where
  "playable q \<longleftrightarrow> q_type q \<in> {''mc'', ''tf'', ''fill''} \<and>
     2 \<le> length (q_options q) \<and> length (q_options q) \<le> 4 \<and>
     distinct (map o_id (q_options q)) \<and> length (filter o_correct (q_options q)) = 1 \<and>
     \<not> isBlank (q_prompt q) \<and> \<not> isBlank (q_explanation q) \<and> (\<forall>x \<in> set (q_options q). \<not> isBlank (o_label x))"

lemma option_problems_none:
  "option_problems ids xs = [] \<Longrightarrow>
   distinct (map o_id xs) \<and> set ids \<inter> o_id ` set xs = {} \<and> (\<forall>x \<in> set xs. \<not> isBlank (o_label x))"
proof (induction xs arbitrary: ids)
  case (Cons x xs)
  then have "option_problems (o_id x # ids) xs = []" "o_id x \<notin> set ids" "\<not> isBlank (o_label x)"
    by (auto split: if_splits)
  then show ?case using Cons.IH [of "o_id x # ids"] by auto
qed simp

lemma validate_from_none:
  "validate_from seen qs = [] \<longleftrightarrow>
   distinct (map sq_id qs) \<and> set seen \<inter> sq_id ` set qs = {} \<and> (\<forall>q \<in> set qs. validateQuestion q = [])"
  by (induction qs arbitrary: seen) auto

lemma ValidateQuestions_none:
  "ValidateQuestions qs = [] \<longleftrightarrow> distinct (map sq_id qs) \<and> (\<forall>q \<in> set qs. validateQuestion q = [])"
  by (simp add: ValidateQuestions_def validate_from_none)

text \<open>The question that the game sees of a row of the file.\<close>

definition question_of :: "seed_question \<Rightarrow> question" where
  "question_of q = \<lparr>q_id = sq_id q, q_site = sq_site q, q_level = int16 (sq_level q), q_type = sq_type q,
     q_prompt = sq_prompt q, q_explanation = sq_explanation q, q_options = sq_options q\<rparr>"

lemma int16_id: "- 32768 \<le> v \<Longrightarrow> v < 32768 \<Longrightarrow> int16 v = v"
  by (simp add: int16_def)

lemma valid_playable: "validateQuestion q = [] \<Longrightarrow> playable (question_of q)"
  using option_problems_none [of "[]" "sq_options q"]
  by (auto simp: validateQuestion_def validateOptions_def playable_def question_of_def optionCountByType_def Let_def
      split: option.splits if_splits prod.splits)

lemma Itoa_digit_site:
  assumes "d \<in> set ''12345''" "Itoa n = [d]"
  shows "1 \<le> n \<and> n \<le> 5"
proof (cases "n < 0")
  case False
  have "nat n < 10"
  proof (rule ccontr)
    assume "\<not> nat n < 10"
    then have "Itoa n = digits (nat n div 10) @ [char_of (48 + nat n mod 10)]" using False
      by (simp only: Itoa_def if_False) (subst digits.simps, simp)
    moreover have "digits k \<noteq> []" for k by (subst digits.simps) simp
    ultimately show False using assms(2) by (metis append_is_Nil_conv append_eq_Cons_conv list.distinct(1))
  qed
  then have "d = char_of (48 + nat n)" using assms(2) False by (simp add: Itoa_def)
  then have "(of_char d :: nat) = 48 + nat n" using \<open>nat n < 10\<close> by simp
  moreover have "(of_char d :: nat) \<in> {49, 50, 51, 52, 53}" using assms(1) by auto
  ultimately show ?thesis using False by auto
qed (use assms in \<open>auto simp: Itoa_def\<close>)

lemma valid_site_level:
  assumes "validateQuestion q = []"
  shows "int16 (sq_site q) = sq_site q \<and> (\<not> reserveIDPattern (sq_id q) \<longrightarrow> int16 (sq_level q) = sq_level q)"
proof (cases "reserveIDPattern (sq_id q)")
  case True
  then show ?thesis
    using assms by (auto simp: validateQuestion_def validateID_def reserveSite_def int16_def split: if_splits)
next
  case False
  then obtain m where m: "questionIDPattern (sq_id q) = Some m" "m = Itoa (sq_site q)" "1 \<le> sq_level q" "sq_level q \<le> 3"
    using assms by (auto simp: validateQuestion_def validateID_def split: option.splits if_splits)
  then obtain d where "m = [d]" "d \<in> set ''12345''"
    by (simp add: questionIDPattern_def split: list.splits if_splits) metis
  then have "1 \<le> sq_site q \<and> sq_site q \<le> 5" using Itoa_digit_site m(2) by metis
  then show ?thesis using m by (simp add: int16_id)
qed

subsection \<open>What the transaction stores\<close>

lemma UpsertQuestion_keeps:
  assumes "UpsertQuestion r now t = Inr (u, t')" "distinct (map qr_qid (tb_questions t))"
  shows "distinct (map qr_qid (tb_questions t')) \<and> r \<in> set (tb_questions t') \<and>
    (\<forall>x. qr_qid x \<noteq> qr_qid r \<longrightarrow> x \<in> set (tb_questions t) \<longrightarrow> x \<in> set (tb_questions t'))"
proof -
  have ids: "map qr_qid (map (\<lambda>x. if qr_qid x = qr_qid r then r else x) xs) = map qr_qid xs" for xs
    by (induction xs) auto
  show ?thesis
    using assms ids [of "tb_questions t"]
    by (force simp: UpsertQuestion_def image_iff simp del: map_map split: if_splits)
qed

lemma upsertQuestions_stores:
  "upsertQuestions pg qs t d = (Some t', d') \<Longrightarrow> distinct (map qr_qid (tb_questions t)) \<Longrightarrow>
   distinct (map sq_id qs) \<Longrightarrow>
   distinct (map qr_qid (tb_questions t')) \<and> (\<forall>q \<in> set qs. toQuestionParams q \<in> set (tb_questions t')) \<and>
   (\<forall>x. qr_qid x \<notin> sq_id ` set qs \<longrightarrow> x \<in> set (tb_questions t) \<longrightarrow> x \<in> set (tb_questions t'))"
proof (induction qs arbitrary: t d)
  case (Cons q qs)
  obtain t1 d1 now where x: "UpsertQuestion (toQuestionParams q) now t = Inr ((), t1)"
    and rest: "upsertQuestions pg qs t1 d1 = (Some t', d')"
    using Cons.prems(1) by (auto simp: tx_exec_def split: prod.splits sum.splits if_splits)
  note k = UpsertQuestion_keeps [OF x Cons.prems(2)]
  have id: "qr_qid (toQuestionParams q) = sq_id q" by (simp add: toQuestionParams_def)
  have "distinct (map sq_id qs)" "sq_id q \<notin> sq_id ` set qs" using Cons.prems(3) by auto
  then show ?case using Cons.IH [OF rest conjunct1 [OF k]] k id by auto
qed simp

lemma UpsertSchool_questions: "UpsertSchool i n j c now t = Inr (u, t') \<Longrightarrow> tb_questions t' = tb_questions t"
  by (auto simp: UpsertSchool_def split: if_splits)

lemma upsertSchools_questions:
  "upsertSchools pg serial ss t d = (Some t', d') \<Longrightarrow> tb_questions t' = tb_questions t"
proof (induction ss arbitrary: t d)
  case (Cons s ss)
  then show ?case
    by (auto simp: tx_exec_def dest!: UpsertSchool_questions split: prod.splits sum.splits if_splits)
qed simp

lemma seed_run_stores:
  assumes "seed_run pg serial qs rows strict d = (True, d')" "distinct (map qr_qid (tb_questions (tabs d)))"
  shows "ValidateQuestions qs = [] \<and> distinct (map qr_qid (tb_questions (tabs d'))) \<and>
    (\<forall>q \<in> set qs. toQuestionParams q \<in> set (tb_questions (tabs d')))"
proof -
  obtain ss d1 t2 d2 t3 d3 where v: "validate qs strict"
    and q: "upsertQuestions pg qs (tabs d) d1 = (Some t2, d2)"
    and s: "upsertSchools pg serial ss t2 d2 = (Some t3, d3)" and c: "tx_commit pg t3 d3 = (True, d')"
    using assms(1)
    by (auto simp: seed_run_def seed_tx_def tx_begin_def split: if_splits option.splits prod.splits sum.splits)
  have "tabs d' = t3" using c by (auto simp: tx_commit_def Let_def split: fault.splits)
  moreover have "distinct (map sq_id qs)" "ValidateQuestions qs = []"
    using v by (simp_all add: validate_def ValidateQuestions_none)
  ultimately show ?thesis
    using upsertQuestions_stores [OF q assms(2)] upsertSchools_questions [OF s] by simp
qed

subsection \<open>The bank comes back out of the database\<close>

lemma questionFromRow_seed: "questionFromRow (toQuestionParams q) = Inr (question_of q\<lparr>q_site := int16 (sq_site q)\<rparr>)"
  by (simp add: questionFromRow_def toQuestionParams_def question_of_def)

lemma index_rows_eq:
  "\<forall>r \<in> set rows. questionFromRow r = Inr (conv r) \<Longrightarrow>
   index_rows rows byID = Inr (fold (\<lambda>r m. m(q_id (conv r) \<mapsto> conv r)) rows byID)"
  by (induction rows arbitrary: byID) auto

lemma fold_index:
  "distinct (map (\<lambda>r. q_id (conv r)) rows) \<Longrightarrow> r \<in> set rows \<Longrightarrow>
   fold (\<lambda>r m. m(q_id (conv r) \<mapsto> conv r)) rows byID (q_id (conv r)) = Some (conv r)"
proof (induction rows arbitrary: byID)
  case (Cons x rows)
  have other: "k \<notin> (\<lambda>r. q_id (conv r)) ` set rows \<Longrightarrow>
      fold (\<lambda>r m. m(q_id (conv r) \<mapsto> conv r)) rows m k = m k" for k m
    by (induction rows arbitrary: m) auto
  show ?case
  proof (cases "r = x")
    case True
    then show ?thesis using Cons.prems(1) other [of "q_id (conv x)"] by (simp del: fun_upd_apply) simp
  next
    case False
    then show ?thesis using Cons by simp
  qed
qed simp

lemma order_questions_eq:
  "\<forall>i \<in> set ids. byID i = Some (f i) \<Longrightarrow> order_questions ids byID = Inr (map f ids)"
  by (induction ids) auto

lemma questionFromRow_id: "questionFromRow r = Inr q \<Longrightarrow> q_id q = qr_qid r"
  by (auto simp: questionFromRow_def split: option.splits)

text \<open>When every id asked for has a row that parses, \<open>QuestionsByIDs\<close> answers id by id.\<close>

lemma QuestionsByIDs_rows:
  assumes dist: "distinct (map qr_qid (tb_questions (tabs d)))" and ok: "fault pg (trips d) = NoFault"
    and rows: "\<forall>i \<in> set ids. \<exists>r \<in> set (tb_questions (tabs d)). qr_qid r = i \<and> questionFromRow r = Inr (f i)"
  shows "fst (QuestionsByIDs pg ids d) = Inr (map f ids)"
proof -
  let ?hits = "filter (\<lambda>r. qr_qid r \<in> set ids) (tb_questions (tabs d))"
  let ?c = "\<lambda>r. f (qr_qid r)"
  have hit: "questionFromRow r = Inr (?c r) \<and> q_id (?c r) = qr_qid r" if r: "r \<in> set ?hits" for r
  proof -
    obtain r' where r': "r' \<in> set (tb_questions (tabs d))" "qr_qid r' = qr_qid r" "questionFromRow r' = Inr (?c r)"
      using bspec [OF rows, of "qr_qid r"] r by auto
    then have "r' = r" using r dist by (auto simp: distinct_map dest: inj_onD)
    then show ?thesis using r'(3) questionFromRow_id [OF r'(3)] by simp
  qed
  have index: "index_rows ?hits Map.empty = Inr (fold (\<lambda>r m. m(q_id (?c r) \<mapsto> ?c r)) ?hits Map.empty)"
    using hit by (intro index_rows_eq) blast
  have "map (\<lambda>r. q_id (?c r)) ?hits = map qr_qid ?hits" using hit by (intro map_cong) auto
  then have dc: "distinct (map (\<lambda>r. q_id (?c r)) ?hits)"
    using distinct_map_filter [OF dist, of "\<lambda>r. qr_qid r \<in> set ids"] by (simp only:)
  have "fold (\<lambda>r m. m(q_id (?c r) \<mapsto> ?c r)) ?hits Map.empty i = Some (f i)" if i: "i \<in> set ids" for i
  proof -
    obtain r where r: "r \<in> set ?hits" "qr_qid r = i" using bspec [OF rows i] i by auto
    then show ?thesis using fold_index [OF dc r(1)] hit [OF r(1)] by simp
  qed
  then have "order_questions ids (fold (\<lambda>r m. m(q_id (?c r) \<mapsto> ?c r)) ?hits Map.empty) = Inr (map f ids)"
    by (intro order_questions_eq) blast
  then show ?thesis using ok index by (simp add: QuestionsByIDs_def exec_def GetQuestionsByIDs_def Let_def)
qed

definition seeded :: "seed_question list \<Rightarrow> string \<Rightarrow> question" where
  "seeded qs i = question_of (the (find (\<lambda>q. sq_id q = i) qs))"

text \<open>
  After a seeding that succeeded, a room that asks for questions of the file gets exactly what
  the file says, in the order asked for; and each is playable: two to four options with different
  ids, one of them correct, and no blank text. The casts to the columns change nothing but the
  level of a reserve question, which the validation does not look at.
\<close>

theorem seed_round_trip:
  assumes "seed_run pg serial qs rows strict d = (True, d')" "distinct (map qr_qid (tb_questions (tabs d)))"
    and "set ids \<subseteq> sq_id ` set qs" "fault pg (trips d') = NoFault"
  shows "fst (QuestionsByIDs pg ids d') = Inr (map (seeded qs) ids) \<and>
    (\<forall>i \<in> set ids. playable (seeded qs i) \<and> q_id (seeded qs i) = i) \<and>
    (\<forall>q \<in> set qs. \<not> reserveIDPattern (sq_id q) \<longrightarrow> q_level (question_of q) = sq_level q)"
proof -
  have v: "ValidateQuestions qs = []" and dist: "distinct (map qr_qid (tb_questions (tabs d')))"
    and stored: "\<forall>q \<in> set qs. toQuestionParams q \<in> set (tb_questions (tabs d'))"
    using seed_run_stores [OF assms(1,2)] by auto
  have ok: "validateQuestion q = []" if "q \<in> set qs" for q using v that by (simp add: ValidateQuestions_none)
  have conv: "questionFromRow (toQuestionParams q) = Inr (question_of q)" if "q \<in> set qs" for q
    using valid_site_level [OF ok [OF that]] by (simp add: questionFromRow_seed question_of_def)
  have infile: "\<exists>q \<in> set qs. seeded qs i = question_of q \<and> sq_id q = i" if i: "i \<in> set ids" for i
  proof -
    obtain q where q: "q \<in> set qs" "sq_id q = i" using assms(3) i by auto
    then have "find (\<lambda>y. sq_id y = sq_id q) qs = Some q"
      using v by (intro find_map_unique) (simp_all add: ValidateQuestions_none)
    then show ?thesis using q by (auto simp: seeded_def)
  qed
  have "\<exists>r \<in> set (tb_questions (tabs d')). qr_qid r = i \<and> questionFromRow r = Inr (seeded qs i)" if i: "i \<in> set ids" for i
  proof -
    obtain q where q: "q \<in> set qs" "seeded qs i = question_of q" "sq_id q = i" using infile [OF i] by blast
    moreover have "qr_qid (toQuestionParams q) = sq_id q" by (simp add: toQuestionParams_def)
    ultimately show ?thesis using stored conv [OF q(1)] by auto
  qed
  then have a: "fst (QuestionsByIDs pg ids d') = Inr (map (seeded qs) ids)"
    using dist assms(4) by (intro QuestionsByIDs_rows) auto
  have b: "playable (seeded qs i) \<and> q_id (seeded qs i) = i" if "i \<in> set ids" for i
    using infile [OF that] valid_playable [OF ok] by (auto simp: question_of_def)
  have l: "\<not> reserveIDPattern (sq_id q) \<longrightarrow> q_level (question_of q) = sq_level q" if "q \<in> set qs" for q
    using valid_site_level [OF ok [OF that]] by (simp add: question_of_def)
  show ?thesis using a b l by blast
qed

subsection \<open>What the validation does not guarantee\<close>

text \<open>A bank of 66 questions, at least 13 of each site, all of level 1.\<close>

definition easy_question :: "int \<times> char \<Rightarrow> nat \<Rightarrow> seed_question" where
  "easy_question site k =
     \<lparr>sq_id = [CHR ''M'', snd site, CHR ''-'', char_of (48 + k div 10), char_of (48 + k mod 10)],
      sq_site = fst site, sq_level = 1, sq_type = ''tf'', sq_prompt = \<lparr>t_id = ''p'', t_en = ''p''\<rparr>,
      sq_options = [\<lparr>o_id = ''opt-a'', o_label = \<lparr>t_id = ''a'', t_en = ''a''\<rparr>, o_correct = True\<rparr>,
        \<lparr>o_id = ''opt-b'', o_label = \<lparr>t_id = ''b'', t_en = ''b''\<rparr>, o_correct = False\<rparr>],
      sq_explanation = \<lparr>t_id = ''e'', t_en = ''e''\<rparr>, sq_active = None\<rparr>"

definition easy_sites :: "(int \<times> char) list" where
  "easy_sites = zip [1, 2, 3, 4, 5] ''12345''"

definition easy_bank :: "seed_question list" where
  "easy_bank = concat (map (\<lambda>s. map (easy_question s) [0..<(if fst s = 1 then 14 else 13)]) easy_sites)"

definition pool_of :: "seed_question list \<Rightarrow> question_ref list" where
  "pool_of qs = map (\<lambda>q. \<lparr>qr_id = sq_id q, qr_site = sq_site q, qr_level = sq_level q\<rparr>) qs"

lemma easy_bank_ids: "distinct (map sq_id easy_bank)"
  by code_simp

lemma easy_sites_match: "list_all (\<lambda>s. Itoa (fst s) = [snd s] \<and> snd s \<in> set ''12345'') easy_sites"
  by code_simp

lemma easy_question_valid:
  assumes "s \<in> set easy_sites" "k < 100"
  shows "validateQuestion (easy_question s k) = []"
proof -
  have s: "Itoa (fst s) = [snd s]" "snd s \<in> set ''12345''"
    using assms(1) easy_sites_match by (simp_all only: list_all_iff)
  have d: "is_digit (char_of (48 + n))" if "n < 10" for n :: nat using that by (simp add: is_digit_def)
  have "k div 10 < 10" using assms(2) by simp
  then have dd: "is_digit (char_of (48 + k div 10))" "is_digit (char_of (48 + k mod 10))" by (auto intro: d)
  have "questionIDPattern [CHR ''M'', c, CHR ''-'', a, b] = Some [c] \<and> \<not> reserveIDPattern [CHR ''M'', c, CHR ''-'', a, b]"
    if "is_digit a" "is_digit b" "c \<in> set ''12345''" for a b c
    using that by (simp add: questionIDPattern_def reserveIDPattern_def)
  from this [OF dd s(2)] have i: "questionIDPattern (sq_id (easy_question s k)) = Some (Itoa (sq_site (easy_question s k)))"
    "\<not> reserveIDPattern (sq_id (easy_question s k))" "sq_level (easy_question s k) = 1"
    by (simp_all only: easy_question_def seed_question.simps s(1) simp_thms)
  let ?e = "easy_question (1, CHR ''1'') 1"
  have "sq_prompt (easy_question s k) = sq_prompt ?e" "sq_explanation (easy_question s k) = sq_explanation ?e"
    "sq_type (easy_question s k) = sq_type ?e" "sq_options (easy_question s k) = sq_options ?e"
    by (simp_all add: easy_question_def)
  moreover from this(3,4) have "validateOptions (easy_question s k) = validateOptions ?e"
    by (simp only: validateOptions_def)
  moreover have "validateOptions ?e = []" "\<not> isBlank (sq_prompt ?e)" "\<not> isBlank (sq_explanation ?e)"
    by code_simp+
  ultimately show ?thesis using i by (simp add: validateQuestion_def validateID_def)
qed

lemma easy_bank_size: "ValidateBankSize easy_bank = []"
  by code_simp

lemma easy_bank_valid: "validate easy_bank True"
proof -
  have "validateQuestion q = []" if "q \<in> set easy_bank" for q
    using that by (auto simp: easy_bank_def intro!: easy_question_valid split: if_splits)
  then show ?thesis using easy_bank_ids easy_bank_size by (simp add: validate_def ValidateQuestions_none)
qed

lemma easy_bank_levels: "in_cell (pool_of easy_bank) (s, 2) = []"
proof -
  have "sq_level q = 1" if "q \<in> set easy_bank" for q
    using that by (auto simp: easy_bank_def easy_question_def)
  then show ?thesis by (auto simp: in_cell_def pool_of_def filter_empty_conv)
qed

lemma level_2_asked: "j \<in> {''SD'', ''SMP'', ''SMA''} \<Longrightarrow> \<exists>s. (s, 2) \<in> set (schedule j short)"
  by (cases short) (auto simp: schedule_def composition_def levelsToAsk_def questionsEach_def)

text \<open>
  C35. The strict validation of a launch bank accepts a bank on which no room can be created: it
  counts questions for each site and does not look at their levels, and without a question of
  level 2 the selection fails for every school level, session length and random draw.
\<close>

theorem strict_bank_may_not_play:
  "validate easy_bank True \<and>
   (\<forall>rng j short. \<exists>e. SelectQuestions rng j short (pool_of easy_bank) = Inl e)"
proof -
  have "\<nexists>ids. SelectQuestions rng j short (pool_of easy_bank) = Inr ids" for rng j short
  proof
    assume "\<exists>ids. SelectQuestions rng j short (pool_of easy_bank) = Inr ids"
    then have j: "j \<in> {''SD'', ''SMP'', ''SMA''}"
      and l: "\<forall>cell \<in> set (schedule j short). count_list (schedule j short) cell \<le> length (in_cell (pool_of easy_bank) cell)"
      unfolding SelectQuestions_Inr_iff by (simp_all add: list_all_iff)
    obtain s where s: "(s, 2) \<in> set (schedule j short)" using level_2_asked [OF j] by blast
    then have "count_list (schedule j short) (s, 2) = 0" using bspec [OF l s] by (simp add: easy_bank_levels)
    then show False using s by (simp add: count_list_0_iff)
  qed
  then show ?thesis using easy_bank_valid by (metis sum.exhaust)
qed

end
