(* ===== verification/Auth.thy ===== *)
theory Auth
  imports Prelude
begin

section \<open>Tokens: api/internal/auth/tokens.go\<close>

text \<open>
  A token carries who its bearer is: a host, or a player of a room. Signing and verifying are the
  JWT library's, a parameter (\<open>jwt_lib\<close>): \<open>jwt_sign\<close> may fail, \<open>jwt_parse\<close> answers the claims of a
  token that carries a valid HS256 signature and an expiry that has not passed. What the code
  relies on is \<open>jwt_laws\<close>: a signed token parses to its claims until it expires, and not after.
\<close>

datatype role = RoleHost | RolePlayer | OtherRole string

text \<open>The dates are in seconds, as \<open>NumericDate\<close> keeps them.\<close>

record claims =
  cm_role :: role
  cm_roomID :: string
  cm_subject :: string
  cm_issuedAt :: int
  cm_expiresAt :: int

record jwt_lib =
  jwt_sign :: "string \<Rightarrow> claims \<Rightarrow> string option"
  jwt_parse :: "string \<Rightarrow> time \<Rightarrow> string \<Rightarrow> claims option"

definition MinSecretLength :: nat where "MinSecretLength = 32"
definition hostTokenTTL :: duration where "hostTokenTTL = 8 * (60 * minute)"
definition playerTokenTTL :: duration where "playerTokenTTL = 6 * (60 * minute)"

text \<open>The result is the secret of the new \<open>Tokens\<close>.\<close>

definition NewTokens :: "string \<Rightarrow> string option" where
  "NewTokens secret = (if length secret < MinSecretLength then None else Some secret)"

definition sign :: "jwt_lib \<Rightarrow> string \<Rightarrow> time \<Rightarrow> claims \<Rightarrow> string \<Rightarrow> duration \<Rightarrow> string option" where
  "sign lib secret now c subject ttl =
     jwt_sign lib secret (c\<lparr>cm_subject := subject, cm_issuedAt := now div second,
       cm_expiresAt := (now + ttl) div second\<rparr>)"

definition claims_for :: "role \<Rightarrow> string \<Rightarrow> claims" where
  "claims_for role roomID = \<lparr>cm_role = role, cm_roomID = roomID, cm_subject = '''', cm_issuedAt = 0,
     cm_expiresAt = 0\<rparr>"

definition IssueHost :: "jwt_lib \<Rightarrow> string \<Rightarrow> time \<Rightarrow> string \<Rightarrow> string option" where
  "IssueHost lib secret now hostID = sign lib secret now (claims_for RoleHost '''') hostID hostTokenTTL"

definition IssuePlayer :: "jwt_lib \<Rightarrow> string \<Rightarrow> time \<Rightarrow> string \<Rightarrow> string \<Rightarrow> string option" where
  "IssuePlayer lib secret now roomID playerID =
     sign lib secret now (claims_for RolePlayer roomID) playerID playerTokenTTL"

definition Parse :: "jwt_lib \<Rightarrow> string \<Rightarrow> time \<Rightarrow> string \<Rightarrow> claims option" where
  "Parse lib secret now raw =
     (case jwt_parse lib secret now raw of
        None \<Rightarrow> None
      | Some c \<Rightarrow> if cm_subject c = '''' then None else Some c)"

definition jwt_laws :: "jwt_lib \<Rightarrow> bool" where
  "jwt_laws lib \<longleftrightarrow> (\<forall>secret c raw now. jwt_sign lib secret c = Some raw \<longrightarrow>
     jwt_parse lib secret now raw = (if now < cm_expiresAt c * second then Some c else None))"

text \<open>What \<open>Parse\<close> says of an issued token: the identity it was issued for, until it expires.\<close>

definition speaks_for :: "jwt_lib \<Rightarrow> string \<Rightarrow> string \<Rightarrow> time \<Rightarrow> role \<Rightarrow> string \<Rightarrow> string \<Rightarrow> bool" where
  "speaks_for lib secret raw expiry role roomID subject \<longleftrightarrow>
     (\<forall>now. case Parse lib secret now raw of
        None \<Rightarrow> expiry \<le> now
      | Some c \<Rightarrow> now < expiry \<and> cm_role c = role \<and> cm_roomID c = roomID \<and> cm_subject c = subject)"

lemma sign_speaks:
  assumes "jwt_laws lib" "sign lib secret now (claims_for role roomID) subject ttl = Some raw" "subject \<noteq> ''''"
  shows "speaks_for lib secret raw ((now + ttl) div second * second) role roomID subject"
  using assms by (auto simp: jwt_laws_def sign_def speaks_for_def Parse_def claims_for_def)

text \<open>
  A token that was issued authenticates exactly the host, or the player of the room, it was
  issued for: until its time to live has passed (cut down to the full second), and never after.
\<close>

theorem issued_token_authenticates:
  assumes "jwt_laws lib" "subject \<noteq> ''''"
  shows "(IssueHost lib secret now subject = Some raw \<longrightarrow>
      speaks_for lib secret raw ((now + hostTokenTTL) div second * second) RoleHost '''' subject) \<and>
    (IssuePlayer lib secret now roomID subject = Some raw \<longrightarrow>
      speaks_for lib secret raw ((now + playerTokenTTL) div second * second) RolePlayer roomID subject)"
  using sign_speaks [OF assms(1)] assms(2) by (simp add: IssueHost_def IssuePlayer_def)

end
