(* ===== verification/Ws.thy ===== *)
theory Ws
  imports Frame Auth "HOL-Library.Sublist"
begin

section \<open>WebSocket connections: api/internal/ws/client.go\<close>

text \<open>
  One connection: the bounded queue between the room and the socket, the pump that writes it, and
  the dispatch of what the peer sends. The room never waits for a client: a client whose queue is
  full is disconnected.
\<close>

subsection \<open>The outgoing queue\<close>

definition sendBuffer :: nat where "sendBuffer = 32"

datatype frame = Text message | Ping | CloseFrame

text \<open>
  \<open>c_queue\<close> is the channel \<open>send\<close>, \<open>c_closed\<close> says that it is closed, \<open>c_wire\<close> what was written to
  the socket so far, \<open>c_gone\<close> that the pump has left and the socket is closed.
\<close>

record client =
  c_role :: role
  c_closed :: bool
  c_queue :: "message list"
  c_wire :: "frame list"
  c_gone :: bool

definition newClient :: "role \<Rightarrow> client" where
  "newClient role = \<lparr>c_role = role, c_closed = False, c_queue = [], c_wire = [], c_gone = False\<rparr>"

definition Client_Send :: "message \<Rightarrow> client \<Rightarrow> client" where
  "Client_Send m c =
     (if c_closed c then c
      else if length (c_queue c) < sendBuffer then c\<lparr>c_queue := c_queue c @ [m]\<rparr>
      else c\<lparr>c_closed := True\<rparr>)"

definition Client_Close :: "client \<Rightarrow> client" where
  "Client_Close c = (if \<not> c_closed c then c\<lparr>c_closed := True\<rparr> else c)"

text \<open>
  One turn of \<open>writePump\<close>: it takes a message from the channel, finds the channel closed and
  drained, or its ticker fires. \<open>ok\<close> says whether the write to the socket succeeds.
\<close>

datatype pump_event = Drain bool | Tick bool

fun writePump :: "pump_event \<Rightarrow> client \<Rightarrow> client" where
  "writePump (Drain ok) c =
     (if c_gone c then c
      else case c_queue c of
             m # ms \<Rightarrow> if ok then c\<lparr>c_queue := ms, c_wire := c_wire c @ [Text m]\<rparr>
                       else c\<lparr>c_queue := ms, c_gone := True\<rparr>
           | [] \<Rightarrow> if \<not> c_closed c then c
                   else if ok then c\<lparr>c_wire := c_wire c @ [CloseFrame], c_gone := True\<rparr>
                   else c\<lparr>c_gone := True\<rparr>)"
| "writePump (Tick ok) c =
     (if c_gone c then c
      else if ok then c\<lparr>c_wire := c_wire c @ [Ping]\<rparr>
      else c\<lparr>c_gone := True\<rparr>)"

subsection \<open>Dispatching what the peer sends\<close>

text \<open>
  A frame is parsed by \<open>encoding/json\<close>: \<open>None\<close> stands for text that is not JSON. \<open>d\<close> stays raw
  until the command asks for it; a missing \<open>d\<close> is an empty text, which does not parse either.
\<close>

record incoming =
  i_t :: string
  i_d :: "json option"

fun incoming_fields :: "(string \<times> json) list \<Rightarrow> incoming \<Rightarrow> incoming option" where
  "incoming_fields [] m = Some m"
| "incoming_fields ((k, v) # kvs) m =
     (if key_is ''t'' k then
        (case set_string v (i_t m) of None \<Rightarrow> None | Some s \<Rightarrow> incoming_fields kvs (m\<lparr>i_t := s\<rparr>))
      else if key_is ''d'' k then incoming_fields kvs (m\<lparr>i_d := Some v\<rparr>)
      else incoming_fields kvs m)"

definition zero_incoming :: incoming where
  "zero_incoming = \<lparr>i_t = '''', i_d = None\<rparr>"

fun parse_incoming :: "json option \<Rightarrow> incoming option" where
  "parse_incoming (Some (JObj kvs)) = incoming_fields kvs zero_incoming"
| "parse_incoming (Some JNull) = Some zero_incoming"
| "parse_incoming _ = None"

text \<open>The payload of \<open>q.answer\<close>: \<open>option_id\<close> is a pointer, nil for null.\<close>

fun answer_fields :: "(string \<times> json) list \<Rightarrow> string \<times> string option \<Rightarrow> (string \<times> string option) option" where
  "answer_fields [] d = Some d"
| "answer_fields ((k, v) # kvs) (q, oid) =
     (if key_is ''question_id'' k then
        (case set_string v q of None \<Rightarrow> None | Some s \<Rightarrow> answer_fields kvs (s, oid))
      else if key_is ''option_id'' k then
        (case v of JNull \<Rightarrow> answer_fields kvs (q, None) | JStr s \<Rightarrow> answer_fields kvs (q, Some s) | _ \<Rightarrow> None)
      else answer_fields kvs (q, oid))"

fun parse_answer :: "json option \<Rightarrow> (string \<times> string option) option" where
  "parse_answer (Some (JObj kvs)) = answer_fields kvs ('''', None)"
| "parse_answer (Some JNull) = Some ('''', None)"
| "parse_answer _ = None"

fun kick_fields :: "(string \<times> json) list \<Rightarrow> string \<Rightarrow> string option" where
  "kick_fields [] p = Some p"
| "kick_fields ((k, v) # kvs) p =
     (if key_is ''player_id'' k then
        (case set_string v p of None \<Rightarrow> None | Some s \<Rightarrow> kick_fields kvs s)
      else kick_fields kvs p)"

fun parse_kick :: "json option \<Rightarrow> string option" where
  "parse_kick (Some (JObj kvs)) = kick_fields kvs ''''"
| "parse_kick (Some JNull) = Some ''''"
| "parse_kick _ = None"

text \<open>What a frame leads to: nothing, a message back to this client, or an event for the room.\<close>

datatype reaction = Ignored | Reply message | Act event

definition dispatchPlayer :: "uid \<Rightarrow> incoming \<Rightarrow> reaction" where
  "dispatchPlayer playerID msg =
     (if i_t msg = ''q.next'' then Act (EvNext playerID)
      else if i_t msg = ''q.answer'' then
        (case parse_answer (i_d msg) of
           None \<Rightarrow> Reply (ErrorMessage ''INVALID_REQUEST'' ''q.answer needs question_id and option_id'' (i_t msg))
         | Some (q, oid) \<Rightarrow>
             if q = '''' then Reply (ErrorMessage ''INVALID_REQUEST'' ''q.answer needs question_id and option_id'' (i_t msg))
             else Act (EvAnswer playerID q oid))
      else Ignored)"

definition dispatchHost :: "incoming \<Rightarrow> reaction" where
  "dispatchHost msg =
     (if i_t msg = ''host.start'' then Act EvStart
      else if i_t msg = ''host.end'' then Act EvEnd
      else if i_t msg = ''host.kick'' then
        (case parse_kick (i_d msg) of
           None \<Rightarrow> Ignored
         | Some p \<Rightarrow> if p = '''' then Ignored else Act (EvKick p))
      else Ignored)"

definition dispatch :: "role \<Rightarrow> uid \<Rightarrow> json option \<Rightarrow> reaction" where
  "dispatch role clientID data =
     (case parse_incoming data of
        None \<Rightarrow> Ignored
      | Some msg \<Rightarrow>
          if i_t msg = ''ping'' then Reply MPong
          else case role of
                 RoleHost \<Rightarrow> dispatchHost msg
               | RolePlayer \<Rightarrow> dispatchPlayer clientID msg
               | OtherRole _ \<Rightarrow> Ignored)"

subsection \<open>What a room may rely on of its sinks\<close>

text \<open>
  The contract of \<open>game.Sink\<close>: a sink that is open takes every message, in order; when it cannot, it
  closes, and it takes nothing once closed. \<open>taken\<close> is what the sink took so far.
\<close>

locale game_sink =
  fixes send_to :: "message \<Rightarrow> 'c \<Rightarrow> 'c" and close_it :: "'c \<Rightarrow> 'c"
    and taken :: "'c \<Rightarrow> message list" and shut :: "'c \<Rightarrow> bool"
  assumes takes: "\<not> shut (send_to m c) \<Longrightarrow> \<not> shut c \<and> taken (send_to m c) = taken c @ [m]"
    and refuses: "shut (send_to m c) \<Longrightarrow> taken (send_to m c) = taken c"
    and closes: "shut (close_it c)" "taken (close_it c) = taken c"
    and stays_shut: "shut c \<Longrightarrow> send_to m c = c"
begin

text \<open>The messages meant for a sink, and those it took: equal while it is open, else a first part.\<close>

definition keeps_up :: "message list \<Rightarrow> message list \<Rightarrow> 'c \<Rightarrow> bool" where
  "keeps_up ms acc c \<longleftrightarrow> prefix acc ms \<and> (\<not> shut c \<longrightarrow> acc = ms)"

lemma keeps_up_send:
  assumes "keeps_up ms acc c"
  shows "\<exists>xs. keeps_up (ms @ [m]) (acc @ xs) (send_to m c) \<and> taken (send_to m c) = taken c @ xs"
proof (cases "shut (send_to m c)")
  case True
  then show ?thesis using assms refuses by (intro exI [of _ "[]"]) (auto simp: keeps_up_def)
next
  case False
  then show ?thesis using assms takes by (intro exI [of _ "[m]"]) (simp add: keeps_up_def)
qed

lemma keeps_up_close: "keeps_up ms acc c \<Longrightarrow> keeps_up ms acc (close_it c)"
  by (simp add: keeps_up_def closes)

end

definition texts :: "frame list \<Rightarrow> message list" where
  "texts fs = concat (map (\<lambda>f. case f of Text m \<Rightarrow> [m] | _ \<Rightarrow> []) fs)"

lemma texts_simps [simp]:
  "texts [] = []" "texts (fs @ gs) = texts fs @ texts gs" "texts (Text m # fs) = m # texts fs"
  "texts (Ping # fs) = texts fs" "texts (CloseFrame # fs) = texts fs"
  by (simp_all add: texts_def)

definition client_taken :: "client \<Rightarrow> message list" where
  "client_taken c = texts (c_wire c) @ c_queue c"

interpretation ws: game_sink Client_Send Client_Close client_taken c_closed
  by unfold_locales (auto simp: Client_Send_def Client_Close_def client_taken_def split: if_splits)

subsection \<open>A connection from end to end\<close>

text \<open>
  What happens to a client, in any order: the room's operations on it, frames of its peer, turns
  of the pump, the end of the read loop. The reply to a frame goes through the same queue.
\<close>

datatype client_event = FromRoom sink_op | FromPeer "json option" | Pump pump_event | ReadEnds

fun client_do :: "uid \<Rightarrow> client_event \<Rightarrow> client \<Rightarrow> client" where
  "client_do i (FromRoom (Send m)) c = Client_Send m c"
| "client_do i (FromRoom Close) c = Client_Close c"
| "client_do i (FromPeer data) c =
     (case dispatch (c_role c) i data of Reply m \<Rightarrow> Client_Send m c | _ \<Rightarrow> c)"
| "client_do i (Pump p) c = writePump p c"
| "client_do i ReadEnds c = Client_Close c"

definition client_run :: "role \<Rightarrow> uid \<Rightarrow> client_event list \<Rightarrow> client" where
  "client_run role i evs = fold (client_do i) evs (newClient role)"

text \<open>The messages that were to be sent to the peer.\<close>

fun meant :: "role \<Rightarrow> uid \<Rightarrow> client_event \<Rightarrow> message list" where
  "meant role i (FromRoom (Send m)) = [m]"
| "meant role i (FromPeer data) = (case dispatch role i data of Reply m \<Rightarrow> [m] | _ \<Rightarrow> [])"
| "meant role i _ = []"

text \<open>
  \<open>acc\<close>: the messages the queue took. The pump writes them in order and loses none unless the
  socket fails; the close frame comes after all of them.
\<close>

definition client_inv :: "message list \<Rightarrow> message list \<Rightarrow> client \<Rightarrow> bool" where
  "client_inv ms acc c \<longleftrightarrow> ws.keeps_up ms acc c \<and>
     (if c_gone c then prefix (texts (c_wire c)) acc else client_taken c = acc) \<and>
     length (c_queue c) \<le> sendBuffer \<and>
     (CloseFrame \<in> set (c_wire c) \<longrightarrow> c_gone c \<and> c_closed c \<and> last (c_wire c) = CloseFrame)"

lemma Client_Send_fields [simp]:
  "c_gone (Client_Send m c) = c_gone c" "c_wire (Client_Send m c) = c_wire c"
  "c_role (Client_Send m c) = c_role c" "c_closed c \<Longrightarrow> Client_Send m c = c"
  "length (c_queue c) \<le> sendBuffer \<Longrightarrow> length (c_queue (Client_Send m c)) \<le> sendBuffer"
  by (simp_all add: Client_Send_def)

lemma client_inv_send:
  assumes "client_inv ms acc c"
  shows "\<exists>acc'. client_inv (ms @ [m]) acc' (Client_Send m c)"
proof -
  obtain xs where x: "ws.keeps_up (ms @ [m]) (acc @ xs) (Client_Send m c)"
      "client_taken (Client_Send m c) = client_taken c @ xs"
    using ws.keeps_up_send [OF conjunct1 [OF assms [unfolded client_inv_def]], of m] by blast
  then have "client_inv (ms @ [m]) (acc @ xs) (Client_Send m c)"
    using assms by (auto simp: client_inv_def)
  then show ?thesis by blast
qed

lemma client_inv_pump: "client_inv ms acc c \<Longrightarrow> client_inv ms acc (writePump p c)"
  by (cases p) (auto simp: client_inv_def client_taken_def ws.keeps_up_def split: list.splits)

lemma client_inv_close: "client_inv ms acc c \<Longrightarrow> client_inv ms acc (Client_Close c)"
  using ws.keeps_up_close by (auto simp: client_inv_def Client_Close_def client_taken_def)

lemma client_role [simp]: "c_role (client_do i ev c) = c_role c"
proof -
  have s: "c_role (Client_Close c) = c_role c" by (simp add: Client_Close_def)
  have "c_role (writePump p c) = c_role c" for p by (cases p) (auto split: list.split)
  then show ?thesis using s by (cases "(i, ev, c)" rule: client_do.cases) (auto split: reaction.split)
qed

lemma client_inv_do:
  assumes "client_inv ms acc c" "c_role c = role"
  shows "\<exists>acc'. client_inv (ms @ meant role i ev) acc' (client_do i ev c)"
  using assms client_inv_send [OF assms(1)] client_inv_pump [OF assms(1)] client_inv_close [OF assms(1)]
  by (cases "(i, ev, c)" rule: client_do.cases) (auto split: reaction.split)

lemma client_inv_run:
  "\<exists>acc. client_inv (concat (map (meant role i) evs)) acc (client_run role i evs) \<and>
     c_role (client_run role i evs) = role"
proof (induction evs rule: rev_induct)
  case Nil
  show ?case by (auto simp: client_run_def newClient_def client_inv_def client_taken_def ws.keeps_up_def)
next
  case (snoc ev evs)
  then show ?case using client_inv_do [where i = i and ev = ev] by (fastforce simp: client_run_def)
qed

text \<open>
  C11. A peer never sees a gap: what was written to the socket is a first part of the messages meant
  for it, in order; while the connection is open, the rest is in the queue, which never holds more
  than 32. The close frame is written last, after everything the queue took.
\<close>

theorem peer_sees_no_gap:
  "prefix (texts (c_wire (client_run role i evs))) (concat (map (meant role i) evs)) \<and>
   (\<not> c_closed (client_run role i evs) \<and> \<not> c_gone (client_run role i evs) \<longrightarrow>
      client_taken (client_run role i evs) = concat (map (meant role i) evs)) \<and>
   length (c_queue (client_run role i evs)) \<le> sendBuffer \<and>
   (CloseFrame \<in> set (c_wire (client_run role i evs)) \<longrightarrow> last (c_wire (client_run role i evs)) = CloseFrame)"
proof -
  obtain acc where "client_inv (concat (map (meant role i) evs)) acc (client_run role i evs)"
    using client_inv_run by blast
  moreover from this have "prefix (texts (c_wire (client_run role i evs))) acc"
    by (auto simp: client_inv_def client_taken_def split: if_splits)
  ultimately show ?thesis
    by (auto simp: client_inv_def ws.keeps_up_def intro: prefix_order.trans)
qed

subsection \<open>Whom a peer can touch\<close>

definition touches :: "event \<Rightarrow> uid set" where
  "touches ev = (case ev of EvNext i \<Rightarrow> {i} | EvAnswer i _ _ \<Rightarrow> {i} | EvKick i \<Rightarrow> {i} | _ \<Rightarrow> {})"

text \<open>All players outside \<open>S\<close> are as before, or all of them disconnected because the game ended.\<close>

definition confined :: "uid set \<Rightarrow> ('s, 'b) room \<Rightarrow> ('s, 'b) room \<Rightarrow> bool" where
  "confined S r r' \<longleftrightarrow>
     (\<exists>f \<in> {\<lambda>p. p, disconnected}. \<forall>k. k \<notin> S \<longrightarrow> player_of r' k = map_option f (player_of r k))"

lemma confined_spares: "spares pid r r' \<Longrightarrow> confined {pid} r r'"
  by (auto simp: spares_def confined_def)

lemma confined_same: "player_of r' = player_of r \<Longrightarrow> confined S r r'"
  by (simp add: confined_def option.map_ident)

lemma confined_end: "confined {} r (endSession d r)"
proof (cases "r_status r = Ended")
  case False
  then show ?thesis by (auto simp: confined_def player_of_endSession)
qed (simp add: endSession_def confined_same)

lemma confined_start: "confined {} r (startSession d r)"
proof -
  have f: "r_players (broadcast m (armDeadline d t q)) = r_players q" for m t and q :: "('a, 'b) room"
    by (simp add: broadcast_def armDeadline_def read_clock_def Let_def)
  show ?thesis
    by (rule confined_same)
      (auto simp: startSession_def f player_of_def fun_eq_iff split: prod.split sum.split)
qed

lemma kick_eq:
  assumes "player_of r pid = Some p" "api_DeletePlayer (d_store d) pid (r_store r) = (None, s)"
  obtains r4 where "kick d pid r = endIfAllFinished d r4" and "player_of r4 = (player_of r)(pid := None)"
proof -
  let ?r1 = "r\<lparr>r_store := s, r_players := AList.delete pid (r_players r), r_order := removeID (r_order r) pid\<rparr>"
  let ?r2 = "forgetStanding d pid ?r1"
  let ?r3 = "case ps_sink p of None \<Rightarrow> ?r2
    | Some k \<Rightarrow> close k (send k (MPlayerKicked ''kicked by host'') ?r2)"
  have "quiet d ?r1 ?r2" by (rule quiet_forgetStanding)
  also have "quiet d ?r2 ?r3" by (simp add: quiet_trans [OF quiet_send quiet_close] split: option.split)
  also have "quiet d ?r3 (markLeaderboardDirty d ?r3)" by (rule quiet_markLeaderboardDirty)
  finally have "player_of (markLeaderboardDirty d ?r3) = player_of ?r1" by (rule quiet_player_of_eq)
  then have "player_of (markLeaderboardDirty d ?r3) = (player_of r)(pid := None)"
    by (simp add: player_of_def fun_eq_iff)
  moreover have "kick d pid r = endIfAllFinished d (markLeaderboardDirty d ?r3)"
    using assms by (simp add: kick_def Let_def)
  ultimately show ?thesis using that by blast
qed

lemma kick_cases:
  "player_of (kick d pid r) = player_of r \<or>
   (\<exists>f \<in> {\<lambda>p. p, disconnected}. player_of (kick d pid r) = (\<lambda>k. if k = pid then None else map_option f (player_of r k)))"
proof (cases "player_of r pid")
  case (Some p)
  obtain err s where x: "api_DeletePlayer (d_store d) pid (r_store r) = (err, s)" by fastforce
  show ?thesis
  proof (cases err)
    case None
    then obtain r4 where k: "kick d pid r = endIfAllFinished d r4" "player_of r4 = (player_of r)(pid := None)"
      using kick_eq [OF Some] x by blast
    then show ?thesis
      by (cases "endIfAllFinished d r4 = r4") (auto simp: fun_eq_iff player_of_endIfAllFinished option.map_ident)
  qed (use Some x in \<open>simp add: kick_def player_of_def fun_eq_iff\<close>)
qed (simp add: kick_def)

lemma confined_kick: "confined {pid} r (kick d pid r)"
  using kick_cases [of d pid r] by (auto simp: confined_def option.map_ident)

text \<open>Nobody is changed but by being disconnected or removed.\<close>

definition drops_only :: "('s, 'b) room \<Rightarrow> ('s, 'b) room \<Rightarrow> bool" where
  "drops_only r r' \<longleftrightarrow>
     (\<forall>k. player_of r' k \<in> {None, player_of r k, map_option disconnected (player_of r k)})"

lemma drops_confined: "confined {} r r' \<Longrightarrow> drops_only r r'"
  by (auto simp: confined_def drops_only_def option.map_ident)

lemma drops_kick: "drops_only r (kick d pid r)"
  using kick_cases [of d pid r]
proof (elim disjE bexE)
  fix f assume "f \<in> {\<lambda>p. p, disconnected}"
    and e: "player_of (kick d pid r) = (\<lambda>k. if k = pid then None else map_option f (player_of r k))"
  then have "map_option f x \<in> {x, map_option disconnected x}" for x by (auto simp: option.map_ident)
  then show ?thesis unfolding drops_only_def e by auto
qed (simp add: drops_only_def)

lemma dispatch_confined:
  assumes "dispatch role i data = Act ev"
  shows "(role = RolePlayer \<and> touches ev = {i} \<and> (\<forall>k. ev \<noteq> EvKick k) \<or>
      role = RoleHost \<and> ev \<in> {EvStart, EvEnd} \<union> range EvKick \<and> drops_only r (handle d ev r)) \<and>
    confined (touches ev) r (handle d ev r)"
proof -
  consider (player) "role = RolePlayer" "ev = EvNext i \<or> (\<exists>q oid. ev = EvAnswer i q oid)"
    | (host) "role = RoleHost" "ev \<in> {EvStart, EvEnd} \<union> range EvKick"
    using assms
    by (auto simp: dispatch_def dispatchHost_def dispatchPlayer_def split: option.splits if_splits role.splits)
  then show ?thesis
  proof cases
    case player
    then show ?thesis
      using confined_spares [OF spare.rel_nextQuestion] confined_spares [OF spare.rel_answer]
      by (auto simp: touches_def)
  next
    case host
    then show ?thesis
      using confined_start [of r d] confined_end [of r d] confined_kick [of _ r d] drops_kick [of r d]
      by (auto simp: touches_def drops_confined)
  qed
qed

end
