(* ===== verification/Api.thy ===== *)
theory Api
  imports Auth Registry RateLimit Selector Schools Csv
begin

section \<open>The REST interface: api/internal/http\<close>

text \<open>
  The handlers, each as a function from a request and the state of the server to a response and the
  new state. A handler runs on its own goroutine; its calls to the store and to the registry are
  taken here one after the other without others in between (\<open>Registry\<close> has the interleavings).

  Parameters: bcrypt, JWT, Postgres and Redis. \<open>rq_body\<close> is the first JSON value of the body, \<open>None\<close>
  where it is malformed or longer than \<open>maxBodyBytes\<close>. Log output is left out.
\<close>

subsection \<open>State, requests, responses\<close>

record ('b, 'z) api =
  a_pg :: pg
  a_deps :: "(db, 'b) deps"
  a_jwt :: jwt_lib
  a_secret :: string
  a_bcrypt :: "string \<Rightarrow> string \<Rightarrow> bool"
  a_dummyHash :: string
  a_limiter :: "'z limiter option"
  a_trustProxy :: bool
  a_publicBaseURL :: string
  a_rng :: "nat \<Rightarrow> nat \<Rightarrow> nat"
  a_random :: "nat \<Rightarrow> nat \<Rightarrow> nat option"

text \<open>\<open>w_calls\<close> numbers the requests: each has its own generator of questions and of PINs.\<close>

record ('b, 'z) world =
  w_server :: "(db, 'b) server"
  w_limits :: "'z limits"
  w_calls :: nat

record request =
  rq_authorization :: string
  rq_forwarded :: string
  rq_remote :: string
  rq_path :: string
  rq_query :: string
  rq_body :: "json option"

datatype body =
    BError string string
  | BToken string
  | BCreated uid string string
  | BRoomInfo status nat string
  | BPlayerToken string
  | BSchools "school list"
  | BRanks "(string \<times> rat \<times> nat) list"
  | BCsv string string
  | BStatus string
  | BMessage string
  | BNone

type_synonym response = "nat \<times> body"

definition writeError :: "nat \<Rightarrow> string \<Rightarrow> string \<Rightarrow> response" where
  "writeError status code message = (status, BError code message)"

definition writeInvalid :: "string \<Rightarrow> response" where
  "writeInvalid message = writeError 400 ''INVALID_REQUEST'' message"

definition writeInternal :: response where
  "writeInternal = writeError 500 ''INTERNAL'' ''internal error''"

definition bad_json :: response where
  "bad_json = writeInvalid ''request body must be valid JSON''"

definition room_not_found :: response where
  "room_not_found = writeError 404 ''ROOM_NOT_FOUND'' ''room not found or already ended''"

definition isNotFound :: "store_error \<Rightarrow> bool" where
  "isNotFound e \<longleftrightarrow> e = NotFound"

text \<open>A call to the store; the time on the server's clock.\<close>

definition store_call :: "(db \<Rightarrow> 'a \<times> db) \<Rightarrow> ('b, 'z) world \<Rightarrow> 'a \<times> ('b, 'z) world" where
  "store_call f w = (let (x, s) = f (sv_store (w_server w))
     in (x, w\<lparr>w_server := (w_server w)\<lparr>sv_store := s\<rparr>\<rparr>))"

definition time_now :: "('b, 'z) api \<Rightarrow> ('b, 'z) world \<Rightarrow> time" where
  "time_now a w = d_clock (a_deps a) (sv_tick (w_server w))"

subsection \<open>Decoding\<close>

fun set_int :: "json \<Rightarrow> int \<Rightarrow> int option" where
  "set_int (JNum n) old = (if - (2 ^ 63) \<le> n \<and> n < 2 ^ 63 then Some n else None)"
| "set_int JNull old = Some old"
| "set_int _ old = None"

record login_request =
  lg_email :: string
  lg_password :: string

fun login_fields :: "(string \<times> json) list \<Rightarrow> login_request \<Rightarrow> login_request option" where
  "login_fields [] r = Some r"
| "login_fields ((k, v) # kvs) r =
     (if key_is ''email'' k then
        Option.bind (set_string v (lg_email r)) (\<lambda>s. login_fields kvs (r\<lparr>lg_email := s\<rparr>))
      else if key_is ''password'' k then
        Option.bind (set_string v (lg_password r)) (\<lambda>s. login_fields kvs (r\<lparr>lg_password := s\<rparr>))
      else login_fields kvs r)"

record create_request =
  cq_jenjang :: string
  cq_shortSession :: bool
  cq_accuracyMode :: bool
  cq_consent :: bool

fun create_fields :: "(string \<times> json) list \<Rightarrow> create_request \<Rightarrow> create_request option" where
  "create_fields [] r = Some r"
| "create_fields ((k, v) # kvs) r =
     (if key_is ''jenjang'' k then
        Option.bind (set_string v (cq_jenjang r)) (\<lambda>s. create_fields kvs (r\<lparr>cq_jenjang := s\<rparr>))
      else if key_is ''short_session'' k then
        Option.bind (set_bool v (cq_shortSession r)) (\<lambda>b. create_fields kvs (r\<lparr>cq_shortSession := b\<rparr>))
      else if key_is ''accuracy_mode'' k then
        Option.bind (set_bool v (cq_accuracyMode r)) (\<lambda>b. create_fields kvs (r\<lparr>cq_accuracyMode := b\<rparr>))
      else if key_is ''consent_confirmed'' k then
        Option.bind (set_bool v (cq_consent r)) (\<lambda>b. create_fields kvs (r\<lparr>cq_consent := b\<rparr>))
      else create_fields kvs r)"

record join_request =
  jq_nickname :: string
  jq_schoolID :: "int option"
  jq_jenjang :: string
  jq_avatar :: int
  jq_lang :: string

fun join_fields :: "(string \<times> json) list \<Rightarrow> join_request \<Rightarrow> join_request option" where
  "join_fields [] r = Some r"
| "join_fields ((k, v) # kvs) r =
     (if key_is ''nickname'' k then
        Option.bind (set_string v (jq_nickname r)) (\<lambda>s. join_fields kvs (r\<lparr>jq_nickname := s\<rparr>))
      else if key_is ''school_id'' k then
        (if v = JNull then join_fields kvs (r\<lparr>jq_schoolID := None\<rparr>)
         else Option.bind (set_int v 0) (\<lambda>n. join_fields kvs (r\<lparr>jq_schoolID := Some n\<rparr>)))
      else if key_is ''jenjang'' k then
        Option.bind (set_string v (jq_jenjang r)) (\<lambda>s. join_fields kvs (r\<lparr>jq_jenjang := s\<rparr>))
      else if key_is ''avatar'' k then
        Option.bind (set_int v (jq_avatar r)) (\<lambda>n. join_fields kvs (r\<lparr>jq_avatar := n\<rparr>))
      else if key_is ''lang'' k then
        Option.bind (set_string v (jq_lang r)) (\<lambda>s. join_fields kvs (r\<lparr>jq_lang := s\<rparr>))
      else join_fields kvs r)"

text \<open>\<open>decodeJSON\<close> into a struct that is zero at first; \<open>null\<close> leaves it so.\<close>

definition decodeJSON :: "((string \<times> json) list \<Rightarrow> 'r \<Rightarrow> 'r option) \<Rightarrow> 'r \<Rightarrow> request \<Rightarrow> 'r option" where
  "decodeJSON decode zero rq =
     (case rq_body rq of Some (JObj kvs) \<Rightarrow> decode kvs zero | Some JNull \<Rightarrow> Some zero | _ \<Rightarrow> None)"

definition zero_login :: login_request where "zero_login = \<lparr>lg_email = '''', lg_password = ''''\<rparr>"
definition zero_create :: create_request where
  "zero_create = \<lparr>cq_jenjang = '''', cq_shortSession = False, cq_accuracyMode = False, cq_consent = False\<rparr>"
definition zero_join :: join_request where
  "zero_join = \<lparr>jq_nickname = '''', jq_schoolID = None, jq_jenjang = '''', jq_avatar = 0, jq_lang = ''''\<rparr>"

subsection \<open>Who is calling\<close>

text \<open>\<open>net.SplitHostPort\<close>: the host, or \<open>None\<close> for an error.\<close>

fun last_index :: "char \<Rightarrow> string \<Rightarrow> nat option" where
  "last_index c [] = None"
| "last_index c (x # xs) =
     (case last_index c xs of Some i \<Rightarrow> Some (Suc i) | None \<Rightarrow> if x = c then Some 0 else None)"

fun first_index :: "char \<Rightarrow> string \<Rightarrow> nat option" where
  "first_index c [] = None"
| "first_index c (x # xs) = (if x = c then Some 0 else map_option Suc (first_index c xs))"

definition SplitHostPort :: "string \<Rightarrow> string option" where
  "SplitHostPort s =
     (case last_index (CHR '':'') s of
        None \<Rightarrow> None
      | Some i \<Rightarrow>
          if hd s = CHR ''['' then
            (case first_index (CHR '']'') s of
               None \<Rightarrow> None
             | Some e \<Rightarrow>
                 if e + 1 \<noteq> i then None
                 else if CHR ''['' \<in> set (drop 1 s) \<or> CHR '']'' \<in> set (drop (e + 1) s) then None
                 else Some (take (e - 1) (drop 1 s)))
          else if CHR '':'' \<in> set (take i s) then None
          else if CHR ''['' \<in> set s \<or> CHR '']'' \<in> set s then None
          else Some (take i s))"

text \<open>What follows the last comma.\<close>

fun last_part :: "string \<Rightarrow> string" where
  "last_part [] = []"
| "last_part (c # s) = (if comma \<in> set s then last_part s else if c = comma then s else c # s)"

definition clientIP :: "request \<Rightarrow> bool \<Rightarrow> string" where
  "clientIP rq trustProxy =
     (let ip = TrimSpace (last_part (rq_forwarded rq)) in
      if trustProxy \<and> ip \<noteq> '''' then ip
      else case SplitHostPort (rq_remote rq) of None \<Rightarrow> rq_remote rq | Some host \<Rightarrow> host)"

definition bearer :: string where "bearer = ''Bearer ''"

text \<open>The middleware around the endpoints of the host; the handler gets the id of the host.\<close>

definition requireHost :: "('b, 'z) api \<Rightarrow>
    (string \<Rightarrow> request \<Rightarrow> ('b, 'z) world \<Rightarrow> response \<times> ('b, 'z) world) \<Rightarrow>
    request \<Rightarrow> ('b, 'z) world \<Rightarrow> response \<times> ('b, 'z) world" where
  "requireHost a handler rq w =
     (if \<not> starts_with bearer (rq_authorization rq)
      then (writeError 401 ''UNAUTHORIZED'' ''missing bearer token'', w)
      else case Parse (a_jwt a) (a_secret a) (time_now a w) (drop (length bearer) (rq_authorization rq)) of
        None \<Rightarrow> (writeError 401 ''UNAUTHORIZED'' ''invalid or expired token'', w)
      | Some c \<Rightarrow>
          if cm_role c \<noteq> RoleHost then (writeError 401 ''UNAUTHORIZED'' ''invalid or expired token'', w)
          else handler (cm_subject c) rq w)"

subsection \<open>Logging in\<close>

definition passwordMatches :: "('b, 'z) api \<Rightarrow> string \<Rightarrow> string \<Rightarrow> bool" where
  "passwordMatches a hash password =
     (let known = (hash \<noteq> '''');
          matches = a_bcrypt a (if known then hash else a_dummyHash a) password
      in known \<and> matches)"

text \<open>\<open>strings.ToLower\<close> on ASCII letters; an address with others keeps their case.\<close>

definition normal_email :: "string \<Rightarrow> string" where
  "normal_email s = map ascii_lower (TrimSpace s)"

definition login :: "('b, 'z) api \<Rightarrow> request \<Rightarrow> ('b, 'z) world \<Rightarrow> response \<times> ('b, 'z) world" where
  "login a rq w =
     (case decodeJSON login_fields zero_login rq of
        None \<Rightarrow> (bad_json, w)
      | Some req \<Rightarrow>
     (let (res, w1) = store_call (HostByEmail (a_pg a) (normal_email (lg_email req))) w;
          hash = (case res of Inr h \<Rightarrow> hr_passwordHash h | Inl _ \<Rightarrow> '''');
          hostID = (case res of Inr h \<Rightarrow> hr_id h | Inl _ \<Rightarrow> '''')
      in if (case res of Inl e \<Rightarrow> \<not> isNotFound e | Inr _ \<Rightarrow> False) then (writeInternal, w1)
         else if \<not> passwordMatches a hash (lg_password req)
         then (writeError 401 ''UNAUTHORIZED'' ''invalid email or password'', w1)
         else case IssueHost (a_jwt a) (a_secret a) (time_now a w1) hostID of
           None \<Rightarrow> (writeInternal, w1)
         | Some token \<Rightarrow>
        (case store_call (TouchHostLogin (a_pg a) hostID) w1 of
           (Some e, w2) \<Rightarrow> (writeInternal, w2)
         | (None, w2) \<Rightarrow> ((200, BToken token), w2))))"

subsection \<open>Rooms\<close>

definition validJenjang :: "string list" where "validJenjang = [''SD'', ''SMP'', ''SMA'']"
definition validLang :: "string list" where "validLang = [''id'', ''en'']"

definition next_call :: "('b, 'z) world \<Rightarrow> ('b, 'z) world" where
  "next_call w = w\<lparr>w_calls := Suc (w_calls w)\<rparr>"

definition createRoom :: "('b, 'z) api \<Rightarrow> string \<Rightarrow> request \<Rightarrow> ('b, 'z) world \<Rightarrow> response \<times> ('b, 'z) world" where
  "createRoom a hostID rq w =
     (case decodeJSON create_fields zero_create rq of
        None \<Rightarrow> (bad_json, w)
      | Some req \<Rightarrow>
          if cq_jenjang req \<notin> set validJenjang then (writeInvalid ''jenjang must be SD, SMP or SMA'', w)
          else if \<not> cq_consent req then (writeInvalid ''consent_confirmed must be true'', w)
          else case store_call (QuestionPool (a_pg a)) w of
            (Inl _, w1) \<Rightarrow> (writeInternal, w1)
          | (Inr pool, w1) \<Rightarrow>
         (case SelectQuestions (a_rng a (w_calls w1)) (cq_jenjang req) (cq_shortSession req) pool of
            Inl _ \<Rightarrow> (writeInternal, next_call w1)
          | Inr ids \<Rightarrow>
         (case store_call (CreateRoom (a_pg a) (a_random a (w_calls w1))
                 \<lparr>nr_hostID = hostID, nr_jenjang = cq_jenjang req, nr_shortSession = cq_shortSession req,
                  nr_accuracyMode = cq_accuracyMode req, nr_questionIDs = ids\<rparr>) (next_call w1) of
            (Inl e, w2) \<Rightarrow> (if e = MaxRooms then writeError 409 ''MAX_ROOMS'' ''5 rooms are already active''
                           else writeInternal, w2)
          | (Inr room, w2) \<Rightarrow>
              ((201, BCreated (rd_id room) (rd_pin room) (a_publicBaseURL a @ ''/join?pin='' @ rd_pin room)), w2))))"

text \<open>The pattern \<open>^[0-9]{6}$\<close>.\<close>

definition pinPattern :: "string \<Rightarrow> bool" where
  "pinPattern s \<longleftrightarrow> length s = 6 \<and> list_all (\<lambda>c. 48 \<le> (of_char c :: nat) \<and> (of_char c :: nat) \<le> 57) s"

definition activeRoom :: "('b, 'z) api \<Rightarrow> request \<Rightarrow> ('b, 'z) world \<Rightarrow> (response + room_data) \<times> ('b, 'z) world" where
  "activeRoom a rq w =
     (if \<not> pinPattern (rq_path rq) then (Inl room_not_found, w)
      else case store_call (RoomByPIN (a_pg a) (rq_path rq)) w of
        (Inl e, w1) \<Rightarrow> (Inl (if isNotFound e then room_not_found else writeInternal), w1)
      | (Inr room, w1) \<Rightarrow> (Inr room, w1))"

definition getRoom :: "('b, 'z) api \<Rightarrow> request \<Rightarrow> ('b, 'z) world \<Rightarrow> response \<times> ('b, 'z) world" where
  "getRoom a rq w =
     (case activeRoom a rq w of
        (Inl r, w1) \<Rightarrow> (r, w1)
      | (Inr room, w1) \<Rightarrow>
     (case store_call (PlayerCount (a_pg a) (rd_id room)) w1 of
        (Inl _, w2) \<Rightarrow> (writeInternal, w2)
      | (Inr n, w2) \<Rightarrow>
          ((200, BRoomInfo (rd_status room) (MaxPlayersInRoom - n) (rd_jenjang room)), w2)))"

subsection \<open>Joining\<close>

definition maxNicknameRunes :: nat where "maxNicknameRunes = 20"
definition minAvatar :: int where "minAvatar = 1"
definition maxAvatar :: int where "maxAvatar = 12"

definition validateJoin :: "join_request \<Rightarrow> string" where
  "validateJoin r =
     (if jq_nickname r = '''' \<or> rune_count (jq_nickname r) > maxNicknameRunes
      then ''nickname must be 1-20 characters''
      else if has_control (jq_nickname r) then ''nickname contains invalid characters''
      else if jq_jenjang r \<notin> set validJenjang then ''jenjang must be SD, SMP or SMA''
      else if jq_avatar r < minAvatar \<or> jq_avatar r > maxAvatar then ''avatar must be between 1 and 12''
      else if jq_lang r \<notin> set validLang then ''lang must be id or en''
      else '''')"

definition handleJoinError :: "store_error \<Rightarrow> response" where
  "handleJoinError e =
     (if e = RoomFull then writeError 409 ''ROOM_FULL'' ''room already has 15 players''
      else if e = NicknameTaken then writeError 409 ''NICKNAME_TAKEN'' ''nickname is already used in this room''
      else if e = InvalidSchool then writeInvalid ''unknown school_id''
      else if isNotFound e then room_not_found
      else writeInternal)"

definition allowed_to_join :: "('b, 'z) api \<Rightarrow> request \<Rightarrow> ('b, 'z) world \<Rightarrow> bool \<times> ('b, 'z) world" where
  "allowed_to_join a rq w =
     (case a_limiter a of
        None \<Rightarrow> (True, w)
      | Some l \<Rightarrow> (let (ok, s) = Allow l (''join:'' @ clientIP rq (a_trustProxy a)) (w_limits w)
                  in (ok, w\<lparr>w_limits := s\<rparr>)))"

definition join_request_of :: "request \<Rightarrow> join_request option" where
  "join_request_of rq =
     map_option (\<lambda>r. r\<lparr>jq_nickname := TrimSpace (jq_nickname r)\<rparr>) (decodeJSON join_fields zero_join rq)"

definition new_player_of :: "join_request \<Rightarrow> uid \<Rightarrow> new_player" where
  "new_player_of req roomID = \<lparr>np_roomID = roomID, np_nickname = jq_nickname req, np_jenjang = jq_jenjang req,
     np_lang = jq_lang req, np_schoolID = jq_schoolID req, np_avatar = jq_avatar req\<rparr>"

definition joinRoom :: "('b, 'z) api \<Rightarrow> request \<Rightarrow> ('b, 'z) world \<Rightarrow> response \<times> ('b, 'z) world" where
  "joinRoom a rq w =
     (case allowed_to_join a rq w of
        (False, w0) \<Rightarrow> (writeError 429 ''RATE_LIMITED'' ''too many join attempts, try again in a minute'', w0)
      | (True, w0) \<Rightarrow>
     (case join_request_of rq of
        None \<Rightarrow> (bad_json, w0)
      | Some req \<Rightarrow>
          if validateJoin req \<noteq> '''' then (writeInvalid (validateJoin req), w0)
          else case activeRoom a rq w0 of
            (Inl r, w1) \<Rightarrow> (r, w1)
          | (Inr room, w1) \<Rightarrow>
         (case store_call (JoinRoom (a_pg a) (new_player_of req (rd_id room))) w1 of
            (Inl e, w2) \<Rightarrow> (handleJoinError e, w2)
          | (Inr player, w2) \<Rightarrow>
         (case Registry_AddPlayer (a_deps a) (rd_id room) player (w_server w2) of
            (Some e, sv) \<Rightarrow> (room_not_found, w2\<lparr>w_server := sv\<rparr>)
          | (None, sv) \<Rightarrow>
              (case IssuePlayer (a_jwt a) (a_secret a) (d_clock (a_deps a) (sv_tick sv)) (rd_id room) (pl_id player) of
                 None \<Rightarrow> (writeInternal, w2\<lparr>w_server := sv\<rparr>)
               | Some token \<Rightarrow> ((200, BPlayerToken token), w2\<lparr>w_server := sv\<rparr>))))))"

subsection \<open>Schools and results\<close>

definition searchSchools :: "('b, 'z) api \<Rightarrow> request \<Rightarrow> ('b, 'z) world \<Rightarrow> response \<times> ('b, 'z) world" where
  "searchSchools a rq w =
     (case store_call (SearchSchools (a_pg a) (rq_query rq)) w of
        (Inl _, w1) \<Rightarrow> (writeInternal, w1)
      | (Inr schools, w1) \<Rightarrow> ((200, BSchools schools), w1))"

text \<open>\<open>math.Round(avg * 100) / 100\<close> in float64.\<close>

definition rounded_avg :: "rat \<Rightarrow> rat" where
  "rounded_avg x = fl (math_Round (fl (x * 100)) / 100)"

definition schoolLeaderboard :: "('b, 'z) api \<Rightarrow> request \<Rightarrow> ('b, 'z) world \<Rightarrow> response \<times> ('b, 'z) world" where
  "schoolLeaderboard a rq w =
     (case store_call (SchoolLeaderboard (a_pg a)) w of
        (Inl _, w1) \<Rightarrow> (writeInternal, w1)
      | (Inr ranks, w1) \<Rightarrow>
          ((200, BRanks (map (\<lambda>s. (sk_school s, rounded_avg (sk_avgScore s), sk_playerCount s)) ranks)), w1))"

definition exportResults :: "('b, 'z) api \<Rightarrow> string \<Rightarrow> request \<Rightarrow> ('b, 'z) world \<Rightarrow> response \<times> ('b, 'z) world" where
  "exportResults a hostID rq w =
     (case store_call (RoomByID (a_pg a) (rq_path rq)) w of
        (Inl e, w1) \<Rightarrow> (if isNotFound e then writeError 404 ''ROOM_NOT_FOUND'' ''room not found'' else writeInternal, w1)
      | (Inr room, w1) \<Rightarrow>
          if rd_hostID room \<noteq> hostID then (writeError 403 ''FORBIDDEN'' ''this room belongs to another host'', w1)
          else case store_call (RoomResults (a_pg a) (rd_id room)) w1 of
            (Inl _, w2) \<Rightarrow> (writeInternal, w2)
          | (Inr rows, w2) \<Rightarrow>
              ((200, BCsv (''attachment; filename='' @ [CHR 0x22] @ ''hasil-'' @ rd_pin room @ ''.csv'' @ [CHR 0x22]) (writeResultsCSV rows)), w2))"

definition healthz :: response where
  "healthz = (200, BStatus ''ok'')"

definition test :: response where
  "test = (200, BMessage ''CI/CD auto-deploy is working'')"

end
