(* ===== verification/Endpoints.thy ===== *)
theory Endpoints
  imports Api
begin

section \<open>What the endpoints guarantee\<close>

text \<open>
  The handlers of \<open>Api\<close> composed with the store, the registry, the tokens and the CSV writer. The
  laws of the components give what a caller can rely on: who gets a token, whose room it is, where a
  player sits after joining, who may download what.
\<close>

abbreviation tables_of :: "('b, 'z) world \<Rightarrow> tables" where
  "tables_of w \<equiv> tabs (sv_store (w_server w))"

lemma store_call_result:
  assumes "store_call f w = (x, w')"
  obtains s where "f (sv_store (w_server w)) = (x, s)" "w' = w\<lparr>w_server := (w_server w)\<lparr>sv_store := s\<rparr>\<rparr>"
  using assms by (auto simp: store_call_def Let_def split: prod.splits)

lemma exec_read:
  assumes "exec pg s d = (Inr a, d')" "reads s"
  shows "s (server_now pg (trips d)) (tabs d) = Inr (a, tabs d) \<and> tabs d' = tabs d"
  using exec_result [OF assms(1)] assms(2) by (auto simp: reads_def)

lemma snd_exec_read: "reads s \<Longrightarrow> tabs (snd (exec pg s d)) = tabs d"
  by (auto simp: exec_def reads_def Let_def split: fault.split sum.split prod.split)

subsection \<open>Logging in\<close>

lemma HostByEmail_finds:
  assumes "HostByEmail pg email d = (Inr h, d')"
  shows "h \<in> set (tb_hosts (tabs d)) \<and> hr_email h = email"
proof -
  have "exec pg (GetHostByEmail email) d = (Inr h, d')"
    using assms by (auto simp: HostByEmail_def split: prod.splits sum.splits)
  then have "GetHostByEmail email (server_now pg (trips d)) (tabs d) = Inr (h, tabs d)"
    using exec_read [OF _ reading_statements(9)] by blast
  then show ?thesis by (auto simp: GetHostByEmail_def find_Some_iff split: option.splits)
qed

text \<open>
  C19. A token for a host is handed out only against that host's password: the e-mail of the request,
  trimmed and in lower case, is on record, bcrypt accepts the password for the stored hash, and the
  token speaks for that host and no other. Every other answer is an error.
\<close>

theorem login_needs_password:
  assumes "jwt_laws (a_jwt a)" "uuid_parse (a_pg a) '''' = None" "login a rq w = ((st, body), w')"
  shows "if st = 200
    then \<exists>req h token. decodeJSON login_fields zero_login rq = Some req \<and>
      h \<in> set (tb_hosts (tables_of w)) \<and> hr_email h = normal_email (lg_email req) \<and>
      a_bcrypt a (hr_passwordHash h) (lg_password req) \<and> body = BToken token \<and>
      speaks_for (a_jwt a) (a_secret a) token ((time_now a w + hostTokenTTL) div second * second)
        RoleHost '''' (hr_id h)
    else \<exists>code message. body = BError code message"
proof (cases "decodeJSON login_fields zero_login rq")
  case None
  then show ?thesis using assms(3) by (auto simp: login_def bad_json_def writeInvalid_def writeError_def)
next
  case (Some req)
  obtain res w1 where x: "store_call (HostByEmail (a_pg a) (normal_email (lg_email req))) w = (res, w1)" by fastforce
  note l = assms(3) [unfolded login_def Some option.case x Let_def split_beta fst_conv snd_conv]
  show ?thesis
  proof (cases res)
    case (Inl e)
    then show ?thesis
      using l by (auto simp: passwordMatches_def writeError_def writeInternal_def split: if_splits)
  next
    case (Inr h)
    have t: "time_now a w1 = time_now a w" using x by (auto simp: time_now_def elim!: store_call_result)
    have h: "h \<in> set (tb_hosts (tables_of w))" "hr_email h = normal_email (lg_email req)"
      using x Inr by (auto elim!: store_call_result dest: HostByEmail_finds)
    show ?thesis
    proof (cases "st = 200")
      case True
      obtain token where tok: "IssueHost (a_jwt a) (a_secret a) (time_now a w) (hr_id h) = Some token"
        and m: "passwordMatches a (hr_passwordHash h) (lg_password req)" and b: "body = BToken token"
        and id: "fst (store_call (TouchHostLogin (a_pg a) (hr_id h)) w1) = None"
        using l Inr True t by (auto simp: writeError_def writeInternal_def split: if_splits option.splits prod.splits)
      have "uuid_parse (a_pg a) (hr_id h) \<noteq> None"
        using id by (auto simp: store_call_def TouchHostLogin_def Let_def split: option.splits)
      then have "hr_id h \<noteq> ''''" using assms(2) by auto
      then have "speaks_for (a_jwt a) (a_secret a) token ((time_now a w + hostTokenTTL) div second * second)
          RoleHost '''' (hr_id h)"
        using sign_speaks [OF assms(1)] tok by (simp add: IssueHost_def)
      then show ?thesis using True Some h m b by (auto simp: passwordMatches_def Let_def split: if_splits)
    next
      case False
      then show ?thesis
        using l Inr by (auto simp: writeError_def writeInternal_def split: if_splits option.splits prod.splits)
    qed
  qed
qed

subsection \<open>The endpoints of the host\<close>

text \<open>The host whose valid token the request carries.\<close>

definition caller :: "('b, 'z) api \<Rightarrow> request \<Rightarrow> ('b, 'z) world \<Rightarrow> string option" where
  "caller a rq w =
     (if starts_with bearer (rq_authorization rq) then
        (case Parse (a_jwt a) (a_secret a) (time_now a w) (drop (length bearer) (rq_authorization rq)) of
           Some c \<Rightarrow> if cm_role c = RoleHost then Some (cm_subject c) else None
         | None \<Rightarrow> None)
      else None)"

lemma requireHost_caller:
  "(case caller a rq w of
      None \<Rightarrow> \<exists>message. requireHost a handler rq w = (writeError 401 ''UNAUTHORIZED'' message, w)
    | Some h \<Rightarrow> requireHost a handler rq w = handler h rq w)"
  by (auto simp: caller_def requireHost_def split: option.splits)

lemma QuestionPool_refs:
  assumes "QuestionPool pg d = (Inr pool, d')" "distinct (map qr_qid (tb_questions (tabs d)))"
  shows "distinct (map qr_id pool) \<and> tabs d' = tabs d \<and>
    set pool \<subseteq> (\<lambda>r. \<lparr>qr_id = qr_qid r, qr_site = qr_qsite r, qr_level = qr_qlevel r\<rparr>) ` set (filter qr_active (tb_questions (tabs d)))"
proof -
  obtain rows where x: "exec pg ListSelectableQuestions d = (Inr rows, d')"
    and p: "pool = map (\<lambda>r. \<lparr>qr_id = qr_qid r, qr_site = qr_qsite r, qr_level = qr_qlevel r\<rparr>) rows"
    using assms(1) by (auto simp: QuestionPool_def split: prod.splits sum.splits)
  have "rows = filter (\<lambda>q. qr_active q \<and> 1 \<le> qr_qsite q \<and> qr_qsite q \<le> 5) (tb_questions (tabs d))" "tabs d' = tabs d"
    using exec_read [OF x reading_statements(3)] by (auto simp: ListSelectableQuestions_def)
  then show ?thesis using assms(2) p by (auto simp: o_def distinct_map_filter)
qed


lemma RoomByID_finds:
  assumes "RoomByID pg i d = (Inr room, d')"
  obtains row where "uuid_parse pg i = Some (rr_id row)" "row \<in> set (tb_rooms (tabs d))"
    "room = roomFromRow row" "tabs d' = tabs d"
proof -
  obtain rid row where u: "uuid_parse pg i = Some rid" and x: "exec pg (GetRoomByID rid) d = (Inr row, d')"
    and r: "room = roomFromRow row"
    using assms by (auto simp: RoomByID_def split: option.splits prod.splits sum.splits)
  have "GetRoomByID rid (server_now pg (trips d)) (tabs d) = Inr (row, tabs d)" "tabs d' = tabs d"
    using exec_read [OF x reading_statements(7)] by simp_all
  then show ?thesis using that [of row] u r by (auto simp: GetRoomByID_def find_Some_iff split: option.splits)
qed


subsection \<open>Joining\<close>

lemma store_ops_reads:
  assumes "d_store d = store_ops pg"
  shows "honest_reads tabs d rid \<longleftrightarrow>
    (\<forall>s data s'. RoomByID pg rid s = (Inr data, s') \<longrightarrow> rd_id data = rid)"
proof -
  have "tabs (snd (RoomByID pg i s)) = tabs s" "tabs (snd (PlayersOfRoom pg i s)) = tabs s"
    "tabs (snd (QuestionsByIDs pg ids s)) = tabs s" for i ids s
    using snd_exec_cases_read(2,4) [of pg i s] snd_exec_cases_read(5) [of pg ids s]
    by (auto simp: snd_exec_read reading_statements)
  then show ?thesis using assms by (simp add: honest_reads_def store_ops_def)
qed

lemma RoomByID_itself: "uuid_parse pg rid = Some rid \<Longrightarrow> RoomByID pg rid s = (Inr data, s') \<Longrightarrow> rd_id data = rid"
  by (auto simp: roomFromRow_def elim!: RoomByID_finds)

lemma RoomByPIN_finds:
  assumes "RoomByPIN pg pin d = (Inr room, d')"
  obtains row where "row \<in> set (tb_rooms (tabs d))" "rr_pin row = pin" "rr_status row \<noteq> Ended"
    "room = roomFromRow row" "tabs d' = tabs d"
proof -
  obtain row where x: "exec pg (GetActiveRoomByPIN pin) d = (Inr row, d')" and r: "room = roomFromRow row"
    using assms by (auto simp: RoomByPIN_def split: prod.splits sum.splits)
  have "GetActiveRoomByPIN pin (server_now pg (trips d)) (tabs d) = Inr (row, tabs d)" "tabs d' = tabs d"
    using exec_read [OF x reading_statements(6)] by simp_all
  then show ?thesis using that [of row] r by (auto simp: GetActiveRoomByPIN_def find_Some_iff split: option.splits)
qed

lemma insertPlayer_id: "insertPlayer pg t rid i d = (Inr p, d') \<Longrightarrow> \<exists>n. pl_id p = gen_uuid pg n"
  by (auto simp: insertPlayer_def tx_exec_def dest!: InsertPlayer_id
      split: prod.splits sum.splits option.splits if_splits db_error.splits bool.splits)

lemma JoinRoom_id: "JoinRoom pg i d = (Inr p, d') \<Longrightarrow> \<exists>n. pl_id p = gen_uuid pg n"
  by (auto simp: JoinRoom_def dest: insertPlayer_id split: prod.splits sum.splits option.splits if_splits)

text \<open>
  The player has a seat in the instance \<open>h\<close> of the room. An instance that is leaving takes nobody
  any more: its game has ended.
\<close>

definition seated :: "nat \<Rightarrow> uid \<Rightarrow> uid \<Rightarrow> ('s, 'b) server \<Rightarrow> bool" where
  "seated h rid pid sv \<longleftrightarrow>
     (case sv_heap sv h of
        None \<Rightarrow> False
      | Some i \<Rightarrow> r_id (lr_room i) = rid \<and> (lr_leaving i \<or> player_of (lr_room i) pid \<noteq> None))"

lemma addPlayerAndNotify_seats:
  "player_of (addPlayerAndNotify p r) (pl_id p) \<noteq> None" "r_id (addPlayerAndNotify p r) = r_id r"
  "r_store (addPlayerAndNotify p r) = r_store r"
proof -
  have "player_of (r'\<lparr>r_order := os\<rparr>) = player_of r'" for r' :: "('a, 'b) room" and os
    by (simp add: player_of_def fun_eq_iff)
  then have "player_of (addPlayer p r) (pl_id p) \<noteq> None" "r_id (addPlayer p r) = r_id r"
    "r_store (addPlayer p r) = r_store r"
    by (simp_all add: addPlayer_def set_player_def split: option.split) (simp add: player_of_def)
  then show "player_of (addPlayerAndNotify p r) (pl_id p) \<noteq> None" "r_id (addPlayerAndNotify p r) = r_id r"
    "r_store (addPlayerAndNotify p r) = r_store r"
    by (simp_all add: addPlayerAndNotify_def Let_def send_def player_of_def split: option.split)
qed

lemma deliver_seats:
  assumes "profile sv h = Some (rid, False)"
  shows "seated h rid (pl_id p) (deliver d h (EvAddPlayer p) sv) \<and>
    sv_store (deliver d h (EvAddPlayer p) sv) = sv_store sv"
proof -
  obtain i where i: "sv_heap sv h = Some i" "r_id (lr_room i) = rid" using assms by (auto simp: profile_def)
  have p: "player_of (stopTimers r) = player_of r" "r_id (stopTimers r) = r_id r" "r_store (stopTimers r) = r_store r"
    for r :: "('a, 'b) room" by (simp_all add: stopTimers_def player_of_def fun_eq_iff)
  have l: "r_id (loaded sv (lr_room i)) = rid" "r_store (loaded sv (lr_room i)) = sv_store sv"
    using i(2) by (simp_all add: loaded_def)
  show ?thesis
    using i l addPlayerAndNotify_seats [of p "loaded sv (lr_room i)"]
    by (auto simp: deliver_def seated_def room_event_def put_room_def Let_def p)
qed

text \<open>The calls of a join that was answered with a token.\<close>

lemma joinRoom_accepts:
  assumes join: "joinRoom a rq w = ((200, BPlayerToken token), w')"
  obtains req room s1 p s2 where "join_request_of rq = Some req" "validateJoin req = ''''"
    "RoomByPIN (a_pg a) (rq_path rq) (sv_store (w_server w)) = (Inr room, s1)"
    "JoinRoom (a_pg a) (new_player_of req (rd_id room)) s1 = (Inr p, s2)"
    "Registry_AddPlayer (a_deps a) (rd_id room) p ((w_server w)\<lparr>sv_store := s2\<rparr>) = (None, w_server w')"
    "IssuePlayer (a_jwt a) (a_secret a) (time_now a w') (rd_id room) (pl_id p) = Some token"
proof -
  obtain w0 where al: "allowed_to_join a rq w = (True, w0)"
    using join by (auto simp: joinRoom_def writeError_def split: prod.splits bool.splits)
  then have w0: "w_server w0 = w_server w" by (auto simp: allowed_to_join_def Let_def split: option.splits prod.splits)
  obtain req where req: "join_request_of rq = Some req" "validateJoin req = ''''"
    using join al by (auto simp: joinRoom_def bad_json_def writeInvalid_def writeError_def split: option.splits if_splits)
  obtain room w1 where ar: "activeRoom a rq w0 = (Inr room, w1)"
    using join al req
    by (auto simp: joinRoom_def activeRoom_def room_not_found_def writeInternal_def writeError_def
        split: prod.splits sum.splits if_splits)
  obtain p w2 where jr: "store_call (JoinRoom (a_pg a) (new_player_of req (rd_id room))) w1 = (Inr p, w2)"
    using join al req ar
    by (auto simp: joinRoom_def handleJoinError_def room_not_found_def writeInvalid_def writeInternal_def writeError_def
        split: prod.splits sum.splits if_splits)
  obtain sv where rg: "Registry_AddPlayer (a_deps a) (rd_id room) p (w_server w2) = (None, sv)"
    and tk: "IssuePlayer (a_jwt a) (a_secret a) (d_clock (a_deps a) (sv_tick sv)) (rd_id room) (pl_id p) = Some token"
    and w': "w' = w2\<lparr>w_server := sv\<rparr>"
    using join al req ar jr
    by (auto simp: joinRoom_def room_not_found_def writeInternal_def writeError_def split: prod.splits option.splits)
  obtain s1 where s1: "RoomByPIN (a_pg a) (rq_path rq) (sv_store (w_server w)) = (Inr room, s1)"
    "w_server w1 = (w_server w)\<lparr>sv_store := s1\<rparr>"
    using ar w0 by (auto simp: activeRoom_def split: prod.splits sum.splits if_splits elim!: store_call_result)
  obtain s2 where "JoinRoom (a_pg a) (new_player_of req (rd_id room)) s1 = (Inr p, s2)"
    "w_server w2 = (w_server w)\<lparr>sv_store := s2\<rparr>"
    using jr s1(2) by (auto elim!: store_call_result)
  then show ?thesis using that req s1(1) rg tk w' by (simp add: time_now_def)
qed

text \<open>
  C4. A join that is answered with a token has its place everywhere: the room was found by its PIN
  and has not ended, there was a free place and the nickname was free; the database has one more
  player, with the trimmed nickname and no points; the room's one live instance has that player,
  unless its game has just ended; and the token speaks for that player in that room.
\<close>

theorem join_seats_player:
  fixes a :: "('b, 'z) api"
  assumes "jwt_laws (a_jwt a)" "d_store (a_deps a) = store_ops (a_pg a)" "registry_inv (w_server w)"
    and ids: "\<forall>n. gen_uuid (a_pg a) n \<noteq> ''''"
      "\<forall>r \<in> set (tb_rooms (tables_of w)). uuid_parse (a_pg a) (rr_id r) = Some (rr_id r)"
    and join: "joinRoom a rq w = ((200, BPlayerToken token), w')"
  shows "\<exists>req room player h. join_request_of rq = Some req \<and> validateJoin req = '''' \<and>
    room \<in> set (tb_rooms (tables_of w)) \<and> rr_pin room = rq_path rq \<and> rr_status room \<noteq> Ended \<and>
    count_players (rr_id room) (tables_of w) < MaxPlayersInRoom \<and>
    \<not> nickname_used (rr_id room) (jq_nickname req) (tables_of w) \<and>
    tb_players (tables_of w') = tb_players (tables_of w) @ [player] \<and>
    pr_roomID player = rr_id room \<and> pr_nickname player = jq_nickname req \<and>
    pr_score player = 0 \<and> pr_currentIndex player = 0 \<and>
    seated h (rr_id room) (pr_id player) (w_server w') \<and>
    speaks_for (a_jwt a) (a_secret a) token ((time_now a w' + playerTokenTTL) div second * second)
      RolePlayer (rr_id room) (pr_id player)"
proof -
  obtain req room s1 p s2 where req: "join_request_of rq = Some req" "validateJoin req = ''''"
    and find: "RoomByPIN (a_pg a) (rq_path rq) (sv_store (w_server w)) = (Inr room, s1)"
    and j: "JoinRoom (a_pg a) (new_player_of req (rd_id room)) s1 = (Inr p, s2)"
    and rg: "Registry_AddPlayer (a_deps a) (rd_id room) p ((w_server w)\<lparr>sv_store := s2\<rparr>) = (None, w_server w')"
    and tk: "IssuePlayer (a_jwt a) (a_secret a) (time_now a w') (rd_id room) (pl_id p) = Some token"
    by (rule joinRoom_accepts [OF join])
  let ?np = "new_player_of req (rd_id room)" and ?sv = "(w_server w)\<lparr>sv_store := s2\<rparr>"
  from find obtain row where row: "row \<in> set (tb_rooms (tables_of w))" "rr_pin row = rq_path rq"
      "rr_status row \<noteq> Ended" "room = roomFromRow row" "tabs s1 = tables_of w"
    by (rule RoomByPIN_finds)
  have rid: "rd_id room = rr_id row" using row(4) by (simp add: roomFromRow_def)
  have id: "uuid_parse (a_pg a) (np_roomID ?np) = Some (rr_id row)" "uuid_parse (a_pg a) (rr_id row) = Some (rr_id row)"
    using ids(2) row(1) rid by (simp_all add: new_player_of_def)
  have joined: "count_players (rr_id row) (tables_of w) < MaxPlayersInRoom"
      "\<not> nickname_used (rr_id row) (jq_nickname req) (tables_of w)"
    using JoinRoom_effect [OF id(1) j] row(5) by (simp_all add: new_player_of_def)
  obtain player where player: "tb_players (tabs s2) = tb_players (tables_of w) @ [player]" "pr_id player = pl_id p"
      "pr_roomID player = rr_id row" "pr_nickname player = jq_nickname req" "pr_score player = 0" "pr_currentIndex player = 0"
    using JoinRoom_effect [OF id(1) j] row(5) by (auto simp: new_player_of_def)
  have inv2: "registry_inv ?sv" using assms(3) by (simp add: registry_inv_profile)
  have reads: "honest_reads tabs (a_deps a) (rr_id row)"
    using store_ops_reads [OF assms(2)] RoomByID_itself [OF id(2)] by blast
  have rg': "Registry_AddPlayer (a_deps a) (rr_id row) p ?sv = (None, w_server w')" using rg rid by simp
  obtain h sv1 where h: "profile sv1 h = Some (rr_id row, False)" "tabs (sv_store sv1) = tabs (sv_store ?sv)"
       "w_server w' = deliver (a_deps a) h (EvAddPlayer p) sv1"
    by (rule Registry_AddPlayer_added [OF reads inv2 rg'])
  have seat: "seated h (rr_id row) (pl_id p) (w_server w')" "tabs (sv_store (w_server w')) = tabs s2"
    using deliver_seats [OF h(1), of p "a_deps a"] h(2,3) by simp_all
  have "pl_id p \<noteq> ''''" using JoinRoom_id [OF j] ids(1) by metis
  then have "speaks_for (a_jwt a) (a_secret a) token ((time_now a w' + playerTokenTTL) div second * second)
      RolePlayer (rr_id row) (pl_id p)"
    using sign_speaks [OF assms(1)] tk rid by (simp add: IssuePlayer_def)
  then show ?thesis
    using req row joined player seat by (intro exI [of _ req] exI [of _ row] exI [of _ player] exI [of _ h]) simp
qed

end
