(* ===== verification/Router.thy ===== *)
theory Router
  imports Endpoints "HOL-Library.Sublist"
begin

section \<open>Routing and CORS: NewRouter in http/api.go, cors in http/middleware.go\<close>

text \<open>
  The table of routes, what the mux does with a request (net/http: a GET route takes HEAD too, a path
  with other methods is a 405, an unknown one a 404), and the CORS layer around it. A path is
  given as its segments, cleaned and unescaped. The layers outside CORS, which log requests and recover
  from panics, are in \<open>Middleware\<close>. The WebSocket handler is a parameter, as it is in \<open>Deps\<close>.
\<close>

subsection \<open>The routes\<close>

type_synonym ('b, 'z) handler = "request \<Rightarrow> ('b, 'z) world \<Rightarrow> response \<times> ('b, 'z) world"

datatype segment = Lit string | Wild

text \<open>The value of the wildcard, empty where the pattern has none.\<close>

fun match_path :: "segment list \<Rightarrow> string list \<Rightarrow> string option" where
  "match_path [] [] = Some ''''"
| "match_path (Lit l # ps) (s # ss) = (if l = s then match_path ps ss else None)"
| "match_path (Wild # ps) (s # ss) = map_option (\<lambda>_. s) (match_path ps ss)"
| "match_path _ _ = None"

definition NewRouter :: "('b, 'z) api \<Rightarrow> ('b, 'z) handler option \<Rightarrow>
    (string \<times> segment list \<times> ('b, 'z) handler) list" where
  "NewRouter a websocket =
     [(''GET'', [Lit ''api'', Lit ''healthz''], \<lambda>rq w. (healthz, w)),
      (''GET'', [Lit ''api'', Lit ''test''], \<lambda>rq w. (test, w)),
      (''POST'', [Lit ''api'', Lit ''auth'', Lit ''login''], login a),
      (''POST'', [Lit ''api'', Lit ''rooms''], requireHost a (createRoom a)),
      (''GET'', [Lit ''api'', Lit ''rooms'', Wild], getRoom a),
      (''POST'', [Lit ''api'', Lit ''rooms'', Wild, Lit ''join''], joinRoom a),
      (''GET'', [Lit ''api'', Lit ''rooms'', Wild, Lit ''results.csv''], requireHost a (exportResults a)),
      (''GET'', [Lit ''api'', Lit ''schools''], searchSchools a),
      (''GET'', [Lit ''api'', Lit ''leaderboard'', Lit ''schools''], schoolLeaderboard a)] @
     (case websocket of None \<Rightarrow> [] | Some h \<Rightarrow> [(''GET'', [Lit ''ws''], h)])"

definition method_fits :: "string \<Rightarrow> string \<Rightarrow> bool" where
  "method_fits m method \<longleftrightarrow> m = method \<or> m = ''GET'' \<and> method = ''HEAD''"

fun serve :: "(string \<times> segment list \<times> ('b, 'z) handler) list \<Rightarrow> bool \<Rightarrow> string \<Rightarrow> string list \<Rightarrow> ('b, 'z) handler" where
  "serve [] known method path rq w = ((if known then 405 else 404, BNone), w)"
| "serve ((m, p, h) # routes) known method path rq w =
     (case match_path p path of
        None \<Rightarrow> serve routes known method path rq w
      | Some v \<Rightarrow>
          if method_fits m method then h (rq\<lparr>rq_path := v\<rparr>) w
          else serve routes True method path rq w)"

text \<open>The result of \<open>cors\<close>: the headers it adds, and what the rest of the server answers.\<close>

definition cors :: "string list \<Rightarrow> ('b, 'z) handler \<Rightarrow> string \<Rightarrow> string \<Rightarrow> request \<Rightarrow> ('b, 'z) world \<Rightarrow>
    (string \<times> string) list \<times> response \<times> ('b, 'z) world" where
  "cors allowedOrigins next_handler origin method rq w =
     (if origin \<in> set allowedOrigins
      then [(''Access-Control-Allow-Origin'', origin), (''Vary'', ''Origin''),
            (''Access-Control-Allow-Methods'', ''GET, POST, OPTIONS''),
            (''Access-Control-Allow-Headers'', ''Authorization, Content-Type'')] else [],
      if method = ''OPTIONS'' then ((204, BNone), w) else next_handler rq w)"

definition rest :: "('b, 'z) api \<Rightarrow> ('b, 'z) handler option \<Rightarrow> string list \<Rightarrow> string \<Rightarrow> string \<Rightarrow> string list \<Rightarrow>
    request \<Rightarrow> ('b, 'z) world \<Rightarrow> (string \<times> string) list \<times> response \<times> ('b, 'z) world" where
  "rest a websocket allowedOrigins origin method path rq w =
     cors allowedOrigins (serve (NewRouter a websocket) False method path) origin method rq w"

subsection \<open>What a guest can do\<close>

text \<open>
  \<open>guest t t'\<close>: the step from \<open>t\<close> to \<open>t'\<close> only appends players, ends rooms and notes logins; no
  room, answer, question or school is added, and no host, password or question set is changed.
\<close>

definition room_key :: "room_row \<Rightarrow> uid \<times> string \<times> uid \<times> string list" where
  "room_key r = (rr_id r, rr_pin r, rr_hostID r, rr_questionIDs r)"

definition host_key :: "host_row \<Rightarrow> uid \<times> string \<times> string \<times> string" where
  "host_key h = (hr_id h, hr_email h, hr_passwordHash h, hr_name h)"

definition guest :: "tables \<Rightarrow> tables \<Rightarrow> bool" where
  "guest t t' \<longleftrightarrow> prefix (tb_players t) (tb_players t') \<and> tb_answers t' = tb_answers t \<and>
     tb_questions t' = tb_questions t \<and> tb_schools t' = tb_schools t \<and>
     map host_key (tb_hosts t') = map host_key (tb_hosts t) \<and>
     list_all2 (\<lambda>r r'. room_key r' = room_key r \<and> rr_status r' \<in> {rr_status r, Ended}) (tb_rooms t) (tb_rooms t')"

lemma guest_refl [simp]: "guest t t"
  by (simp add: guest_def list.rel_refl)

lemma guest_trans [trans]: "guest t t' \<Longrightarrow> guest t' t'' \<Longrightarrow> guest t t''"
  unfolding guest_def
  by (auto intro: prefix_order.trans list_all2_trans [rotated 1])

definition guests :: "(db \<Rightarrow> 'a \<times> db) \<Rightarrow> bool" where
  "guests f \<longleftrightarrow> (\<forall>d. guest (tabs d) (tabs (snd (f d))))"

lemma store_call_guest:
  assumes "store_call f w = (x, w')" "guests f"
  shows "guest (tables_of w) (tables_of w')"
proof -
  obtain s where "f (sv_store (w_server w)) = (x, s)" "w' = w\<lparr>w_server := (w_server w)\<lparr>sv_store := s\<rparr>\<rparr>"
    using assms(1) by (rule store_call_result)
  then show ?thesis using assms(2) by (auto simp: guests_def dest: spec [of _ "sv_store (w_server w)"])
qed

lemma reads_same:
  "tabs (snd (HostByEmail pg e d)) = tabs d" "tabs (snd (PlayerCount pg i d)) = tabs d"
  "tabs (snd (RoomByPIN pg i d)) = tabs d" "tabs (snd (RoomByID pg i d)) = tabs d"
  "tabs (snd (PlayersOfRoom pg i d)) = tabs d" "tabs (snd (QuestionsByIDs pg ids d)) = tabs d"
  "tabs (snd (SearchSchools pg q d)) = tabs d" "tabs (snd (SchoolLeaderboard pg d)) = tabs d"
proof -
  show "tabs (snd (HostByEmail pg e d)) = tabs d" "tabs (snd (PlayerCount pg i d)) = tabs d"
    "tabs (snd (RoomByPIN pg i d)) = tabs d" "tabs (snd (RoomByID pg i d)) = tabs d"
    "tabs (snd (PlayersOfRoom pg i d)) = tabs d" "tabs (snd (QuestionsByIDs pg ids d)) = tabs d"
    using snd_exec_cases_read(1-4) [of pg i d] snd_exec_cases_read(5) [of pg ids d] snd_exec_cases_read(7) [of pg e d]
    by (auto simp: snd_exec_read reading_statements)
  have l: "reads (SearchSchoolsRows x ys)" "reads (ListSchoolsByName ys)" "reads (GetSchoolLeaderboard ys)" for x ys
    by (auto simp: reads_def SearchSchoolsRows_def ListSchoolsByName_def GetSchoolLeaderboard_def Let_def)
  have e: "tabs d2 = tabs d1" if "exec pg st d1 = (r, d2)" "reads st" for st d1 r d2
    using snd_exec_read [OF that(2), of pg d1] that(1) by simp
  show "tabs (snd (SearchSchools pg q d)) = tabs d" "tabs (snd (SchoolLeaderboard pg d)) = tabs d"
    by (auto simp: SearchSchools_def SchoolLeaderboard_def dest!: e [OF _ l(1)] e [OF _ l(2)] e [OF _ l(3)]
        split: prod.split sum.split)
qed

lemma guests_reads [simp]:
  "guests (HostByEmail pg e)" "guests (PlayerCount pg i)" "guests (RoomByPIN pg i)"
  "guests (SearchSchools pg q)" "guests (SchoolLeaderboard pg)"
  by (simp_all add: guests_def reads_same)

lemma guest_exec:
  assumes "\<And>now t a t'. s now t = Inr (a, t') \<Longrightarrow> guest t t'"
  shows "guest (tabs d) (tabs (snd (exec pg s d)))"
  using assms by (auto simp: exec_def Let_def split: fault.split sum.split prod.split)

lemma guests_TouchHostLogin [simp]: "guests (TouchHostLogin pg i)"
proof -
  have "guest t (t\<lparr>tb_hosts := map (\<lambda>h. if hr_id h = hid then h\<lparr>hr_lastLoginAt := Some now\<rparr> else h) (tb_hosts t)\<rparr>)"
    for t hid now by (auto simp: guest_def host_key_def o_def list.rel_refl)
  then have "guest (tabs d) (tabs (snd (exec pg (TouchHostLoginRow hid) d)))" for d hid
    by (intro guest_exec) (auto simp: TouchHostLoginRow_def)
  then have "guest (tabs d) (tabs (snd (TouchHostLogin pg i d)))" for d using snd_exec_cases(4) [of pg i d] by auto
  then show ?thesis by (simp add: guests_def)
qed

lemma guests_MarkRoomEnded: "guests (MarkRoomEnded pg i)"
proof -
  have "guest t (t\<lparr>tb_rooms := map (\<lambda>r. if rr_id r = rid \<and> rr_status r \<noteq> Ended
        then r\<lparr>rr_status := Ended, rr_endedAt := Some now\<rparr> else r) (tb_rooms t)\<rparr>)" for t rid now
    by (auto simp: guest_def room_key_def list_all2_map2 intro!: list.rel_refl_strong)
  then have "guest (tabs d) (tabs (snd (exec pg (MarkRoomEndedRow rid) d)))" for d rid
    by (intro guest_exec) (auto simp: MarkRoomEndedRow_def)
  then have "guest (tabs d) (tabs (snd (MarkRoomEnded pg i d)))" for d using snd_exec_cases(3) [of pg i d] by auto
  then show ?thesis by (simp add: guests_def)
qed

lemma guests_JoinRoom [simp]: "guests (JoinRoom pg i)"
proof -
  have "guest (tabs d) (tabs (snd (JoinRoom pg i d)))" for d
  proof (cases "uuid_parse pg (np_roomID i)")
    case (Some rid)
    have "guest (tabs d) t'" if "joins rid i (tabs d) pid t'" for pid t'
      using that by (auto simp: joins_def InsertPlayer_def guest_def list.rel_refl split: if_splits)
    then show ?thesis
      using JoinRoom_outcome [OF Some, of d] by (auto simp: join_outcome_def split: sum.splits)
  qed (simp add: JoinRoom_def)
  then show ?thesis by (simp add: guests_def)
qed

lemma guest_get_step:
  assumes "d_store d = store_ops pg" "get_step d g sv = (g', sv')"
  shows "guest (tabs (sv_store sv)) (tabs (sv_store sv'))"
proof -
  note ops = store_ops_calls [OF assms(1)]
  have r: "tabs s' = tabs s" if "RoomByID pg i s = (x, s')" for i s x s' using reads_same(4) [of pg i s] that by simp
  have p: "tabs s' = tabs s" if "PlayersOfRoom pg i s = (x, s')" for i s x s' using reads_same(5) [of pg i s] that by simp
  have q: "tabs s' = tabs s" if "QuestionsByIDs pg i s = (x, s')" for i s x s' using reads_same(6) [of pg i s] that by simp
  have m: "guest (tabs s) (tabs s')" if "MarkRoomEnded pg i s = (x, s')" for i s x s'
    using guests_MarkRoomEnded [of pg i] that by (auto simp: guests_def dest: spec [of _ s])
  show ?thesis
    using assms(2)
    by (cases g) (auto simp: ops Let_def dest!: r p q dest: m spawn_store split: prod.splits sum.splits option.splits if_splits)
qed

lemma guest_Get:
  assumes "d_store d = store_ops pg" "Get d rid sv = (g, sv')"
  shows "guest (tabs (sv_store sv)) (tabs (sv_store sv'))"
proof -
  have "guest (tabs (sv_store sv)) (tabs (sv_store (snd (((\<lambda>(g, sv). get_step d g sv) ^^ n) (GetLookup rid, sv)))))" for n
  proof (induction n)
    case (Suc n)
    obtain g1 sv1 where x: "((\<lambda>(g, sv). get_step d g sv) ^^ n) (GetLookup rid, sv) = (g1, sv1)" by fastforce
    obtain g2 sv2 where y: "get_step d g1 sv1 = (g2, sv2)" by fastforce
    show ?case using Suc guest_get_step [OF assms(1) y] x y by (auto intro: guest_trans)
  qed simp
  from this [of 5] show ?thesis using assms(2) by (simp add: Get_def)
qed

lemma deliver_AddPlayer_store: "sv_store (deliver d h (EvAddPlayer p) sv) = sv_store sv"
proof -
  have "r_store (stopTimers r) = r_store r" for r :: "('a, 'b) room" by (simp add: stopTimers_def)
  then show ?thesis
    by (simp add: deliver_def room_event_def put_room_def Let_def addPlayerAndNotify_seats loaded_def split: option.split)
qed

lemma guest_AddPlayer:
  assumes "d_store d = store_ops pg" "Registry_AddPlayer d rid p sv = (e, sv')"
  shows "guest (tabs (sv_store sv)) (tabs (sv_store sv'))"
proof -
  obtain g sv1 where x: "Get d rid sv = (g, sv1)" by fastforce
  have "sv_store sv' = sv_store sv1"
    using assms(2) x deliver_AddPlayer_store
    by (auto simp: Registry_AddPlayer_def split: getting.splits sum.splits) 
  then show ?thesis using guest_Get [OF assms(1) x] by simp
qed

fun for_hosts :: "body \<Rightarrow> bool" where
  "for_hosts (BCreated _ _ _) = True"
| "for_hosts (BCsv _ _) = True"
| "for_hosts _ = False"

definition harmless :: "('b, 'z) world \<Rightarrow> response \<times> ('b, 'z) world \<Rightarrow> bool" where
  "harmless w x \<longleftrightarrow> guest (tables_of w) (tables_of (snd x)) \<and> \<not> for_hosts (snd (fst x))"

lemma harmless_error [simp]:
  "harmless w (writeError st code message, w') = guest (tables_of w) (tables_of w')"
  "harmless w (writeInvalid message, w') = guest (tables_of w) (tables_of w')"
  "harmless w (writeInternal, w') = guest (tables_of w) (tables_of w')"
  "harmless w (bad_json, w') = guest (tables_of w) (tables_of w')"
  "harmless w (room_not_found, w') = guest (tables_of w) (tables_of w')"
  "\<not> for_hosts b \<Longrightarrow> harmless w ((st, b), w') = guest (tables_of w) (tables_of w')"
  by (simp_all add: harmless_def writeError_def writeInvalid_def writeInternal_def bad_json_def room_not_found_def)

lemma harmless_login: "harmless w (login a rq w)"
proof (cases "decodeJSON login_fields zero_login rq")
  case (Some req)
  obtain res w1 where x: "store_call (HostByEmail (a_pg a) (normal_email (lg_email req))) w = (res, w1)" by fastforce
  have g: "guest (tables_of w) (tables_of w1)" using store_call_guest [OF x] by simp
  have t: "guest (tables_of w) (tables_of w2)" if "store_call (TouchHostLogin (a_pg a) h) w1 = (e, w2)" for e w2 h
    using guest_trans [OF g store_call_guest [OF that]] by simp
  show ?thesis
    using g t by (simp add: login_def Some x Let_def split: option.split prod.split sum.split)
qed (simp add: login_def)

lemma activeRoom_guest: "activeRoom a rq w = (x, w') \<Longrightarrow> guest (tables_of w) (tables_of w')"
  by (auto simp: activeRoom_def dest: store_call_guest split: if_splits prod.splits sum.splits)

lemma activeRoom_error: "activeRoom a rq w = (Inl r, w') \<Longrightarrow> r \<in> {room_not_found, writeInternal}"
  by (auto simp: activeRoom_def split: if_splits prod.splits sum.splits)

lemma harmless_getRoom: "harmless w (getRoom a rq w)"
proof -
  obtain x w1 where x: "activeRoom a rq w = (x, w1)" by fastforce
  have g: "guest (tables_of w) (tables_of w1)" using activeRoom_guest [OF x] .
  have t: "guest (tables_of w) (tables_of w2)" if "store_call (PlayerCount (a_pg a) i) w1 = (n, w2)" for i n w2
    using guest_trans [OF g store_call_guest [OF that]] by simp
  show ?thesis
  proof (cases x)
    case (Inl r)
    then show ?thesis using g activeRoom_error [of a rq w r w1] x by (auto simp: getRoom_def)
  next
    case (Inr room)
    then show ?thesis using x t by (simp add: getRoom_def split: prod.split sum.split)
  qed
qed

lemma harmless_joinRoom:
  assumes "d_store (a_deps a) = store_ops (a_pg a)"
  shows "harmless w (joinRoom a rq w)"
proof -
  obtain ok w0 where al: "allowed_to_join a rq w = (ok, w0)" by fastforce
  then have w0: "tables_of w0 = tables_of w" by (auto simp: allowed_to_join_def Let_def split: option.splits prod.splits)
  obtain x w1 where ar: "activeRoom a rq w0 = (x, w1)" by fastforce
  have g1: "guest (tables_of w) (tables_of w1)" using activeRoom_guest [OF ar] w0 by simp
  have e: "harmless w (r, w1)" if "x = Inl r" for r
    using activeRoom_error ar that g1 by fastforce
  have g2: "guest (tables_of w) (tables_of w2)" if "store_call (JoinRoom (a_pg a) i) w1 = (p, w2)" for i p w2
    using guest_trans [OF g1 store_call_guest [OF that]] by simp
  have g3: "guest (tables_of w) (tabs (sv_store sv))"
    if "store_call (JoinRoom (a_pg a) i) w1 = (p, w2)" "Registry_AddPlayer (a_deps a) j q (w_server w2) = (y, sv)" for i p w2 j q y sv
    using guest_trans [OF g2 [OF that(1)] guest_AddPlayer [OF assms that(2)]] .
  have h: "harmless w (handleJoinError er, w2)" if "guest (tables_of w) (tables_of w2)" for er w2
    using that by (simp add: handleJoinError_def)
  show ?thesis
    using w0 e g2 g3 h
    by (auto simp: joinRoom_def al ar split: bool.split option.split prod.split sum.split)
qed

lemma harmless_reads: "harmless w (searchSchools a rq w)" "harmless w (schoolLeaderboard a rq w)"
  by (auto simp: searchSchools_def schoolLeaderboard_def dest!: store_call_guest split: prod.split sum.split)


subsection \<open>The shape of the answers\<close>

text \<open>
  What a client may expect: a page with status 200 (201 for a new room), an error with a code that
  goes with its status, or no body where there is no such route or only the CORS answer.
\<close>

definition error_codes :: "(nat \<times> string) list" where
  "error_codes = [(400, ''INVALID_REQUEST''), (401, ''UNAUTHORIZED''), (403, ''FORBIDDEN''), (404, ''ROOM_NOT_FOUND''),
     (409, ''ROOM_FULL''), (409, ''NICKNAME_TAKEN''), (409, ''MAX_ROOMS''), (429, ''RATE_LIMITED''), (500, ''INTERNAL'')]"

fun fits :: "response \<Rightarrow> bool" where
  "fits (st, BError code message) = ((st, code) \<in> set error_codes)"
| "fits (st, BCreated _ _ _) = (st = 201)"
| "fits (st, BRoomInfo status n _) = (st = 200 \<and> status \<noteq> Ended \<and> n \<le> MaxPlayersInRoom)"
| "fits (st, BNone) = (st \<in> {204, 404, 405})"
| "fits (st, _) = (st = 200)"

lemma fits_errors [simp]:
  "fits writeInternal" "fits bad_json" "fits room_not_found" "fits (writeInvalid message)"
  "fits (writeError st code message) = ((st, code) \<in> set error_codes)" "fits (handleJoinError e)"
  by (simp_all add: writeInternal_def bad_json_def room_not_found_def writeInvalid_def writeError_def
      handleJoinError_def error_codes_def)

lemma activeRoom_fits:
  "activeRoom a rq w = (Inl r, w') \<Longrightarrow> fits r" "activeRoom a rq w = (Inr room, w') \<Longrightarrow> rd_status room \<noteq> Ended"
  by (auto simp: activeRoom_def roomFromRow_def elim!: store_call_result RoomByPIN_finds
      split: if_splits prod.splits sum.splits)

lemma fits_handlers:
  "fits (fst (login a rq w))" "fits (fst (createRoom a h rq w))" "fits (fst (searchSchools a rq w))"
  "fits (fst (schoolLeaderboard a rq w))" "fits (fst (exportResults a h rq w))"
  by (auto simp: login_def createRoom_def searchSchools_def schoolLeaderboard_def exportResults_def error_codes_def Let_def
      split: option.split prod.split sum.split)

lemma fits_getRoom: "fits (fst (getRoom a rq w))"
  using activeRoom_fits by (fastforce simp: getRoom_def split: prod.split sum.split)

lemma fits_joinRoom: "fits (fst (joinRoom a rq w))"
  using activeRoom_fits(1)
  by (fastforce simp: joinRoom_def error_codes_def split: bool.split prod.split sum.split option.split)

lemma fits_requireHost: "(\<And>h rq w. fits (fst (handler h rq w))) \<Longrightarrow> fits (fst (requireHost a handler rq w))"
  by (simp add: requireHost_def error_codes_def split: option.split)

lemma serve_fits:
  "\<forall>(m, p, h) \<in> set routes. match_path p path \<noteq> None \<longrightarrow> (\<forall>rq w. fits (fst (h rq w))) \<Longrightarrow>
   fits (fst (serve routes known method path rq w))"
  by (induction routes arbitrary: known) (auto split: option.split)

lemma rest_fits:
  assumes "path \<noteq> [''ws'']" "rest a websocket allowedOrigins origin method path rq w = (headers, r, w')"
  shows "fits r"
proof -
  have "match_path [Lit ''ws''] path = None" using assms(1) by (cases path; cases "tl path") auto
  then have "fits (fst (serve (NewRouter a websocket) False method path rq w))"
    by (intro serve_fits)
      (auto simp: NewRouter_def healthz_def test_def fits_handlers fits_getRoom fits_joinRoom fits_requireHost
        split: option.splits)
  then show ?thesis using assms(2) by (auto simp: rest_def cors_def split: if_splits)
qed


end
