(* ===== verification/Connect.thy ===== *)
theory Connect
  imports Ws Endpoints
begin

section \<open>Opening a connection: api/internal/ws/handler.go\<close>

text \<open>
  The handler of \<open>/ws\<close>: a token is checked, the room looked up in the registry, the connection
  upgraded and attached to the room as a sink; then the read loop passes what the peer sends on to
  the room. A sink is a number, the pointer to the client in Go.

  Parameters: the JWT library, and whether gorilla's \<open>Upgrade\<close> finds a proper handshake.
\<close>

subsection \<open>Who may open one\<close>

text \<open>\<open>strings.EqualFold\<close>, for ASCII letters (an origin of a browser has no others).\<close>

definition EqualFold :: "string \<Rightarrow> string \<Rightarrow> bool" where
  "EqualFold s t \<longleftrightarrow> map ascii_lower s = map ascii_lower t"

definition CheckOrigin :: "bool \<Rightarrow> string list \<Rightarrow> string \<Rightarrow> bool" where
  "CheckOrigin allowAnyOrigin allowedOrigins origin \<longleftrightarrow>
     allowAnyOrigin \<or> origin = '''' \<or> list_ex (\<lambda>allowed. EqualFold allowed origin) allowedOrigins"

record handshake =
  hs_token :: string
  hs_room :: string
  hs_origin :: string
  hs_proper :: bool

record ws_config =
  wc_jwt :: jwt_lib
  wc_secret :: string
  wc_anyOrigin :: bool
  wc_origins :: "string list"

definition Upgrade :: "ws_config \<Rightarrow> handshake \<Rightarrow> bool" where
  "Upgrade cfg hs \<longleftrightarrow> CheckOrigin (wc_anyOrigin cfg) (wc_origins cfg) (hs_origin hs) \<and> hs_proper hs"

subsection \<open>Calling the room\<close>

text \<open>An event whose caller waits for the answer (\<open>Room.call\<close>).\<close>

definition call_room :: "('s, 'b) deps \<Rightarrow> nat \<Rightarrow> event \<Rightarrow> (('s, 'b) room \<Rightarrow> attach_error option) \<Rightarrow>
    ('s, 'b) server \<Rightarrow> call_error option \<times> ('s, 'b) server" where
  "call_room d h ev answer_of sv =
     (case sv_heap sv h of
        None \<Rightarrow> (Some RoomClosed, sv)
      | Some i \<Rightarrow>
          if lr_leaving i then (Some RoomClosed, sv)
          else (map_option Rejected (answer_of (loaded sv (lr_room i))), room_event d h ev (lr_room i) sv))"

definition attach :: "('s, 'b) deps \<Rightarrow> nat \<Rightarrow> claims \<Rightarrow> sink \<Rightarrow> ('s, 'b) server \<Rightarrow>
    call_error option \<times> ('s, 'b) server" where
  "attach d h c s sv =
     (if cm_role c = RoleHost
      then call_room d h (EvAttachHost (cm_subject c) s) (\<lambda>r. fst (attachHost (cm_subject c) s r)) sv
      else call_room d h (EvAttachPlayer (cm_subject c) s) (\<lambda>r. fst (attachPlayer d (cm_subject c) s r)) sv)"

subsection \<open>The handler\<close>

text \<open>A player's token names the room, a host says which one.\<close>

definition asked_room :: "handshake \<Rightarrow> claims \<Rightarrow> string" where
  "asked_room hs c = (if cm_role c = RoleHost then hs_room hs else cm_roomID c)"

datatype connection =
    Refused nat string string
  | NotUpgraded
  | ClosedUnauthorized
  | Connected nat claims client

definition rejectRoomError :: "get_error \<Rightarrow> connection" where
  "rejectRoomError e =
     (if e = StoreError NotFound then Refused 404 ''ROOM_NOT_FOUND'' ''room not found or already ended''
      else Refused 500 ''INTERNAL'' ''internal error'')"

definition ServeHTTP :: "ws_config \<Rightarrow> ('s, 'b) deps \<Rightarrow> handshake \<Rightarrow> sink \<Rightarrow> ('s, 'b) server \<Rightarrow>
    connection \<times> ('s, 'b) server" where
  "ServeHTTP cfg d hs s sv =
     (case Parse (wc_jwt cfg) (wc_secret cfg) (d_clock d (sv_tick sv)) (hs_token hs) of
        None \<Rightarrow> (Refused 401 ''UNAUTHORIZED'' ''invalid or expired token'', sv)
      | Some c \<Rightarrow>
          case Get d (asked_room hs c) sv of
            (Got (Inl e), sv1) \<Rightarrow> (rejectRoomError e, sv1)
          | (Got (Inr h), sv1) \<Rightarrow>
              if \<not> Upgrade cfg hs then (NotUpgraded, sv1)
              else (case attach d h c s sv1 of
                      (Some e, sv2) \<Rightarrow> (ClosedUnauthorized, sv2)
                    | (None, sv2) \<Rightarrow> (Connected h c (newClient (cm_role c)), sv2))
          | (_, sv1) \<Rightarrow> (NotUpgraded, sv1))"

text \<open>One turn of \<open>readPump\<close> with a frame of the peer, and its end.\<close>

definition read_frame :: "('s, 'b) deps \<Rightarrow> nat \<Rightarrow> uid \<Rightarrow> json option \<Rightarrow> client \<times> ('s, 'b) server \<Rightarrow>
    client \<times> ('s, 'b) server" where
  "read_frame d h clientID data cs =
     (case dispatch (c_role (fst cs)) clientID data of
        Ignored \<Rightarrow> cs
      | Reply m \<Rightarrow> (Client_Send m (fst cs), snd cs)
      | Act ev \<Rightarrow> (fst cs, deliver d h ev (snd cs)))"

definition read_ends :: "('s, 'b) deps \<Rightarrow> nat \<Rightarrow> sink \<Rightarrow> client \<times> ('s, 'b) server \<Rightarrow> client \<times> ('s, 'b) server" where
  "read_ends d h s cs = (Client_Close (fst cs), deliver d h (EvDetach s) (snd cs))"

subsection \<open>Who is connected\<close>

text \<open>The sink is the connection of this host, or of this player, in the room.\<close>

definition attached_as :: "claims \<Rightarrow> sink \<Rightarrow> ('s, 'b) room \<Rightarrow> bool" where
  "attached_as c s r \<longleftrightarrow>
     (if cm_role c = RoleHost then r_hostID r = cm_subject c \<and> r_host r = Some s
      else (case player_of r (cm_subject c) of None \<Rightarrow> False | Some p \<Rightarrow> ps_sink p = Some s))"

lemma attachHost_attaches:
  assumes "fst (attachHost hid s r) = None"
  shows "r_hostID r = hid \<and> r_hostID (snd (attachHost hid s r)) = hid \<and> r_host (snd (attachHost hid s r)) = Some s"
  using assms by (auto simp: attachHost_def send_def close_def Let_def split: if_splits option.splits)

lemma attachPlayer_attaches:
  assumes "fst (attachPlayer d pid s r) = None"
  shows "player_of r pid \<noteq> None \<and>
    (r_status (snd (attachPlayer d pid s r)) = Ended \<or>
     (\<exists>p. player_of (snd (attachPlayer d pid s r)) pid = Some p \<and> ps_sink p = Some s))"
proof (cases "player_of r pid")
  case (Some p)
  let ?r1 = "case ps_sink p of None \<Rightarrow> r | Some old \<Rightarrow> set_player pid (p\<lparr>ps_sink := None\<rparr>) (close old r)"
  obtain free r2 where x: "settleExpired d pid (player_at ?r1 pid) ?r1 = (free, r2)" by fastforce
  have q: "quiet d a (resumeActive d p' (send s m a))" for p' m and a :: "('a, 'b) room"
    by (rule quiet_trans [OF quiet_send quiet_resumeActive])
  show ?thesis
  proof (cases "r_status r2 = Ended")
    case True
    then have "r_status (snd (attachPlayer d pid s r)) = Ended"
      using Some x by (simp add: attachPlayer_def Let_def quiet_fields(6) [OF quiet_trans [OF quiet_send quiet_close]])
    then show ?thesis using Some by simp
  next
    case False
    let ?p = "(player_at r2 pid)\<lparr>ps_sink := Some s\<rparr>"
    have "player_of (snd (attachPlayer d pid s r)) pid = player_of (set_player pid ?p r2) pid"
      using Some x False by (simp add: attachPlayer_def Let_def quiet_player_of_eq [OF q])
    then show ?thesis using Some by simp
  qed
qed (use assms in \<open>simp add: attachPlayer_def\<close>)

lemma call_room_answers:
  assumes "call_room d h ev answer_of sv = (None, sv')"
  obtains i where "sv_heap sv h = Some i" "\<not> lr_leaving i" "answer_of (loaded sv (lr_room i)) = None"
    "sv' = room_event d h ev (lr_room i) sv"
  using assms by (auto simp: call_room_def split: option.splits if_splits)

lemma room_event_heap:
  "\<exists>i. sv_heap (room_event d h ev r sv) h = Some i \<and>
     (lr_leaving i \<and> lr_room i = stopTimers (handle d ev (loaded sv r)) \<or>
      \<not> lr_leaving i \<and> lr_room i = handle d ev (loaded sv r) \<and> r_status (handle d ev (loaded sv r)) \<noteq> Ended)"
  "k \<noteq> h \<Longrightarrow> sv_heap (room_event d h ev r sv) k = sv_heap sv k"
  by (simp_all add: room_event_def put_room_def Let_def)

lemma attach_attaches:
  assumes "attach d h c s sv = (None, sv')" "profile sv h = Some (rid, False)"
  shows "\<exists>i. sv_heap sv' h = Some i \<and> r_id (lr_room i) = rid \<and> (lr_leaving i \<or> attached_as c s (lr_room i))"
proof -
  let ?ev = "if cm_role c = RoleHost then EvAttachHost (cm_subject c) s else EvAttachPlayer (cm_subject c) s"
  let ?ans = "\<lambda>r. if cm_role c = RoleHost then fst (attachHost (cm_subject c) s r) else fst (attachPlayer d (cm_subject c) s r)"
  have "call_room d h ?ev ?ans sv = (None, sv')" using assms(1) by (simp add: attach_def split: if_splits)
  then obtain i where i: "sv_heap sv h = Some i" "\<not> lr_leaving i" "?ans (loaded sv (lr_room i)) = None"
    and sv': "sv' = room_event d h ?ev (lr_room i) sv"
    by (rule call_room_answers)
  let ?r = "loaded sv (lr_room i)"
  have id: "r_id (handle d ?ev ?r) = rid"
    using assms(2) i(1) same_room_handle [of ?r d ?ev] by (simp add: profile_def same_room_def loaded_def)
  have at: "attached_as c s (handle d ?ev ?r) \<or> r_status (handle d ?ev ?r) = Ended"
    using i(3) attachHost_attaches [of "cm_subject c" s ?r] attachPlayer_attaches [of d "cm_subject c" s ?r]
    by (auto simp: attached_as_def split: if_splits)
  show ?thesis
    using room_event_heap(1) [of d h ?ev "lr_room i" sv] id at by (auto simp: sv' stopTimers_def)
qed

text \<open>
  C7. A connection is open only for whom its token speaks: the token is valid now, the origin is
  allowed, and the live instance of the room (the token's room for a player, the one asked for by a
  host) has the new sink as the connection of that player, or of the host if it is the room's own;
  or its game ended at this very moment.
\<close>

theorem connection_needs_seat:
  assumes "d_store d = store_ops pg" "registry_inv sv"
    and "uuid_parse pg (asked_room hs c) = Some (asked_room hs c)"
    and "ServeHTTP cfg d hs s sv = (Connected h c cl, sv')"
  shows "Parse (wc_jwt cfg) (wc_secret cfg) (d_clock d (sv_tick sv)) (hs_token hs) = Some c \<and>
    CheckOrigin (wc_anyOrigin cfg) (wc_origins cfg) (hs_origin hs) \<and> cl = newClient (cm_role c) \<and>
    (\<exists>i. sv_heap sv' h = Some i \<and> r_id (lr_room i) = asked_room hs c \<and>
       (lr_leaving i \<or> attached_as c s (lr_room i)))"
proof -
  obtain c' where p: "Parse (wc_jwt cfg) (wc_secret cfg) (d_clock d (sv_tick sv)) (hs_token hs) = Some c'"
    using assms(4) by (auto simp: ServeHTTP_def split: option.splits)
  obtain res sv1 where g: "Get d (asked_room hs c') sv = (Got res, sv1)" using Get_got by blast
  obtain k where k: "res = Inr k" and up: "Upgrade cfg hs"
    using assms(4) p g by (auto simp: ServeHTTP_def rejectRoomError_def split: sum.splits if_splits)
  have at: "attach d h c s sv1 = (None, sv')" "c' = c" "k = h" "cl = newClient (cm_role c)"
    using assms(4) p g k up by (auto simp: ServeHTTP_def split: prod.splits option.splits)
  have "honest_reads tabs d (asked_room hs c)"
    using store_ops_reads [OF assms(1)] RoomByID_itself [OF assms(3)] by blast
  from Get_hands_out [OF this assms(2)] have "profile sv1 h = Some (asked_room hs c, False)" using g k at by blast
  then show ?thesis using attach_attaches [OF at(1)] p up at by (simp add: Upgrade_def)
qed

subsection \<open>What a connection can reach\<close>

lemma player_of_loaded [simp]: "player_of (loaded sv r) = player_of r"
  by (simp add: loaded_def player_of_def fun_eq_iff)

lemma player_of_stopTimers [simp]: "player_of (stopTimers r) = player_of r"
  by (simp add: stopTimers_def player_of_def fun_eq_iff)

lemma deliver_elsewhere:
  "k \<noteq> h \<Longrightarrow> sv_heap (deliver d h ev sv) k = sv_heap sv k" "sv_rooms (deliver d h ev sv) = sv_rooms sv"
  by (simp_all add: deliver_def room_event_heap(2) room_event_fields split: option.split)

lemma deliver_players:
  assumes "sv_heap sv h = Some i" "sv_heap (deliver d h ev sv) h = Some i'"
  shows "player_of (lr_room i') = player_of (lr_room i) \<or>
    player_of (lr_room i') = player_of (handle d ev (loaded sv (lr_room i)))"
  using assms room_event_heap(1) [of d h ev "lr_room i" sv]
  by (cases "lr_leaving i") (auto simp: deliver_def)

text \<open>What the frame of a peer with this role and id may do to the players of its room.\<close>

definition reach :: "role \<Rightarrow> uid \<Rightarrow> (uid \<rightharpoonup> player_state) \<Rightarrow> (uid \<rightharpoonup> player_state) \<Rightarrow> bool" where
  "reach role i ps ps' \<longleftrightarrow>
     (case role of
        RolePlayer \<Rightarrow> \<exists>f \<in> {\<lambda>p. p, disconnected}. \<forall>k. k \<noteq> i \<longrightarrow> ps' k = map_option f (ps k)
      | RoleHost \<Rightarrow> \<forall>k. ps' k \<in> {None, ps k, map_option disconnected (ps k)}
      | OtherRole _ \<Rightarrow> ps' = ps)"

lemma reach_same: "reach role i ps ps"
  by (auto simp: reach_def option.map_ident split: role.split)

text \<open>
  C8. What a peer sends reaches only what its token allows: no other room changes; a player asks and
  answers for itself, and every other player keeps score, question and connection (a game that ends
  with it disconnects all); a host starts, ends and kicks, and no score changes by that; a token of
  any other role does nothing.
\<close>

theorem peer_reaches_only_its_own:
  assumes "read_frame d h i data (c, sv) = (c', sv')" "sv_heap sv h = Some inst" "sv_heap sv' h = Some inst'"
  shows "(\<forall>k. k \<noteq> h \<longrightarrow> sv_heap sv' k = sv_heap sv k) \<and> sv_rooms sv' = sv_rooms sv \<and>
    reach (c_role c) i (player_of (lr_room inst)) (player_of (lr_room inst'))"
proof (cases "dispatch (c_role c) i data")
  case (Act ev)
  then have sv': "sv' = deliver d h ev sv" using assms(1) by (simp add: read_frame_def)
  let ?r = "loaded sv (lr_room inst)"
  have a: "c_role c = RolePlayer \<and> touches ev = {i} \<or> c_role c = RoleHost \<and> drops_only ?r (handle d ev ?r)"
    and b: "confined (touches ev) ?r (handle d ev ?r)"
    using dispatch_confined [OF Act, of ?r d] by blast+
  have "reach (c_role c) i (player_of (lr_room inst)) (player_of (handle d ev ?r))"
    using a b by (auto simp: reach_def confined_def drops_only_def)
  then show ?thesis
    using deliver_players [OF assms(2), of d ev inst'] assms(3) sv' deliver_elsewhere reach_same by metis
qed (use assms reach_same in \<open>auto simp: read_frame_def\<close>)

end
