(* ===== verification/Config.thy ===== *)
theory Config
  imports Endpoints
begin

section \<open>Configuration and the createhost command\<close>

text \<open>
  internal/config: the settings read from the environment, and cmd/createhost: the command that
  registers a host. \<open>os.Getenv\<close> is a function from names to values, empty where unset. The log
  level, which only the log sees, is left out. \<open>mail.ParseAddress\<close> and bcrypt are parameters.
\<close>

subsection \<open>Reading the environment\<close>

type_synonym environment = "string \<Rightarrow> string"

record config =
  cf_databaseURL :: string
  cf_redisURL :: string
  cf_jwtSecret :: string
  cf_port :: string
  cf_publicBaseURL :: string
  cf_env :: string
  cf_joinLimitPerMinute :: int
  cf_trustProxy :: bool
  cf_allowedOrigins :: "string list"

datatype config_error = DatabaseRequired | BadJoinLimit string

definition defaultJoinLimitPerMinute :: int where "defaultJoinLimitPerMinute = 10"

definition getenv :: "environment \<Rightarrow> string \<Rightarrow> string \<Rightarrow> string" where
  "getenv env key fallback = (if env key \<noteq> '''' then env key else fallback)"

text \<open>\<open>strconv.Atoi\<close>: an optional sign and digits, in the range of a 64-bit int.\<close>

definition digit_value :: "char \<Rightarrow> nat option" where
  "digit_value c = (let n = of_char c in if 48 \<le> n \<and> n \<le> 57 then Some (n - 48) else None)"

definition number :: "string \<Rightarrow> nat option" where
  "number ds = fold (\<lambda>c acc. Option.bind acc (\<lambda>a. map_option (\<lambda>v. 10 * a + v) (digit_value c))) ds (Some 0)"

definition Atoi :: "string \<Rightarrow> int option" where
  "Atoi s =
     (let (neg, ds) = (case s of [] \<Rightarrow> (False, [])
        | c # r \<Rightarrow> if c = CHR ''-'' then (True, r) else if c = CHR ''+'' then (False, r) else (False, s))
      in if ds = [] then None
         else case number ds of
           None \<Rightarrow> None
         | Some n \<Rightarrow> (let v = (if neg then - int n else int n)
                     in if - (2 ^ 63) \<le> v \<and> v < 2 ^ 63 then Some v else None))"

definition joinLimit :: "environment \<Rightarrow> string \<Rightarrow> config_error + int" where
  "joinLimit env e =
     (let raw = env ''RATE_LIMIT_JOIN_PER_MIN'' in
      if raw = '''' then Inr (if e = ''development'' then 0 else defaultJoinLimitPerMinute)
      else case Atoi raw of
             None \<Rightarrow> Inl (BadJoinLimit raw)
           | Some limit \<Rightarrow> if limit < 0 then Inl (BadJoinLimit raw) else Inr limit)"

text \<open>\<open>strings.Split\<close> at commas.\<close>

fun split_commas :: "string \<Rightarrow> string list" where
  "split_commas [] = [[]]"
| "split_commas (c # s) =
     (if c = comma then [] # split_commas s
      else case split_commas s of [] \<Rightarrow> [[c]] | p # ps \<Rightarrow> (c # p) # ps)"

definition allowedOrigins :: "environment \<Rightarrow> string \<Rightarrow> string list" where
  "allowedOrigins env publicBaseURL =
     (let raw = env ''CORS_ALLOWED_ORIGINS'' in
      if raw = '''' then [publicBaseURL]
      else filter (\<lambda>o'. o' \<noteq> '''') (map TrimSpace (split_commas raw)))"

text \<open>\<open>strings.TrimRight(s, "/")\<close>.\<close>

definition trim_slashes :: "string \<Rightarrow> string" where
  "trim_slashes s = rev (dropWhile (\<lambda>c. c = CHR ''/'') (rev s))"

definition Load :: "environment \<Rightarrow> config_error + config" where
  "Load env =
     (let base = trim_slashes (getenv env ''PUBLIC_BASE_URL'' ''http://localhost:5173'');
          e = getenv env ''ENV'' ''development'' in
      if env ''DATABASE_URL'' = '''' then Inl DatabaseRequired
      else case joinLimit env e of
        Inl err \<Rightarrow> Inl err
      | Inr limit \<Rightarrow>
          Inr \<lparr>cf_databaseURL = env ''DATABASE_URL'', cf_redisURL = env ''REDIS_URL'',
               cf_jwtSecret = env ''JWT_SECRET'', cf_port = getenv env ''PORT'' ''8080'',
               cf_publicBaseURL = base, cf_env = e, cf_joinLimitPerMinute = limit,
               cf_trustProxy = (env ''TRUST_PROXY'' = ''true''), cf_allowedOrigins = allowedOrigins env base\<rparr>)"

lemma number_snoc: "number (ds @ [c]) = Option.bind (number ds) (\<lambda>a. map_option (\<lambda>v. 10 * a + v) (digit_value c))"
  by (simp add: number_def)

lemma digit_value_digit: "k < 10 \<Longrightarrow> digit_value (char_of (48 + k)) = Some k" for k :: nat
  by (simp add: digit_value_def Let_def)

lemma number_digits: "number (digits n) = Some n"
proof (induction n rule: digits.induct)
  case (1 n)
  have "number [char_of (48 + n)] = Some n" if "n < 10" using that number_snoc [of "[]"] by (simp add: number_def digit_value_digit)
  moreover have "number (digits (n div 10) @ [char_of (48 + n mod 10)]) = Some n" if "\<not> n < 10"
    using 1 that by (simp add: number_snoc digit_value_digit)
  ultimately show ?case by (subst digits.simps) simp
qed

lemma digits_start: "digits n \<noteq> [] \<and> hd (digits n) \<noteq> CHR ''-'' \<and> hd (digits n) \<noteq> CHR ''+''"
proof (induction n rule: digits.induct)
  case (1 n)
  have "char_of (48 + k) \<noteq> CHR ''-''" "char_of (48 + k) \<noteq> CHR ''+''" if "k < 10" for k :: nat
  proof -
    have "digit_value (CHR ''-'') = None" "digit_value (CHR ''+'') = None" by (simp_all add: digit_value_def)
    then show "char_of (48 + k) \<noteq> CHR ''-''" "char_of (48 + k) \<noteq> CHR ''+''"
      using digit_value_digit [OF that] by force+
  qed
  then show ?case using 1 by (subst (1 2 3) digits.simps) (auto simp del: digits.simps)
qed

lemma Atoi_Itoa:
  assumes "- (2 ^ 63) \<le> n" "n < 2 ^ 63"
  shows "Atoi (Itoa n) = Some n"
proof (cases "n < 0")
  case True
  then show ?thesis using assms digits_start [of "nat (- n)"]
    by (simp add: Atoi_def Itoa_def number_digits Let_def del: digits.simps)
next
  case False
  obtain c r where d: "digits (nat n) = c # r" using digits_start [of "nat n"] by (cases "digits (nat n)") auto
  then have "Itoa n = c # r" "number (c # r) = Some (nat n)" "c \<noteq> CHR ''-''" "c \<noteq> CHR ''+''"
    using False digits_start [of "nat n"] number_digits [of "nat n"] by (simp_all add: Itoa_def del: digits.simps)
  then show ?thesis using False assms by (simp add: Atoi_def Let_def)
qed

text \<open>
  The server starts only with a database URL and a join limit that is a whole number from 0 on;
  every such number written out in decimal is read as itself, and without one the limit is 10, or
  none in development; nothing else keeps it from starting.
\<close>

theorem config_reads_limit:
  "case Load env of
     Inl e \<Rightarrow> env ''DATABASE_URL'' = '''' \<or>
       (env ''RATE_LIMIT_JOIN_PER_MIN'' \<noteq> '''' \<and>
        (\<forall>n. 0 \<le> n \<and> n < 2 ^ 63 \<longrightarrow> env ''RATE_LIMIT_JOIN_PER_MIN'' \<noteq> Itoa n))
   | Inr cfg \<Rightarrow> cf_databaseURL cfg \<noteq> '''' \<and> 0 \<le> cf_joinLimitPerMinute cfg \<and> cf_joinLimitPerMinute cfg < 2 ^ 63 \<and>
       (\<forall>n. 0 \<le> n \<and> n < 2 ^ 63 \<and> env ''RATE_LIMIT_JOIN_PER_MIN'' = Itoa n \<longrightarrow> cf_joinLimitPerMinute cfg = n) \<and>
       (env ''RATE_LIMIT_JOIN_PER_MIN'' = '''' \<longrightarrow>
          cf_joinLimitPerMinute cfg = (if cf_env cfg = ''development'' then 0 else 10))"
proof -
  let ?raw = "env ''RATE_LIMIT_JOIN_PER_MIN''"
  have ne: "Itoa n \<noteq> ''''" "'''' \<noteq> Itoa n" for n
    using digits_start [of "nat n"] by (auto simp: Itoa_def simp del: digits.simps)
  have at: "Atoi ?raw = Some n" if "?raw = Itoa n" "0 \<le> n" "n < 2 ^ 63" for n
    using Atoi_Itoa [of n] that by simp
  have range: "n < 2 ^ 63" if "Atoi ?raw = Some n" for n
    using that by (auto simp: Atoi_def Let_def split: prod.splits if_splits option.splits)
  show ?thesis
    using ne at range
    by (auto simp: Load_def joinLimit_def defaultJoinLimitPerMinute_def Let_def split: option.split if_splits)
qed

subsection \<open>createhost\<close>

definition bcryptCost :: nat where "bcryptCost = 12"
definition minPasswordLength :: nat where "minPasswordLength = 8"

definition validate_host :: "(string \<Rightarrow> bool) \<Rightarrow> string \<Rightarrow> string \<Rightarrow> string \<Rightarrow> string option" where
  "validate_host address_ok email name password =
     (if \<not> address_ok email then Some ''invalid -email''
      else if TrimSpace name = '''' then Some ''-name is required''
      else if length password < minPasswordLength then Some ''-password must be at least 8 characters''
      else None)"

text \<open>The run on a database that is open and migrated; \<open>Commands\<close> has the whole command.\<close>

definition createhost_run :: "(string \<Rightarrow> bool) \<Rightarrow> (string \<Rightarrow> nat \<Rightarrow> string option) \<Rightarrow> environment \<Rightarrow> pg \<Rightarrow>
    string \<Rightarrow> string \<Rightarrow> string \<Rightarrow> db \<Rightarrow> string option \<times> db" where
  "createhost_run address_ok GenerateFromPassword env pg email name password s =
     (case validate_host address_ok email name password of
        Some e \<Rightarrow> (Some e, s)
      | None \<Rightarrow>
     (case GenerateFromPassword password bcryptCost of
        None \<Rightarrow> (Some ''hash password'', s)
      | Some hash \<Rightarrow>
     (case Load env of
        Inl _ \<Rightarrow> (Some ''config'', s)
      | Inr cfg \<Rightarrow>
     (case CreateHost pg (normal_email email) (TrimSpace name) hash s of
        (Some _, s') \<Rightarrow> (Some ''save host'', s')
      | (None, s') \<Rightarrow> (None, s')))))"

lemma CreateHost_stores:
  assumes "calm pg" "CreateHost pg email name hash s = (None, s')"
  obtains h where "GetHostByEmail email now (tabs s') = Inr (h, tabs s')" "hr_passwordHash h = hash"
proof -
  let ?set = "\<lambda>h. if hr_email h = email then h\<lparr>hr_passwordHash := hash, hr_name := name\<rparr> else h"
  have t: "if \<exists>h \<in> set (tb_hosts (tabs s)). hr_email h = email
      then tb_hosts (tabs s') = map ?set (tb_hosts (tabs s))
      else \<exists>h. tb_hosts (tabs s') = tb_hosts (tabs s) @ [h] \<and> hr_email h = email \<and> hr_passwordHash h = hash"
    using assms by (auto simp: CreateHost_def exec_calm UpsertHost_def split: if_splits)
  have "\<exists>h \<in> set (tb_hosts (tabs s')). hr_email h = email"
  proof (cases "\<exists>h \<in> set (tb_hosts (tabs s)). hr_email h = email")
    case True
    then obtain h where "h \<in> set (tb_hosts (tabs s))" "hr_email h = email" by blast
    then have "?set h \<in> set (tb_hosts (tabs s'))" "hr_email (?set h) = email" using t True by auto
    then show ?thesis by blast
  qed (use t in auto)
  moreover have "\<forall>h \<in> set (tb_hosts (tabs s')). hr_email h = email \<longrightarrow> hr_passwordHash h = hash"
    using t by (auto split: if_splits)
  ultimately obtain h where "find (\<lambda>h. hr_email h = email) (tb_hosts (tabs s')) = Some h" "hr_passwordHash h = hash"
    by (metis (mono_tags, lifting) find_None_iff find_Some_iff nth_mem option.exhaust)
  then show ?thesis using that [of h] by (simp add: GetHostByEmail_def)
qed

text \<open>
  C27. A host who was registered with createhost can log in with the password given there, however
  the address is cased and spaced, on a database that works; registering again changes the password.
\<close>

theorem created_host_logs_in:
  assumes calm: "calm (a_pg a)"
    and bcrypt: "\<And>p h. GenerateFromPassword p bcryptCost = Some h \<Longrightarrow> h \<noteq> '''' \<and> a_bcrypt a h p"
    and signs: "\<And>c. jwt_sign (a_jwt a) (a_secret a) c \<noteq> None"
    and created: "createhost_run address_ok GenerateFromPassword env (a_pg a) email name password s = (None, sv_store (w_server w))"
    and ids: "\<forall>h \<in> set (tb_hosts (tables_of w)). uuid_parse (a_pg a) (hr_id h) \<noteq> None"
    and request: "decodeJSON login_fields zero_login rq = Some \<lparr>lg_email = typed, lg_password = password\<rparr>"
    and same: "normal_email typed = normal_email email"
  shows "\<exists>token w'. login a rq w = ((200, BToken token), w')"
proof -
  obtain hash where hash: "GenerateFromPassword password bcryptCost = Some hash"
    and c: "CreateHost (a_pg a) (normal_email email) (TrimSpace name) hash s = (None, sv_store (w_server w))"
    using created by (auto simp: createhost_run_def split: option.splits sum.splits prod.splits)
  let ?s = "sv_store (w_server w)"
  obtain h where h: "GetHostByEmail (normal_email email) (server_now (a_pg a) (trips ?s)) (tables_of w) = Inr (h, tables_of w)"
      "hr_passwordHash h = hash"
    using CreateHost_stores [OF calm c] .
  obtain w1 where x: "store_call (HostByEmail (a_pg a) (normal_email typed)) w = (Inr h, w1)"
    and t: "tables_of w1 = tables_of w"
    using h(1) same by (auto simp: store_call_def HostByEmail_def exec_calm [OF calm] Let_def)
  have "h \<in> set (tb_hosts (tables_of w))"
    using h(1) by (auto simp: GetHostByEmail_def find_Some_iff split: option.splits)
  then obtain hid where "uuid_parse (a_pg a) (hr_id h) = Some hid" using ids by blast
  then obtain w2 where y: "store_call (TouchHostLogin (a_pg a) (hr_id h)) w1 = (None, w2)"
    by (auto simp: store_call_def TouchHostLogin_def TouchHostLoginRow_def exec_calm [OF calm] Let_def)
  have m: "passwordMatches a hash password" using bcrypt [OF hash] by (simp add: passwordMatches_def)
  obtain token where "IssueHost (a_jwt a) (a_secret a) (time_now a w1) (hr_id h) = Some token"
    using signs by (auto simp: IssueHost_def sign_def)
  then show ?thesis using request x y h(2) m by (simp add: login_def)
qed

end
