(* ===== verification/Serving.thy ===== *)
theory Serving
  imports Registry
begin

section \<open>The rooms among everything else: registry, requests, database\<close>

text \<open>
  The rooms of \<open>Session\<close> take their events inside the server of \<open>Registry\<close>, which loads them from the
  database of \<open>Store\<close>, while the REST handlers call the same store. Here all of them run together:
  \<open>serving_step\<close> is one step of the program over the database. A room's invariant rests on what the
  database returned when the room was loaded, and what the database holds rests on what the rooms
  saved; so the two are one invariant (\<open>serving_inv\<close>), and the theorem is that it holds in every state
  that is reached.

  The locale \<open>room_writer\<close> says what a room asks of a property of the store to keep it: all it ever
  writes are results of its own players, in the range of its questions.
\<close>

subsection \<open>What a room writes\<close>

definition result_in_range :: "uid set \<Rightarrow> nat \<Rightarrow> result \<Rightarrow> bool" where
  "result_in_range ids n r \<longleftrightarrow> rs_playerID r \<in> ids \<and> n \<le> 15 \<and>
     0 \<le> rs_streak r \<and> rs_streak r \<le> rs_correctCount r \<and> rs_correctCount r \<le> rs_currentIndex r \<and>
     rs_currentIndex r \<le> int n \<and> 0 \<le> rs_score r \<and> rs_score r \<le> 1250 * rs_correctCount r \<and>
     0 \<le> rs_totalMs r \<and> rs_totalMs r \<le> 31250 * rs_currentIndex r"

locale room_writer =
  fixes api :: "'s store_api" and ids :: "uid set" and n :: nat and ok :: "'s \<Rightarrow> bool"
  assumes saved: "result_in_range ids n res \<Longrightarrow> ok s \<Longrightarrow> ok (snd (api_SaveResult api res s))"
    and started: "ok s \<Longrightarrow> ok (snd (api_MarkRoomStarted api rid s))"
    and ended: "ok s \<Longrightarrow> ok (snd (api_MarkRoomEnded api rid s))"
    and deleted: "ok s \<Longrightarrow> ok (snd (api_DeletePlayer api pid s))"

definition writes_ok :: "uid set \<Rightarrow> nat \<Rightarrow> ('s \<Rightarrow> bool) \<Rightarrow> nat \<Rightarrow> ('s, 'b) room \<Rightarrow> bool" where
  "writes_ok ids n ok t0 r \<longleftrightarrow> ok (r_store r) \<and> dom (player_of r) \<subseteq> ids \<and>
     length (r_questions r) = n \<and> n \<le> 15 \<and> t0 \<le> r_tick r"

lemma writes_ok_quiet: "quiet d r r' \<Longrightarrow> writes_ok ids n ok t0 r \<Longrightarrow> writes_ok ids n ok t0 r'"
  using quiet_fields(5,12) [of d r r'] quiet_player_of_eq [of d r r'] quiet_tick [of d r r']
  by (simp add: writes_ok_def)

lemma writes_ok_set_player:
  "writes_ok ids n ok t0 r \<Longrightarrow> player_of r pid \<noteq> None \<Longrightarrow> writes_ok ids n ok t0 (set_player pid p r)"
  by (auto simp: writes_ok_def)

lemma writes_ok_store: "writes_ok ids n ok t0 r \<Longrightarrow> ok s \<Longrightarrow> writes_ok ids n ok t0 (r\<lparr>r_store := s\<rparr>)"
  by (simp add: writes_ok_def)

lemma writes_ok_fields:
  "writes_ok ids n ok t0 (r\<lparr>r_status := st\<rparr>) = writes_ok ids n ok t0 r"
  "writes_ok ids n ok t0 (r\<lparr>r_out := out\<rparr>) = writes_ok ids n ok t0 r"
  "writes_ok ids n ok t0 (r\<lparr>r_host := h\<rparr>) = writes_ok ids n ok t0 r"
  "writes_ok ids n ok t0 (r\<lparr>r_deadline := dl\<rparr>) = writes_ok ids n ok t0 r"
  "writes_ok ids n ok t0 (r\<lparr>r_lbWaiting := w, r_lbTimer := tm\<rparr>) = writes_ok ids n ok t0 r"
  by (simp_all add: writes_ok_def player_of_def dom_def)

lemma writes_ok_closeAll: "writes_ok ids n ok t0 (closeAll r) = writes_ok ids n ok t0 r"
proof -
  have "dom (player_of (closeAll r)) = dom (player_of r)" by (auto simp: player_of_closeAll)
  then show ?thesis by (simp add: writes_ok_def)
qed

lemma result_of_in_range:
  assumes "player_ok d r pid p" "ps_active p = Some a" "outcome_ok out" "writes_ok ids n ok t0 r" "pid \<in> ids"
  shows "result_in_range ids n (result_of p a out (advance p out) fin)"
proof -
  have "totals_ok n (advance p out)"
    using assms by (intro advance_totals_ok) (auto simp: player_ok_def active_ok_def writes_ok_def)
  then show ?thesis
    using assms(1,4,5) by (simp add: result_in_range_def result_of_def totals_ok_def player_ok_def writes_ok_def)
qed

context room_writer begin

lemma writes_endSession:
  assumes "d_store d = api" "writes_ok ids n ok t0 r"
  shows "writes_ok ids n ok t0 (endSession d r)"
proof (cases "r_status r = Ended")
  case False
  obtain s out where e: "endSession d r = closeAll (r\<lparr>r_store := s, r_status := Ended, r_out := out\<rparr>)"
    and s: "s = snd (api_MarkRoomEnded (d_store d) (r_id r) (r_store r))"
    using endSession_eq [OF False] by blast
  have "ok s" using assms ended s by (simp add: writes_ok_def)
  then show ?thesis using writes_ok_store [OF assms(2)] by (simp add: e writes_ok_closeAll writes_ok_fields)
qed (simp add: endSession_def assms)

lemma writes_endIfAllFinished:
  "d_store d = api \<Longrightarrow> writes_ok ids n ok t0 r \<Longrightarrow> writes_ok ids n ok t0 (endIfAllFinished d r)"
  using endIfAllFinished_cases [of d r] writes_endSession [of d t0 r] by auto

lemma writes_resolve:
  assumes api: "d_store d = api" and w: "writes_ok ids n ok t0 r" and i: "room_inv d r"
    and p: "player_of r pid = Some p" and a: "ps_active p = Some a" and out: "outcome_ok out"
  shows "writes_ok ids n ok t0 (snd (resolve d pid p a out ann r))"
proof (cases "save_call d p a out r")
  case (Pair err s)
  have "pid \<in> ids" using w p by (auto simp: writes_ok_def)
  then have "result_in_range ids n (result_of p a out (advance p out) (finishes r p))"
    using result_of_in_range [OF room_invD(1) [OF i p] a out w] by simp
  then have "ok (snd (save_call d p a out r))" using w by (simp add: save_call_def api saved writes_ok_def)
  then have "ok s" using Pair by simp
  then have ws: "writes_ok ids n ok t0 (r\<lparr>r_store := s\<rparr>)" by (rule writes_ok_store [OF w])
  show ?thesis
  proof (cases err)
    case (Some e)
    then show ?thesis using Pair writes_ok_quiet [OF quiet_rejectFailedSave ws] by (simp add: resolve_refused)
  next
    case None
    obtain r5 where q: "quiet d (set_player pid (settled p out) (r\<lparr>r_store := s\<rparr>)) r5"
      and e: "resolve d pid p a out ann r = (True, if finishes r p then endIfAllFinished d r5 else r5)"
      by (rule resolve_saved [OF Pair [unfolded None], where pid = pid and ann = ann])
    have "writes_ok ids n ok t0 r5" using writes_ok_set_player [OF ws] p by (intro writes_ok_quiet [OF q]) simp
    then show ?thesis using writes_endIfAllFinished [OF api] by (simp add: e)
  qed
qed

lemma writes_settleExpired:
  assumes api: "d_store d = api" and w: "writes_ok ids n ok t0 r" and i: "room_inv d r"
    and m: "mono (d_clock d)" and p: "player_of r pid = Some p"
  shows "writes_ok ids n ok t0 (snd (settleExpired d pid p r))"
proof (cases "ps_active p")
  case None
  then show ?thesis using w by (simp add: settleExpired_def)
next
  case (Some a)
  let ?r = "r\<lparr>r_tick := Suc (r_tick r)\<rparr>"
  have i': "room_inv d ?r" by (rule room_inv_quiet [OF quiet_tick_read m i])
  have w': "writes_ok ids n ok t0 ?r" by (rule writes_ok_quiet [OF quiet_tick_read w])
  have p': "player_of ?r pid = Some p" using p by (simp add: player_of_def)
  have "outcome_ok (timeoutOutcome a)"
    using room_invD(1) [OF i p] Some timeoutOutcome_ok by (auto simp: player_ok_def)
  then show ?thesis
    using writes_resolve [OF api w' i' p' Some] Some w w' by (simp add: settleExpired_def read_clock_def Let_def)
qed

lemma writes_serve:
  assumes w: "writes_ok ids n ok t0 r" and p: "player_of r pid = Some p"
  shows "writes_ok ids n ok t0 (serve d pid q r)"
proof -
  let ?q = "r_questions r ! nat (ps_resolved q)"
  let ?r1 = "snd (shuffledOptions d ?q r)"
  let ?r2 = "?r1\<lparr>r_tick := Suc (r_tick ?r1)\<rparr>"
  have q: "quiet d r ?r2" using quiet_shuffledOptions quiet_tick_read by (rule quiet_trans)
  have "writes_ok ids n ok t0 ?r2" by (rule writes_ok_quiet [OF q w])
  moreover have "player_of ?r2 pid \<noteq> None" using quiet_player_of_eq [OF q] p by simp
  ultimately have "writes_ok ids n ok t0 (set_player pid p' ?r2)" for p' by (rule writes_ok_set_player)
  then have "writes_ok ids n ok t0 (sendQuestion p' a t (set_player pid p' ?r2))" for p' a t
    by (rule writes_ok_quiet [OF quiet_sendQuestion])
  then show ?thesis by (simp add: serve_def read_clock_def split_beta Let_def)
qed

lemma writes_nextQuestion:
  assumes api: "d_store d = api" and w: "writes_ok ids n ok t0 r" and i: "room_inv d r" and m: "mono (d_clock d)"
  shows "writes_ok ids n ok t0 (nextQuestion d pid r)"
proof (cases "player_of r pid")
  case None
  then show ?thesis using w by (simp add: nextQuestion_def)
next
  case (Some p)
  obtain free r1 where x: "settleExpired d pid p r = (free, r1)" by fastforce
  have w1: "writes_ok ids n ok t0 r1" using writes_settleExpired [OF api w i m Some] x by simp
  have "same_game r r1" using same_game_settleExpired [OF Some, of d p] x by simp
  then have "player_of r1 pid = Some (player_at r1 pid)" using Some by (rule same_game_player_at)
  then have sv: "writes_ok ids n ok t0 (serve d pid (player_at r1 pid) r1)" by (rule writes_serve [OF w1])
  show ?thesis
  proof (cases "r_status r = Running")
    case False
    then show ?thesis using Some writes_ok_quiet [OF quiet_reject w] by (simp add: nextQuestion_def)
  next
    case True
    show ?thesis
      using w1 writes_ok_quiet [OF quiet_reject w1] sv by (simp add: nextQuestion_running [OF Some True] x Let_def)
  qed
qed

lemma writes_answer:
  assumes api: "d_store d = api" and w: "writes_ok ids n ok t0 r" and i: "room_inv d r" and m: "mono (d_clock d)"
  shows "writes_ok ids n ok t0 (answer d pid qid oid r)"
proof (cases "player_of r pid")
  case None
  then show ?thesis using w by (simp add: answer_def)
next
  case p: (Some p)
  have res: "writes_ok ids n ok t0
      (snd (resolve d pid p a (fst (outcomeOf d p a oid r)) True (snd (outcomeOf d p a oid r))))"
    if a: "ps_active p = Some a" for a
  proof (rule writes_resolve [OF api _ _ _ a])
    note q = quiet_outcomeOf [of d r p a oid]
    show "writes_ok ids n ok t0 (snd (outcomeOf d p a oid r))" by (rule writes_ok_quiet [OF q w])
    show "room_inv d (snd (outcomeOf d p a oid r))" by (rule room_inv_quiet [OF q m i])
    show "player_of (snd (outcomeOf d p a oid r)) pid = Some p" using quiet_player_of_eq [OF q] p by simp
    show "outcome_ok (fst (outcomeOf d p a oid r))"
      using room_invD(1) [OF i p] a by (intro outcomeOf_ok) (auto simp: player_ok_def totals_ok_def)
  qed
  show ?thesis
    using p w res writes_ok_quiet [OF quiet_reject w] writes_ok_quiet [OF quiet_rejectUnservedAnswer w]
    by (simp add: answer_def split_beta split: option.split)
qed

lemma writes_attachPlayer:
  assumes api: "d_store d = api" and w: "writes_ok ids n ok t0 r" and i: "room_inv d r" and m: "mono (d_clock d)"
  shows "writes_ok ids n ok t0 (snd (attachPlayer d pid s r))"
proof (cases "player_of r pid")
  case None
  then show ?thesis using w by (simp add: attachPlayer_def)
next
  case (Some p)
  let ?r1 = "drop_sink pid p r"
  have p1: "player_of ?r1 pid = Some (player_at ?r1 pid)" using drop_sink_player [OF Some] by (simp add: player_at_def)
  have cl: "writes_ok ids n ok t0 (close old r)" "player_of (close old r) pid \<noteq> None" for old
    using writes_ok_quiet [OF quiet_close w] quiet_player_of_eq [OF quiet_close, where r = r] Some by simp_all
  then have w1: "writes_ok ids n ok t0 ?r1"
    using w by (auto simp: drop_sink_def split: option.split intro: writes_ok_set_player)
  obtain free r2 where x: "settleExpired d pid (player_at ?r1 pid) ?r1 = (free, r2)" by fastforce
  have w2: "writes_ok ids n ok t0 r2"
    using writes_settleExpired [OF api w1 room_inv_drop_sink [OF m i Some] m p1] x by simp
  have "same_game ?r1 r2" using same_game_settleExpired [OF p1, of d "player_at ?r1 pid"] x by simp
  then have p2: "player_of r2 pid \<noteq> None" using same_game_player_at [OF _ p1] by simp
  have "writes_ok ids n ok t0 (resumeActive d p' (send s msg (set_player pid p'' r2)))" for p' p'' msg
    by (rule writes_ok_quiet [OF quiet_trans [OF quiet_send quiet_resumeActive] writes_ok_set_player [OF w2 p2]])
  moreover have "writes_ok ids n ok t0 (close s (send s msg r2))" for msg
    by (rule writes_ok_quiet [OF quiet_trans [OF quiet_send quiet_close] w2])
  ultimately show ?thesis by (simp add: attachPlayer_known [OF Some] x Let_def)
qed

lemma writes_kick:
  assumes api: "d_store d = api" and w: "writes_ok ids n ok t0 r"
  shows "writes_ok ids n ok t0 (kick d pid r)"
proof (cases "player_of r pid")
  case (Some p)
  obtain err s where x: "api_DeletePlayer api pid (r_store r) = (err, s)" by fastforce
  have "ok s" using w deleted [of "r_store r" pid] x by (simp add: writes_ok_def)
  then have ws: "writes_ok ids n ok t0 (r\<lparr>r_store := s\<rparr>)" by (rule writes_ok_store [OF w])
  let ?r1 = "r\<lparr>r_store := s, r_players := AList.delete pid (r_players r), r_order := removeID (r_order r) pid\<rparr>"
  let ?r2 = "forgetStanding d pid ?r1"
  let ?r3 = "case ps_sink p of None \<Rightarrow> ?r2 | Some k \<Rightarrow> close k (send k (MPlayerKicked ''kicked by host'') ?r2)"
  have "quiet d ?r1 ?r2" by (rule quiet_forgetStanding)
  also have "quiet d ?r2 ?r3" by (simp add: quiet_trans [OF quiet_send quiet_close] split: option.split)
  also have "quiet d ?r3 (markLeaderboardDirty d ?r3)" by (rule quiet_markLeaderboardDirty)
  finally have q: "quiet d ?r1 (markLeaderboardDirty d ?r3)" .
  have "dom (player_of ?r1) \<subseteq> dom (player_of r)" by (auto simp: player_of_def delete_conv split: if_splits)
  then have "writes_ok ids n ok t0 ?r1" using ws by (auto simp: writes_ok_def)
  then have "writes_ok ids n ok t0 (endIfAllFinished d (markLeaderboardDirty d ?r3))"
    by (intro writes_endIfAllFinished api writes_ok_quiet [OF q])
  then show ?thesis using Some x api ws by (simp add: kick_def Let_def split: option.split)
qed (simp add: kick_def w)

lemma writes_handle:
  assumes api: "d_store d = api" and w: "writes_ok ids n ok t0 r" and i: "room_inv d r" and m: "mono (d_clock d)"
    and live: "r_status r \<noteq> Ended" and new: "\<And>p. ev = EvAddPlayer p \<Longrightarrow> pl_id p \<in> ids"
  shows "writes_ok ids n ok t0 (handle d ev r)"
proof (cases ev)
  case EvRestoreBoard
  then show ?thesis using writes_ok_quiet [OF quiet_restoreBoard w] by simp
next
  case (EvAddPlayer p)
  have a: "writes_ok ids n ok t0 (addPlayer p r)"
    using w new [OF EvAddPlayer] by (auto simp: writes_ok_def player_of_addPlayer)
  then show ?thesis
    using w EvAddPlayer writes_ok_quiet [OF quiet_send a]
    by (simp add: addPlayerAndNotify_def Let_def split: option.split)
next
  case (EvAttachPlayer pid s)
  then show ?thesis using writes_attachPlayer [OF api w i m] by simp
next
  case (EvAttachHost hid s)
  let ?r = "case r_host r of None \<Rightarrow> r | Some old \<Rightarrow> close old r"
  have "quiet d r ?r" by (simp add: quiet_close split: option.split)
  then have "writes_ok ids n ok t0 ?r" using w by (rule writes_ok_quiet)
  then have "writes_ok ids n ok t0 (send s msg (?r\<lparr>r_host := Some s\<rparr>))" for msg
    by (intro writes_ok_quiet [OF quiet_send [of d]]) (simp add: writes_ok_fields)
  then show ?thesis using w EvAttachHost by (simp add: attachHost_def Let_def)
next
  case (EvDetach s)
  have "dom (player_of (detach s r)) = dom (player_of r)" by (auto simp: detach_def player_of_def map_of_mapped)
  then show ?thesis using w EvDetach by (simp add: writes_ok_def)
next
  case EvStart
  obtain res s where x: "api_MarkRoomStarted api (r_id r) (r_store r) = (res, s)" by fastforce
  have "ok s" using w started [of "r_store r" "r_id r"] x by (simp add: writes_ok_def)
  then have ws: "writes_ok ids n ok t0 (r\<lparr>r_store := s\<rparr>)" by (rule writes_ok_store [OF w])
  then have "writes_ok ids n ok t0 (r\<lparr>r_store := s, r_status := st, r_tick := Suc (r_tick r), r_deadline := dl\<rparr>)" for st dl
    by (simp add: writes_ok_def player_of_def dom_def)
  then have "writes_ok ids n ok t0
      (broadcast msg (r\<lparr>r_store := s, r_status := st, r_tick := Suc (r_tick r), r_deadline := dl\<rparr>))" for msg st dl
    by (rule writes_ok_quiet [OF quiet_broadcast])
  then show ?thesis
    using ws api x EvStart w by (simp add: startSession_def armDeadline_def read_clock_def Let_def split: sum.split)
next
  case EvDeadline
  then show ?thesis using writes_endSession [OF api] w by (simp add: writes_ok_fields)
next
  case EvLbTimer
  then show ?thesis using writes_ok_quiet [OF quiet_lbTimerFires [OF live] w] by simp
next
  case EvShutdown
  then show ?thesis using w by (simp add: writes_ok_closeAll)
qed (use writes_endSession [OF api w] writes_kick [OF api w] writes_nextQuestion [OF api w i m]
  writes_answer [OF api w i m] in simp_all)

end

subsection \<open>What the database holds\<close>

text \<open>The number of questions of a room, and the totals in the range of that many questions.\<close>

definition size_of :: "tables \<Rightarrow> uid \<Rightarrow> nat option" where
  "size_of t rid = map_option (\<lambda>r. length (rr_questionIDs r)) (find (\<lambda>r. rr_id r = rid) (tb_rooms t))"

definition row_in_range :: "nat \<Rightarrow> player_row \<Rightarrow> bool" where
  "row_in_range n p \<longleftrightarrow>
     0 \<le> pr_streak p \<and> pr_streak p \<le> pr_correctCount p \<and> pr_correctCount p \<le> pr_currentIndex p \<and>
     pr_currentIndex p \<le> int n \<and> 0 \<le> pr_score p \<and> pr_score p \<le> 1250 * pr_correctCount p \<and>
     0 \<le> pr_totalMs p \<and> pr_totalMs p \<le> 31250 * pr_currentIndex p"

text \<open>
  \<open>gen_random_uuid\<close> never hands out the same id twice, and the id it hands out is in the form in
  which \<open>uuid.Parse\<close> gives it back. An id is spent when it is of that form and will not come again.
\<close>

definition uuid_laws :: "pg \<Rightarrow> bool" where
  "uuid_laws pg \<longleftrightarrow> inj (gen_uuid pg) \<and> (\<forall>k. uuid_parse pg (gen_uuid pg k) = Some (gen_uuid pg k))"

definition spent :: "pg \<Rightarrow> nat \<Rightarrow> uid \<Rightarrow> bool" where
  "spent pg k pid \<longleftrightarrow> uuid_parse pg pid = Some pid \<and> (\<forall>j \<ge> k. gen_uuid pg j \<noteq> pid)"

definition owns :: "tables \<Rightarrow> uid \<Rightarrow> uid \<Rightarrow> bool" where
  "owns t rid pid \<longleftrightarrow> (\<forall>p \<in> set (tb_players t). pr_id p = pid \<longrightarrow> pr_roomID p = rid)"

definition rows_ok :: "pg \<Rightarrow> db \<Rightarrow> bool" where
  "rows_ok pg d \<longleftrightarrow> (\<forall>r \<in> set (tb_rooms (tabs d)). length (rr_questionIDs r) \<le> 15) \<and>
     distinct (map pr_id (tb_players (tabs d))) \<and>
     (\<forall>p \<in> set (tb_players (tabs d)). spent pg (trips d) (pr_id p) \<and>
        (\<exists>n. size_of (tabs d) (pr_roomID p) = Some n \<and> row_in_range n p))"

text \<open>What a step leaves as it is, for those who hold on to a room or a player.\<close>

definition grows :: "pg \<Rightarrow> db \<Rightarrow> db \<Rightarrow> bool" where
  "grows pg d d' \<longleftrightarrow> trips d \<le> trips d' \<and>
     (\<forall>rid n. size_of (tabs d) rid = Some n \<longrightarrow> size_of (tabs d') rid = Some n) \<and>
     (\<forall>rid pid. spent pg (trips d) pid \<and> owns (tabs d) rid pid \<longrightarrow> owns (tabs d') rid pid)"

lemma grows_refl [simp]: "grows pg d d"
  by (simp add: grows_def)

lemma spent_later: "spent pg k pid \<Longrightarrow> k \<le> k' \<Longrightarrow> spent pg k' pid"
  by (auto simp: spent_def)

lemma grows_same:
  "tb_rooms (tabs d') = tb_rooms (tabs d) \<Longrightarrow> tb_players (tabs d') = tb_players (tabs d) \<Longrightarrow> trips d \<le> trips d' \<Longrightarrow>
   grows pg d d'"
  by (simp add: grows_def size_of_def owns_def)

lemma rows_ok_same:
  "tb_rooms (tabs d') = tb_rooms (tabs d) \<Longrightarrow> tb_players (tabs d') = tb_players (tabs d) \<Longrightarrow> trips d \<le> trips d' \<Longrightarrow>
   rows_ok pg d \<Longrightarrow> rows_ok pg d'"
  by (auto simp: rows_ok_def size_of_def intro: spent_later)

text \<open>
  What the database looks like after writes of a room with the players \<open>ids\<close> and \<open>n\<close> questions:
  rows of players may be gone, and those of the room's players may have other totals, in range.
\<close>

definition row_from :: "uid set \<Rightarrow> nat \<Rightarrow> player_row list \<Rightarrow> player_row \<Rightarrow> bool" where
  "row_from ids n ps p' \<longleftrightarrow> (\<exists>p \<in> set ps. pr_id p' = pr_id p \<and> pr_roomID p' = pr_roomID p \<and>
     ((\<forall>m. row_in_range m p \<longrightarrow> row_in_range m p') \<or> pr_id p \<in> ids \<and> row_in_range n p'))"

definition written_by :: "pg \<Rightarrow> uid set \<Rightarrow> nat \<Rightarrow> db \<Rightarrow> db \<Rightarrow> bool" where
  "written_by pg ids n d d' \<longleftrightarrow> trips d \<le> trips d' \<and>
     map (\<lambda>r. (rr_id r, rr_questionIDs r)) (tb_rooms (tabs d')) = map (\<lambda>r. (rr_id r, rr_questionIDs r)) (tb_rooms (tabs d)) \<and>
     (distinct (map pr_id (tb_players (tabs d))) \<longrightarrow> distinct (map pr_id (tb_players (tabs d')))) \<and>
     (\<forall>p' \<in> set (tb_players (tabs d')). row_from ids n (tb_players (tabs d)) p')"

lemma row_from_refl: "p \<in> set ps \<Longrightarrow> row_from ids n ps p"
  by (auto simp: row_from_def)

lemma row_from_trans:
  assumes "row_from ids n ps' p''" "\<And>p'. p' \<in> set ps' \<Longrightarrow> row_from ids n ps p'"
  shows "row_from ids n ps p''"
proof -
  obtain p' where p': "p' \<in> set ps'" "pr_id p'' = pr_id p'" "pr_roomID p'' = pr_roomID p'"
    "(\<forall>m. row_in_range m p' \<longrightarrow> row_in_range m p'') \<or> pr_id p' \<in> ids \<and> row_in_range n p''"
    using assms(1) by (auto simp: row_from_def)
  then show ?thesis using assms(2) [OF p'(1)] unfolding row_from_def by force
qed

lemma written_refl [simp]: "written_by pg ids n d d"
  by (simp add: written_by_def row_from_refl)

lemma written_trans: "written_by pg ids n d d' \<Longrightarrow> written_by pg ids n d' d'' \<Longrightarrow> written_by pg ids n d d''"
  unfolding written_by_def by (auto intro: row_from_trans)

lemma size_of_keys:
  assumes "map (\<lambda>r. (rr_id r, rr_questionIDs r)) (tb_rooms t') = map (\<lambda>r. (rr_id r, rr_questionIDs r)) (tb_rooms t)"
  shows "size_of t' rid = size_of t rid"
proof -
  have "map_option (\<lambda>r. length (rr_questionIDs r)) (find (\<lambda>r. rr_id r = rid) rs') =
      map_option (\<lambda>r. length (rr_questionIDs r)) (find (\<lambda>r. rr_id r = rid) rs)"
    if "map (\<lambda>r. (rr_id r, rr_questionIDs r)) rs' = map (\<lambda>r. (rr_id r, rr_questionIDs r)) rs" for rs rs'
    using that by (induction rs' arbitrary: rs) (auto simp: map_eq_Cons_conv)
  then show ?thesis using assms by (simp add: size_of_def)
qed

lemma written_grows:
  assumes "written_by pg ids n d d'"
  shows "grows pg d d'"
proof -
  have "owns (tabs d') rid pid" if o: "owns (tabs d) rid pid" for rid pid
    unfolding owns_def
  proof (intro ballI impI)
    fix p'
    assume "p' \<in> set (tb_players (tabs d'))" and id: "pr_id p' = pid"
    then have "row_from ids n (tb_players (tabs d)) p'" using assms by (simp add: written_by_def)
    then obtain p where "p \<in> set (tb_players (tabs d))" "pr_id p' = pr_id p" "pr_roomID p' = pr_roomID p"
      by (auto simp: row_from_def)
    then show "pr_roomID p' = rid" using o id by (simp add: owns_def)
  qed
  then show ?thesis using assms size_of_keys [of "tabs d'" "tabs d"] by (simp add: written_by_def grows_def)
qed

lemma written_rows_ok:
  assumes w: "written_by pg ids n d d'" and "rows_ok pg d"
    and own: "\<And>pid. pid \<in> ids \<Longrightarrow> owns (tabs d) rid pid \<and> size_of (tabs d) rid = Some n"
  shows "rows_ok pg d'"
proof -
  have keys: "map (\<lambda>r. (rr_id r, rr_questionIDs r)) (tb_rooms (tabs d')) = map (\<lambda>r. (rr_id r, rr_questionIDs r)) (tb_rooms (tabs d))"
    using w by (simp add: written_by_def)
  have "map rr_questionIDs (tb_rooms (tabs d')) = map rr_questionIDs (tb_rooms (tabs d))"
    using arg_cong [OF keys, of "map snd"] by (simp add: o_def del: map_eq_conv)
  then have q: "rr_questionIDs ` set (tb_rooms (tabs d')) = rr_questionIDs ` set (tb_rooms (tabs d))"
    by (metis set_map)
  have "\<forall>x \<in> rr_questionIDs ` set (tb_rooms (tabs d)). length x \<le> 15" using assms(2) by (simp add: rows_ok_def)
  then have "\<forall>r \<in> set (tb_rooms (tabs d')). length (rr_questionIDs r) \<le> 15" unfolding q [symmetric] by simp
  moreover have "spent pg (trips d') (pr_id p') \<and> (\<exists>m. size_of (tabs d') (pr_roomID p') = Some m \<and> row_in_range m p')"
    if "p' \<in> set (tb_players (tabs d'))" for p'
  proof -
    have "row_from ids n (tb_players (tabs d)) p'" using that w by (simp add: written_by_def)
    then obtain p where p: "p \<in> set (tb_players (tabs d))" "pr_id p' = pr_id p" "pr_roomID p' = pr_roomID p"
      and c: "(\<forall>m. row_in_range m p \<longrightarrow> row_in_range m p') \<or> pr_id p \<in> ids \<and> row_in_range n p'"
      by (auto simp: row_from_def)
    have "\<exists>m. size_of (tabs d') (pr_roomID p') = Some m \<and> row_in_range m p'"
    proof (cases "pr_id p \<in> ids \<and> row_in_range n p'")
      case True
      then show ?thesis using p(3) own p(1) by (auto simp: size_of_keys [OF keys] owns_def)
    next
      case False
      then show ?thesis using assms(2) p c by (auto simp: rows_ok_def size_of_keys [OF keys])
    qed
    then show ?thesis using assms(2) p w by (auto simp: rows_ok_def written_by_def intro: spent_later)
  qed
  ultimately show ?thesis using assms(2) w by (simp add: rows_ok_def written_by_def)
qed

lemma written_exec:
  assumes "\<And>now t a t'. st now t = Inr (a, t') \<Longrightarrow>
      map (\<lambda>r. (rr_id r, rr_questionIDs r)) (tb_rooms t') = map (\<lambda>r. (rr_id r, rr_questionIDs r)) (tb_rooms t) \<and>
      (distinct (map pr_id (tb_players t)) \<longrightarrow> distinct (map pr_id (tb_players t'))) \<and>
      set (tb_players t') \<subseteq> set (tb_players t)"
  shows "written_by pg ids n d (snd (exec pg st d))"
proof -
  have "trips d \<le> trips (snd (exec pg st d))"
    by (simp add: exec_def Let_def split: fault.split sum.split prod.split)
  moreover have "tabs (snd (exec pg st d)) = tabs d \<or> (\<exists>now a. st now (tabs d) = Inr (a, tabs (snd (exec pg st d))))"
    by (auto simp: exec_def Let_def split: fault.split sum.split prod.split)
  ultimately show ?thesis
    using assms [of _ "tabs d"] by (auto simp: written_by_def intro!: row_from_refl)
qed

lemma written_statements:
  "written_by pg ids n d (snd (exec pg (DeletePlayerRow pid) d))"
  "written_by pg ids n d (snd (exec pg (MarkRoomStartedRow rid) d))"
  "written_by pg ids n d (snd (exec pg (MarkRoomEndedRow rid) d))"
  by (rule written_exec; auto simp: DeletePlayerRow_def MarkRoomStartedRow_def MarkRoomEndedRow_def Let_def
      intro: distinct_map_filter)+

lemma written_ops:
  "written_by pg ids n d (snd (DeletePlayer pg pid d))"
  "written_by pg ids n d (snd (MarkRoomStarted pg rid d))"
  "written_by pg ids n d (snd (MarkRoomEnded pg rid d))"
  using snd_exec_cases(1) [of pg pid d] snd_exec_cases(2,3) [of pg rid d] written_statements [of pg ids n d] by auto

lemma written_saves:
  assumes "saves pid r (tabs d) (tabs d')" "trips d \<le> trips d'" "result_in_range ids n r" "pid \<in> ids"
  shows "written_by pg ids n d d'"
proof -
  obtain now1 now2 k t2 where ins: "InsertAnswer (answerParams pid r) now1 (tabs d) = Inr (k, t2)" "k \<noteq> 0"
    and upd: "updateParams pid r now2 t2 = Inr ((), tabs d')"
    using assms(1) by (auto simp: saves_def)
  have t2: "t2 = tabs d\<lparr>tb_answers := tb_answers (tabs d) @ [answerParams pid r]\<rparr>"
    by (rule InsertAnswer_nonzero(1) [OF ins])
  have c: "toInt32 (rs_score r) = rs_score r" "toInt16 (rs_correctCount r) = rs_correctCount r"
    "toInt32 (rs_totalMs r) = rs_totalMs r" "toInt16 (rs_currentIndex r) = rs_currentIndex r"
    "toInt16 (rs_streak r) = rs_streak r"
    using assms(3) by (simp_all add: result_in_range_def toInt16_id toInt32_id)
  define f where "f = (\<lambda>p :: player_row. if pr_id p = pid
    then p\<lparr>pr_score := rs_score r, pr_correctCount := rs_correctCount r, pr_totalMs := rs_totalMs r,
           pr_currentIndex := rs_currentIndex r, pr_streak := rs_streak r,
           pr_finishedAt := (if rs_finished r then (case pr_finishedAt p of None \<Rightarrow> Some now2 | x \<Rightarrow> x)
                             else pr_finishedAt p)\<rparr> else p)"
  have "tabs d' = t2\<lparr>tb_players := map f (tb_players t2)\<rparr>"
    using upd unfolding updateParams_def c by (auto simp only: UpdatePlayerProgress_def f_def split: if_splits)
  then have d': "tb_players (tabs d') = map f (tb_players (tabs d))" "tb_rooms (tabs d') = tb_rooms (tabs d)"
    by (simp_all add: t2)
  have "row_from ids n (tb_players (tabs d)) (f p)" if "p \<in> set (tb_players (tabs d))" for p
    using that assms(3,4) by (intro row_from_def [THEN iffD2] bexI [of _ p]) (auto simp: f_def row_in_range_def result_in_range_def)
  moreover have "map pr_id (map f (tb_players (tabs d))) = map pr_id (tb_players (tabs d))" by (simp add: f_def)
  ultimately show ?thesis using assms(2) unfolding written_by_def d' by (auto simp: image_iff simp del: map_map)
qed

lemma written_SaveResult:
  assumes "result_in_range ids n r" "\<And>pid. pid \<in> ids \<Longrightarrow> canonical pg pid"
  shows "written_by pg ids n d (snd (SaveResult pg r d))"
proof -
  let ?d = "snd (SaveResult pg r d)"
  have id: "rs_playerID r \<in> ids" using assms(1) by (simp add: result_in_range_def)
  then have u: "uuid_parse pg (rs_playerID r) = Some (rs_playerID r)" using assms(2) by (simp add: canonical_def)
  have "tabs ?d = tabs d \<or> saves (rs_playerID r) r (tabs d) (tabs ?d)"
    using SaveResult_effect [OF u, of d] by (auto simp: save_outcome_def)
  then show ?thesis
  proof
    assume "tabs ?d = tabs d"
    then show ?thesis using SaveResult_trips [of d pg r] by (simp add: written_by_def row_from_refl)
  next
    assume "saves (rs_playerID r) r (tabs d) (tabs ?d)"
    then show ?thesis using SaveResult_trips assms(1) id by (rule written_saves)
  qed
qed

interpretation rw: room_writer "store_ops pg" "{pid \<in> ids. canonical pg pid}" n
    "written_by pg {pid \<in> ids. canonical pg pid} n d0" for pg ids n d0
proof
  fix res s
  assume r: "result_in_range {pid \<in> ids. canonical pg pid} n res"
    and w: "written_by pg {pid \<in> ids. canonical pg pid} n d0 s"
  have "written_by pg {pid \<in> ids. canonical pg pid} n s (snd (SaveResult pg res s))"
    by (rule written_SaveResult [OF r]) simp
  then show "written_by pg {pid \<in> ids. canonical pg pid} n d0 (snd (api_SaveResult (store_ops pg) res s))"
    using written_trans [OF w] by (simp add: store_ops_def)
qed (auto simp: store_ops_def intro: written_trans [OF _ written_ops(1)] written_trans [OF _ written_ops(2)]
  written_trans [OF _ written_ops(3)])

subsection \<open>What the handlers write\<close>

text \<open>A join leaves the tables alone or appends one row of a player with an id no one had before.\<close>

definition new_row :: "pg \<Rightarrow> db \<Rightarrow> db \<Rightarrow> player_row \<Rightarrow> bool" where
  "new_row pg d d' row \<longleftrightarrow> (\<exists>k. trips d \<le> k \<and> k < trips d' \<and> pr_id row = gen_uuid pg k) \<and>
     pr_id row \<notin> set (map pr_id (tb_players (tabs d))) \<and> pr_roomID row \<in> set (map rr_id (tb_rooms (tabs d))) \<and>
     (\<forall>n. row_in_range n row)"

definition join_writes :: "pg \<Rightarrow> db \<Rightarrow> 'a \<times> db \<Rightarrow> bool" where
  "join_writes pg d x \<longleftrightarrow> trips d \<le> trips (snd x) \<and> (tabs (snd x) = tabs d \<or>
     tb_rooms (tabs (snd x)) = tb_rooms (tabs d) \<and>
     (\<exists>row. tb_players (tabs (snd x)) = tb_players (tabs d) @ [row] \<and> new_row pg d (snd x) row))"

lemma join_writes_same: "tabs (snd x) = tabs d \<Longrightarrow> trips d \<le> trips (snd x) \<Longrightarrow> join_writes pg d x"
  by (simp add: join_writes_def)

lemma insert_and_commit_writes:
  fixes d2 :: db
  assumes d2: "trips d \<le> trips d2" "tabs d2 = tabs d"
  shows "join_writes pg d
    (case tx_exec pg (InsertPlayer (gen_uuid pg (trips d2)) params) (tabs d) d2 of
        (Inl UniqueViolation, d3) \<Rightarrow> (Inl NicknameTaken, d3)
      | (Inl _, d3) \<Rightarrow> (Inl (DbFailure ''insert player''), d3)
      | (Inr (pid, t2), d3) \<Rightarrow>
          (case tx_commit pg t2 d3 of
             (False, d4) \<Rightarrow> (Inl (DbFailure ''commit join''), d4)
           | (True, d4) \<Rightarrow> (Inr (f pid), d4)))"
proof (cases "tx_exec pg (InsertPlayer (gen_uuid pg (trips d2)) params) (tabs d) d2")
  case (Pair y d3)
  have d3: "tabs d3 = tabs d" "trips d3 = Suc (trips d2)"
    using tx_exec_tabs [OF Pair] tx_trips(1) [OF Pair] d2 by simp_all
  show ?thesis
  proof (cases y)
    case (Inl e)
    then show ?thesis using Pair d3 d2 by (auto intro!: join_writes_same split: db_error.split)
  next
    case (Inr z)
    obtain pid t2 where z: "z = (pid, t2)" by fastforce
    obtain now where n: "InsertPlayer (gen_uuid pg (trips d2)) params now (tabs d) = Inr (pid, t2)"
      using tx_exec_ok [OF Pair [unfolded Inr z]] by blast
    have room: "ip_roomID params \<in> set (map rr_id (tb_rooms (tabs d)))"
      using n by (auto simp: InsertPlayer_def split: if_splits)
    obtain row where row: "tb_players t2 = tb_players (tabs d) @ [row]" "pr_id row = gen_uuid pg (trips d2)"
      "pr_roomID row = ip_roomID params" "\<forall>n. row_in_range n row"
      using InsertPlayer_tables(1) [OF n] by (auto simp: row_in_range_def)
    note f = InsertPlayer_tables(2,3) [OF n]
    obtain ok d4 where c: "tx_commit pg t2 d3 = (ok, d4)" by fastforce
    have d4: "trips d4 = Suc (trips d3)" by (rule tx_trips(2) [OF c])
    have "tabs d4 = t2 \<or> tabs d4 = tabs d" using tx_commit_tabs [of pg t2 d3 d4] c d3 by (cases ok) auto
    moreover have "new_row pg d d4 row" if "tabs d4 = t2"
      using d2 d3 d4 row room f by (auto simp: new_row_def intro!: exI [of _ "trips d2"])
    ultimately have "join_writes pg d (x, d4)" for x :: "store_error + 'a"
      using d2 d3 d4 row f by (auto simp: join_writes_def)
    then show ?thesis using Pair Inr z c by (simp split: bool.split)
  qed
qed

lemma insertPlayer_writes:
  fixes d1 :: db
  assumes d1: "trips d \<le> trips d1" "tabs d1 = tabs d"
  shows "join_writes pg d (insertPlayer pg (tabs d) rid i d1)"
proof (cases "np_schoolID i")
  case None
  show ?thesis unfolding insertPlayer_def None option.case prod.case sum.case
    by (rule insert_and_commit_writes [OF d1])
next
  case (Some sid)
  show ?thesis
  proof (cases "tx_exec pg (GetSchoolName (toInt32 sid)) (tabs d) d1")
    case (Pair y d2)
    have d2: "trips d \<le> trips d2" "tabs d2 = tabs d" using tx_exec_tabs [OF Pair] tx_trips(1) [OF Pair] d1 by simp_all
    show ?thesis
    proof (cases y)
      case (Inl e)
      then show ?thesis using Pair Some d2 by (simp add: insertPlayer_def join_writes_same)
    next
      case (Inr z)
      obtain a t1 where z: "z = (a, t1)" by fastforce
      have "t1 = tabs d" using tx_reads [OF Pair [unfolded Inr z]] by simp
      then show ?thesis using insert_and_commit_writes [OF d2, of pg] Pair Some Inr z by (simp add: insertPlayer_def)
    qed
  qed
qed

lemma JoinRoom_writes: "join_writes pg d (JoinRoom pg i d)"
proof (cases "uuid_parse pg (np_roomID i)")
  case (Some rid)
  let ?P = "join_writes pg d :: (store_error + player) \<times> db \<Rightarrow> bool"
  show ?thesis
    unfolding JoinRoom_def Some option.case
  proof (rule tx_begin_split [where P = ?P], simp add: join_writes_same,
      rule tx_exec_split_at [where P = ?P], simp add: join_writes_same, unfold prod.case)
    fix d1 d2 :: db and a t2
    assume d: "tabs d1 = tabs d" "trips d1 = Suc (trips d)" "tabs d2 = tabs d1" "trips d2 = Suc (trips d1)"
      and l: "LockRoomForJoin rid (server_now pg (trips d1)) (tabs d) = Inr (a, t2)"
    have t2: "t2 = tabs d" using l by (auto simp: LockRoomForJoin_def split: option.splits)
    show "?P (case tx_exec pg (CountRoomPlayers rid) t2 d2 of
        (Inl _, d3) \<Rightarrow> (Inl (DbFailure ''count players''), d3)
      | (Inr (n, t3), d3) \<Rightarrow> if MaxPlayersInRoom \<le> n then (Inl RoomFull, d3)
          else insertPlayer pg t3 rid i d3)"
      unfolding t2 using d insertPlayer_writes [of d _ pg rid i]
      by - (rule tx_exec_split_at [where P = ?P], auto simp: join_writes_same CountRoomPlayers_def)
  qed
qed (simp add: JoinRoom_def join_writes_same)

text \<open>
  The store calls of the REST handlers, one at a time and in any order: a join, a new room (the
  handler passes at most 15 questions), or a call that leaves rooms and players alone, as the logins,
  the reads, the registration of a host and the seeding do.
\<close>

inductive handler_call :: "pg \<Rightarrow> db \<Rightarrow> db \<Rightarrow> bool" for pg where
  join: "handler_call pg d (snd (JoinRoom pg np d))"
| create: "length (nr_questionIDs nr) \<le> 15 \<Longrightarrow> handler_call pg d (snd (CreateRoom pg random nr d))"
| elsewhere: "tb_rooms (tabs d') = tb_rooms (tabs d) \<Longrightarrow> tb_players (tabs d') = tb_players (tabs d) \<Longrightarrow>
     trips d \<le> trips d' \<Longrightarrow> handler_call pg d d'"

lemma size_of_some: "rid \<in> set (map rr_id (tb_rooms t)) \<Longrightarrow> \<exists>n. size_of t rid = Some n"
proof -
  assume "rid \<in> set (map rr_id (tb_rooms t))"
  then obtain r where "r \<in> set (tb_rooms t)" "rr_id r = rid" by auto
  then have "find (\<lambda>r. rr_id r = rid) (tb_rooms t) \<noteq> None" by (auto simp: find_None_iff)
  then show ?thesis by (auto simp: size_of_def)
qed

lemma join_serves:
  assumes "join_writes pg d x" "rows_ok pg d" "uuid_laws pg"
  shows "grows pg d (snd x) \<and> rows_ok pg (snd x)"
proof (cases "tabs (snd x) = tabs d")
  case True
  then show ?thesis
    using assms(1,2) grows_same [of "snd x" d pg] rows_ok_same [of "snd x" d pg] by (simp add: join_writes_def)
next
  case False
  then obtain row k where t: "trips d \<le> trips (snd x)" "tb_rooms (tabs (snd x)) = tb_rooms (tabs d)"
      "tb_players (tabs (snd x)) = tb_players (tabs d) @ [row]"
    and row: "pr_id row \<notin> set (map pr_id (tb_players (tabs d)))" "pr_roomID row \<in> set (map rr_id (tb_rooms (tabs d)))"
      "\<forall>n. row_in_range n row"
    and k: "trips d \<le> k" "k < trips (snd x)" "pr_id row = gen_uuid pg k"
    using assms(1) by (auto simp: join_writes_def new_row_def)
  have sp: "spent pg (trips (snd x)) (pr_id row)"
    using assms(3) k by (auto simp: spent_def uuid_laws_def dest: injD)
  have size: "size_of (tabs (snd x)) rid = size_of (tabs d) rid" for rid using t by (simp add: size_of_def)
  obtain n where "size_of (tabs d) (pr_roomID row) = Some n" using size_of_some [OF row(2)] by blast
  then have "rows_ok pg (snd x)"
    using assms(2) t row sp size unfolding rows_ok_def by (auto intro: spent_later)
  moreover have "owns (tabs (snd x)) rid pid" if "spent pg (trips d) pid" "owns (tabs d) rid pid" for rid pid
    using that k t by (auto simp: owns_def spent_def)
  ultimately show ?thesis using t size by (auto simp: grows_def)
qed

lemma create_serves:
  assumes "length (nr_questionIDs nr) \<le> 15" "rows_ok pg d"
  shows "grows pg d (snd (CreateRoom pg random nr d)) \<and> rows_ok pg (snd (CreateRoom pg random nr d))"
proof (cases "uuid_parse pg (nr_hostID nr)")
  case None
  then show ?thesis using assms(2) by (simp add: CreateRoom_def)
next
  case (Some hostID)
  let ?d = "snd (CreateRoom pg random nr d)"
  have o: "create_outcome pg (trips d) hostID nr (tabs d) (CreateRoom pg random nr d)" by (rule CreateRoom_outcome [OF Some])
  have t: "trips d \<le> trips ?d" using o by (simp add: create_outcome_def)
  show ?thesis
  proof (cases "tabs ?d = tabs d")
    case True
    then show ?thesis using t assms(2) grows_same [of ?d d pg] rows_ok_same [of ?d d pg] by simp
  next
    case False
    then obtain rid pin where "creates pg (trips d) (trips ?d) hostID pin nr (tabs d) rid (tabs ?d)"
      using o by (auto simp: create_outcome_def split: sum.splits)
    then obtain now where n: "InsertRoom rid (create_params hostID pin nr) now (tabs d) = Inr (rid, tabs ?d)"
      by (auto simp: creates_def)
    obtain row where r: "tb_rooms (tabs ?d) = tb_rooms (tabs d) @ [row]" "rr_questionIDs row = nr_questionIDs nr"
      using InsertRoom_tables(1) [OF n] by (auto simp: create_params_def)
    have p: "tb_players (tabs ?d) = tb_players (tabs d)" using InsertRoom_tables(2) [OF n] by simp
    have "find P xs = Some y \<Longrightarrow> find P (xs @ [row]) = Some y" for P y and xs
      by (induction xs) auto
    then have size: "size_of (tabs d) x = Some m \<Longrightarrow> size_of (tabs ?d) x = Some m" for x m
      using r by (auto simp: size_of_def)
    then have "rows_ok pg ?d"
      using assms p r t unfolding rows_ok_def by (auto intro: spent_later)
    then show ?thesis using size t p by (simp add: grows_def owns_def)
  qed
qed

lemma handler_serves:
  assumes "handler_call pg d d'" "rows_ok pg d" "uuid_laws pg"
  shows "grows pg d d' \<and> rows_ok pg d'"
  using assms(1)
proof cases
  case (join np)
  then show ?thesis using join_serves [OF JoinRoom_writes assms(2,3)] by simp
next
  case (create nr random)
  then show ?thesis using create_serves [OF _ assms(2)] by simp
next
  case elsewhere
  then show ?thesis using grows_same rows_ok_same assms(2) by blast
qed

subsection \<open>The whole program\<close>

text \<open>
  A step of the program: a request for a room begins or takes its next step, a room takes an event
  or leaves, a handler calls the store, or Redis changes. The join handler passes a player on to the
  room only after \<open>JoinRoom\<close> put the player's row there.
\<close>

definition joined_to :: "pg \<Rightarrow> db \<Rightarrow> uid \<Rightarrow> player \<Rightarrow> bool" where
  "joined_to pg d rid p \<longleftrightarrow> spent pg (trips d) (pl_id p) \<and> owns (tabs d) rid (pl_id p)"

inductive serving_step :: "pg \<Rightarrow> (db, 'b) deps \<Rightarrow> (db, 'b) server \<Rightarrow> (db, 'b) server \<Rightarrow> bool" for pg d where
  ask: "sv_gets sv i = None \<Longrightarrow> serving_step pg d sv (sv\<lparr>sv_gets := (sv_gets sv)(i \<mapsto> GetLookup roomID)\<rparr>)"
| get: "sv_gets sv i = Some g \<Longrightarrow> get_step d g sv = (g', sv') \<Longrightarrow>
     serving_step pg d sv (sv'\<lparr>sv_gets := (sv_gets sv')(i \<mapsto> g')\<rparr>)"
| event: "sv_heap sv h = Some \<lparr>lr_room = r, lr_leaving = False\<rparr> \<Longrightarrow> enabled d ev (loaded sv r) \<Longrightarrow>
     (\<And>p. ev = EvAddPlayer p \<Longrightarrow> joined_to pg (sv_store sv) (r_id r) p) \<Longrightarrow>
     serving_step pg d sv (room_event d h ev r sv)"
| leave: "sv_heap sv h = Some \<lparr>lr_room = r, lr_leaving = True\<rparr> \<Longrightarrow> \<not> r_done r \<Longrightarrow>
     serving_step pg d sv (room_leaves h r sv)"
| request: "handler_call pg (sv_store sv) s \<Longrightarrow>
     serving_step pg d sv (sv\<lparr>sv_store := s, sv_board := b, sv_tick := Suc (sv_tick sv)\<rparr>)"

inductive serving_steps :: "pg \<Rightarrow> (db, 'b) deps \<Rightarrow> (db, 'b) server \<Rightarrow> (db, 'b) server \<Rightarrow> bool" for pg d where
  refl: "serving_steps pg d sv sv"
| step: "serving_steps pg d sv sv' \<Longrightarrow> serving_step pg d sv' sv'' \<Longrightarrow> serving_steps pg d sv sv''"

text \<open>These are steps of the server of \<open>Registry\<close>, whose theorems so hold here too.\<close>

lemma serving_server: "serving_step pg d sv sv' \<Longrightarrow> server_step d sv sv'"
  by (induction rule: serving_step.induct) (auto intro: server_step.intros)

lemma serving_servers: "serving_steps pg d sv sv' \<Longrightarrow> server_steps d sv sv'"
  by (induction rule: serving_steps.induct) (auto intro: server_steps.intros serving_server)

subsection \<open>The invariant\<close>

definition room_held :: "pg \<Rightarrow> db \<Rightarrow> ('s, 'b) room \<Rightarrow> bool" where
  "room_held pg s r \<longleftrightarrow> size_of (tabs s) (r_id r) = Some (length (r_questions r)) \<and>
     length (r_questions r) \<le> 15 \<and>
     (\<forall>pid \<in> dom (player_of r). spent pg (trips s) pid \<and> owns (tabs s) (r_id r) pid)"

definition players_held :: "pg \<Rightarrow> db \<Rightarrow> uid \<Rightarrow> nat \<Rightarrow> player list \<Rightarrow> bool" where
  "players_held pg s rid n ps \<longleftrightarrow>
     (\<forall>p \<in> set ps. spent pg (trips s) (pl_id p) \<and> owns (tabs s) rid (pl_id p) \<and> totals_ok n (new_player_state p))"

definition data_held :: "db \<Rightarrow> room_data \<Rightarrow> bool" where
  "data_held s data \<longleftrightarrow> size_of (tabs s) (rd_id data) = Some (length (rd_questionIDs data)) \<and>
     length (rd_questionIDs data) \<le> 15 \<and> rd_status data \<noteq> Ended"

text \<open>What a request that is under way has read.\<close>

fun get_held :: "pg \<Rightarrow> db \<Rightarrow> getting \<Rightarrow> bool" where
  "get_held pg s (GetPlayers roomID data) \<longleftrightarrow> data_held s data \<and> uuid_parse pg roomID = Some (rd_id data)"
| "get_held pg s (GetQuestions data ps) \<longleftrightarrow>
     data_held s data \<and> players_held pg s (rd_id data) (length (rd_questionIDs data)) ps"
| "get_held pg s (GetSpawn data ps qs) \<longleftrightarrow>
     data_held s data \<and> players_held pg s (rd_id data) (length (rd_questionIDs data)) ps \<and>
     length qs = length (rd_questionIDs data)"
| "get_held pg s _ \<longleftrightarrow> True"

definition instance_ok :: "pg \<Rightarrow> (db, 'b) deps \<Rightarrow> (db, 'b) server \<Rightarrow> (db, 'b) live_room \<Rightarrow> bool" where
  "instance_ok pg d sv i \<longleftrightarrow>
     room_inv d (if lr_leaving i then (lr_room i)\<lparr>r_done := True\<rparr> else lr_room i) \<and> room_held pg (sv_store sv) (lr_room i) \<and>
     r_tick (lr_room i) \<le> sv_tick sv \<and> (\<not> lr_leaving i \<longrightarrow> r_status (lr_room i) \<noteq> Ended)"

definition serving_inv :: "pg \<Rightarrow> (db, 'b) deps \<Rightarrow> (db, 'b) server \<Rightarrow> bool" where
  "serving_inv pg d sv \<longleftrightarrow> rows_ok pg (sv_store sv) \<and>
     (\<forall>h i. sv_heap sv h = Some i \<longrightarrow> instance_ok pg d sv i) \<and>
     (\<forall>k g. sv_gets sv k = Some g \<longrightarrow> get_held pg (sv_store sv) g)"

lemma room_held_grows: "grows pg s s' \<Longrightarrow> room_held pg s r \<Longrightarrow> room_held pg s' r"
  by (auto simp: grows_def room_held_def intro: spent_later)

lemma players_held_grows: "grows pg s s' \<Longrightarrow> players_held pg s rid n ps \<Longrightarrow> players_held pg s' rid n ps"
  by (auto simp: grows_def players_held_def intro: spent_later)

lemma get_held_grows: "grows pg s s' \<Longrightarrow> get_held pg s g \<Longrightarrow> get_held pg s' g"
  by (cases g) (auto simp: data_held_def players_held_grows, auto simp: grows_def)

lemma instance_ok_grows:
  "grows pg (sv_store sv) (sv_store sv') \<Longrightarrow> sv_tick sv \<le> sv_tick sv' \<Longrightarrow> instance_ok pg d sv i \<Longrightarrow>
   instance_ok pg d sv' i"
  using room_held_grows by (auto simp: instance_ok_def)

text \<open>A step that leaves the rooms and the requests alone.\<close>

lemma serving_inv_store:
  assumes "serving_inv pg d sv" "grows pg (sv_store sv) (sv_store sv')" "rows_ok pg (sv_store sv')"
    and "sv_heap sv' = sv_heap sv" "sv_gets sv' = sv_gets sv" "sv_tick sv \<le> sv_tick sv'"
  shows "serving_inv pg d sv'"
  using assms instance_ok_grows [OF assms(2,6)] get_held_grows [OF assms(2)] by (auto simp: serving_inv_def)

lemma room_inv_loaded:
  assumes "mono (d_clock d)" "room_inv d r" "r_tick r \<le> sv_tick sv"
  shows "room_inv d (loaded sv r)"
proof -
  have c: "d_clock d (r_tick r) \<le> d_clock d (sv_tick sv)" using assms(1,3) by (simp add: monoD)
  have p: "player_of (loaded sv r) = player_of r" by (simp add: loaded_def player_of_def fun_eq_iff)
  have "player_ok d (loaded sv r) pid x" if "player_ok d r pid x" for pid x
    using player_ok_later [OF that assms(1), of "loaded sv r"] assms(3) by (simp add: loaded_def)
  moreover have "lb_ok d (loaded sv r)" if "lb_ok d r"
    using that c by (fastforce simp: lb_ok_def loaded_def)
  ultimately show ?thesis
    using assms(2) unfolding room_inv_def p by (auto simp: loaded_def order_ok_def status_ok_def)
qed

lemma serving_inv_event:
  assumes inv: "serving_inv pg d sv" and m: "mono (d_clock d)" and st: "d_store d = store_ops pg"
    and h: "sv_heap sv h = Some \<lparr>lr_room = r, lr_leaving = False\<rparr>" and en: "enabled d ev (loaded sv r)"
    and new: "\<And>p. ev = EvAddPlayer p \<Longrightarrow> joined_to pg (sv_store sv) (r_id r) p"
  shows "serving_inv pg d (room_event d h ev r sv)"
proof -
  let ?s = "sv_store sv" and ?r = "loaded sv r" and ?n = "length (r_questions r)"
  let ?ids = "{pid. spent pg (trips ?s) pid \<and> owns (tabs ?s) (r_id r) pid}"
  let ?can = "{pid \<in> ?ids. canonical pg pid}"
  let ?r' = "handle d ev ?r"
  have ok: "room_inv d r" "room_held pg ?s r" "r_tick r \<le> sv_tick sv" "r_status r \<noteq> Ended"
    using inv h spec [of _ "\<lparr>lr_room = r, lr_leaving = False\<rparr>"] by (fastforce simp: serving_inv_def instance_ok_def)+
  have can: "?can = ?ids" by (auto simp: canonical_def spent_def)
  have p: "player_of ?r = player_of r" by (simp add: loaded_def player_of_def fun_eq_iff)
  have i: "room_inv d ?r" by (rule room_inv_loaded [OF m ok(1,3)])
  have w: "writes_ok ?can ?n (written_by pg ?can ?n ?s) (sv_tick sv) ?r"
    using ok(2) unfolding can writes_ok_def p by (auto simp: room_held_def loaded_def)
  have live: "r_status ?r \<noteq> Ended" using ok(4) by (simp add: loaded_def)
  have w': "writes_ok ?can ?n (written_by pg ?can ?n ?s) (sv_tick sv) ?r'"
    by (rule rw.writes_handle [OF st w i m live]) (use new in \<open>auto simp: joined_to_def canonical_def spent_def\<close>)
  have i': "room_inv d ?r'" using room_inv_handle [OF m i live en] .
  have f: "r_id ?r' = r_id r" "r_questions ?r' = r_questions r"
    using same_room_handle [of ?r d ev] by (simp_all add: same_room_def loaded_def)
  have g: "grows pg ?s (r_store ?r')" using w' written_grows by (auto simp: writes_ok_def)
  have rows: "rows_ok pg (r_store ?r')"
  proof (rule written_rows_ok)
    show "written_by pg ?can ?n ?s (r_store ?r')" using w' by (simp add: writes_ok_def)
    show "rows_ok pg ?s" using inv by (simp add: serving_inv_def)
    show "owns (tabs ?s) (r_id r) pid \<and> size_of (tabs ?s) (r_id r) = Some ?n" if "pid \<in> ?can" for pid
      using that ok(2) by (simp add: room_held_def)
  qed
  have held: "room_held pg (r_store ?r') x" if "r_id x = r_id ?r'" "r_questions x = r_questions ?r'"
      "player_of x = player_of ?r'" for x :: "(db, 'a) room"
    using that w' f g ok(2) unfolding room_held_def writes_ok_def can
    by (auto simp: grows_def intro: spent_later)
  have tick: "sv_tick sv \<le> r_tick ?r'" using w' by (simp add: writes_ok_def)
  have put: "serving_inv pg d (put_room h x b sv)"
    if x: "instance_ok pg d (put_room h x b sv) \<lparr>lr_room = x, lr_leaving = b\<rparr>"
      "r_store x = r_store ?r'" "r_tick x = r_tick ?r'" for x b
  proof -
    let ?sv = "put_room h x b sv"
    have s: "sv_store ?sv = r_store ?r'" "sv_tick ?sv = r_tick ?r'" "sv_gets ?sv = sv_gets sv"
      "sv_heap ?sv = (sv_heap sv)(h \<mapsto> \<lparr>lr_room = x, lr_leaving = b\<rparr>)"
      using that by (simp_all add: put_room_def)
    show ?thesis
      using inv x rows get_held_grows [OF g] instance_ok_grows [of pg sv ?sv d] g tick
      unfolding serving_inv_def s by auto
  qed
  show ?thesis
  proof (cases "r_status ?r' = Ended \<or> ev = EvShutdown")
    case True
    have "instance_ok pg d (put_room h (stopTimers ?r') True sv) \<lparr>lr_room = stopTimers ?r', lr_leaving = True\<rparr>"
      using room_inv_leave [OF i'] held [of "stopTimers ?r'"]
      by (simp add: instance_ok_def put_room_def stopTimers_def player_of_def fun_eq_iff)
    then have "serving_inv pg d (put_room h (stopTimers ?r') True sv)"
      by (rule put) (simp_all add: stopTimers_def)
    then show ?thesis using True by (simp add: room_event_def Let_def)
  next
    case False
    have "instance_ok pg d (put_room h ?r' False sv) \<lparr>lr_room = ?r', lr_leaving = False\<rparr>"
      using i' held [of ?r'] False by (simp add: instance_ok_def put_room_def)
    then have "serving_inv pg d (put_room h ?r' False sv)" by (rule put) simp_all
    then show ?thesis using False by (simp add: room_event_def Let_def)
  qed
qed

lemma serving_inv_leave:
  assumes inv: "serving_inv pg d sv" and h: "sv_heap sv h = Some \<lparr>lr_room = r, lr_leaving = True\<rparr>"
  shows "serving_inv pg d (room_leaves h r sv)"
proof -
  let ?i = "\<lparr>lr_room = r\<lparr>r_done := True\<rparr>, lr_leaving = True\<rparr>"
  have s: "sv_store (room_leaves h r sv) = sv_store sv" "sv_tick (room_leaves h r sv) = sv_tick sv"
    "sv_gets (room_leaves h r sv) = sv_gets sv" "sv_heap (room_leaves h r sv) = (sv_heap sv)(h \<mapsto> ?i)"
    by (simp_all add: room_leaves_def forget_def)
  have same: "instance_ok pg d (room_leaves h r sv) i = instance_ok pg d sv i" for i
    by (simp add: instance_ok_def s)
  have "instance_ok pg d sv \<lparr>lr_room = r, lr_leaving = True\<rparr>" using inv h by (simp add: serving_inv_def)
  then have "instance_ok pg d sv ?i" by (simp add: instance_ok_def room_held_def player_of_def fun_eq_iff dom_def)
  then show ?thesis using inv unfolding serving_inv_def s same by auto
qed

subsection \<open>Loading a room\<close>

lemma exec_reads:
  assumes "exec pg st d = (x, d')" "reads st"
  shows "tabs d' = tabs d \<and> trips d \<le> trips d' \<and> (\<forall>a. x = Inr a \<longrightarrow> (\<exists>now. st now (tabs d) = Inr (a, tabs d)))"
  using assms by (auto simp: exec_def Let_def reads_def split: fault.splits sum.splits prod.splits if_splits) blast+

lemma RoomByID_reads:
  assumes "RoomByID pg roomID d = (res, d')"
  shows "tabs d' = tabs d \<and> trips d \<le> trips d'"
    and "res = Inr data \<Longrightarrow> uuid_parse pg roomID = Some (rd_id data) \<and> (\<exists>row \<in> set (tb_rooms (tabs d)).
       find (\<lambda>r. rr_id r = rd_id data) (tb_rooms (tabs d)) = Some row \<and> rd_questionIDs data = rr_questionIDs row)"
proof -
  show "tabs d' = tabs d \<and> trips d \<le> trips d'"
    using assms by (auto simp: RoomByID_def dest!: exec_reads split: option.splits prod.splits sum.splits)
  assume "res = Inr data"
  then obtain rid row where "uuid_parse pg roomID = Some rid" "find (\<lambda>r. rr_id r = rid) (tb_rooms (tabs d)) = Some row"
    "data = roomFromRow row"
    using assms by (auto simp: RoomByID_def GetRoomByID_def dest!: exec_reads split: option.splits prod.splits sum.splits)
  moreover from this have "rr_id row = rid" "row \<in> set (tb_rooms (tabs d))" by (auto simp: find_Some_iff)
  ultimately show "uuid_parse pg roomID = Some (rd_id data) \<and> (\<exists>row \<in> set (tb_rooms (tabs d)).
       find (\<lambda>r. rr_id r = rd_id data) (tb_rooms (tabs d)) = Some row \<and> rd_questionIDs data = rr_questionIDs row)"
    by (auto simp: roomFromRow_def)
qed

lemma PlayersOfRoom_reads:
  assumes "PlayersOfRoom pg roomID d = (res, d')"
  shows "tabs d' = tabs d \<and> trips d \<le> trips d'"
    and "res = Inr ps \<Longrightarrow> uuid_parse pg roomID = Some rid \<Longrightarrow> p \<in> set ps \<Longrightarrow>
      \<exists>row \<in> set (tb_players (tabs d)). pr_roomID row = rid \<and> pl_id p = pr_id row \<and> pl_streak p = pr_streak row \<and>
        pl_correctCount p = pr_correctCount row \<and> pl_currentIndex p = pr_currentIndex row \<and>
        pl_score p = pr_score row \<and> pl_totalMs p = pr_totalMs row"
proof -
  show "tabs d' = tabs d \<and> trips d \<le> trips d'"
    using assms by (auto simp: PlayersOfRoom_def dest!: exec_reads split: option.splits prod.splits sum.splits)
  assume "res = Inr ps" "uuid_parse pg roomID = Some rid" and p: "p \<in> set ps"
  then obtain rows where r: "ListRoomPlayers rid now (tabs d) = Inr (rows, tabs d)" "ps = map playerFromRow rows" for now
    using assms by (auto simp: PlayersOfRoom_def ListRoomPlayers_def dest!: exec_reads split: prod.splits sum.splits)
  then show "\<exists>row \<in> set (tb_players (tabs d)). pr_roomID row = rid \<and> pl_id p = pr_id row \<and> pl_streak p = pr_streak row \<and>
      pl_correctCount p = pr_correctCount row \<and> pl_currentIndex p = pr_currentIndex row \<and>
      pl_score p = pr_score row \<and> pl_totalMs p = pr_totalMs row"
    using p by (force simp: ListRoomPlayers_def playerFromRow_def)
qed

lemma order_questions_length: "order_questions ids m = Inr qs \<Longrightarrow> length qs = length ids"
  by (induction ids arbitrary: qs) (auto split: option.splits sum.splits)

lemma QuestionsByIDs_reads:
  assumes "QuestionsByIDs pg ids d = (res, d')"
  shows "tabs d' = tabs d \<and> trips d \<le> trips d'" and "res = Inr qs \<Longrightarrow> length qs = length ids"
  using assms by (auto simp: QuestionsByIDs_def order_questions_length dest!: exec_reads split: prod.splits sum.splits)

lemma players_held_reads:
  assumes "PlayersOfRoom pg roomID d = (Inr ps, d')" "uuid_parse pg roomID = Some rid" "rows_ok pg d"
    and "size_of (tabs d) rid = Some n"
  shows "players_held pg d rid n ps"
  unfolding players_held_def
proof (intro ballI conjI)
  fix p
  assume "p \<in> set ps"
  then obtain row where row: "row \<in> set (tb_players (tabs d))" "pr_roomID row = rid" "pl_id p = pr_id row"
    and t: "pl_streak p = pr_streak row" "pl_correctCount p = pr_correctCount row"
      "pl_currentIndex p = pr_currentIndex row" "pl_score p = pr_score row" "pl_totalMs p = pr_totalMs row"
    using PlayersOfRoom_reads(2) [OF assms(1) HOL.refl assms(2)] by blast
  show "spent pg (trips d) (pl_id p)" using assms(3) row by (auto simp: rows_ok_def)
  have "inj_on pr_id (set (tb_players (tabs d)))" using assms(3) by (simp add: rows_ok_def distinct_map)
  then show "owns (tabs d) rid (pl_id p)" using row by (auto simp: owns_def dest: inj_onD)
  have "row_in_range n row" using assms(3,4) row(1,2) by (auto simp: rows_ok_def)
  then show "totals_ok n (new_player_state p)" by (simp add: totals_ok_def new_player_state_def row_in_range_def t)
qed

lemma room_inv_spawned:
  assumes "mono (d_clock d)" "players_loaded_ok qs ps"
  shows "room_inv d ((newRoom (deps_now d sv) data ps qs s b)\<lparr>r_tick := sv_tick sv + r_tick (newRoom (deps_now d sv) data ps qs s b)\<rparr>)"
proof -
  have "mono (d_clock (deps_now d sv))" using assms(1) by (auto simp: deps_now_def mono_def)
  then have "room_inv (deps_now d sv) (newRoom (deps_now d sv) data ps qs s b)" using assms(2) by (rule room_inv_newRoom)
  moreover have "room_inv d (r\<lparr>r_tick := sv_tick sv + r_tick r\<rparr>) = room_inv (deps_now d sv) r" for r :: "('a, 'b) room"
    by (simp add: room_inv_def order_ok_def status_ok_def player_ok_def active_ok_def lb_ok_def deps_now_def
        player_of_def)
  ultimately show ?thesis by simp
qed

lemma spawn_serves:
  assumes inv: "serving_inv pg d sv" and m: "mono (d_clock d)" and g: "get_held pg (sv_store sv) (GetSpawn data ps qs)"
    and x: "spawn d data ps qs sv = (h, sv')"
  shows "serving_inv pg d sv' \<and> sv_store sv' = sv_store sv"
proof (cases "sv_rooms sv (rd_id data)")
  case (Some k)
  then show ?thesis using x inv by (simp add: spawn_def)
next
  case None
  let ?n = "newRoom (deps_now d sv) data ps qs (sv_store sv) (sv_board sv)"
  let ?r = "?n\<lparr>r_tick := sv_tick sv + r_tick ?n\<rparr>"
  let ?i = "\<lparr>lr_room = ?r, lr_leaving = False\<rparr>"
  have s: "sv_store sv' = sv_store sv" "sv_gets sv' = sv_gets sv" "sv_tick sv' = r_tick ?r"
    "sv_heap sv' = (sv_heap sv)(sv_next sv \<mapsto> ?i)"
    using x None by (auto simp: spawn_def Let_def)
  have loaded: "players_loaded_ok qs ps"
    using g by (simp add: players_loaded_ok_def list_all_iff players_held_def)
  have p: "player_of ?r = player_of ?n" by (simp add: player_of_def fun_eq_iff)
  have "room_held pg (sv_store sv) ?r"
    using g dom_newRoom [of "deps_now d sv" data ps qs "sv_store sv" "sv_board sv"]
    unfolding room_held_def p by (auto simp: newRoom_fields data_held_def players_held_def)
  then have new: "instance_ok pg d sv' ?i"
    using room_inv_spawned [OF m loaded] g by (simp add: instance_ok_def s newRoom_fields data_held_def)
  have "instance_ok pg d sv' j" if "sv_heap sv k = Some j" for k j
    using inv that s by (intro instance_ok_grows [of pg sv sv' d j]) (auto simp: serving_inv_def)
  then show ?thesis using inv new s by (auto simp: serving_inv_def)
qed

lemma get_step_serves:
  assumes inv: "serving_inv pg d sv" and m: "mono (d_clock d)" and st: "d_store d = store_ops pg"
    and g: "get_held pg (sv_store sv) g" and x: "get_step d g sv = (g', sv')"
  shows "serving_inv pg d sv' \<and> get_held pg (sv_store sv') g'"
proof -
  have rows: "rows_ok pg (sv_store sv)" using inv by (simp add: serving_inv_def)
  have read: "serving_inv pg d v \<and> grows pg (sv_store sv) (sv_store v)"
    if "tabs (sv_store v) = tabs (sv_store sv)" "trips (sv_store sv) \<le> trips (sv_store v)"
      "sv_heap v = sv_heap sv" "sv_gets v = sv_gets sv" "sv_tick sv \<le> sv_tick v" for v :: "(db, 'a) server"
  proof -
    have "grows pg (sv_store sv) (sv_store v)" using that by (intro grows_same) simp_all
    moreover have "rows_ok pg (sv_store v)" using that rows by (intro rows_ok_same [OF _ _ _ rows]) simp_all
    ultimately show ?thesis using serving_inv_store [OF inv] that by blast
  qed
  show ?thesis
  proof (cases g)
    case (GetLookup roomID)
    then show ?thesis using x inv by (auto split: option.splits)
  next
    case (GetRoom roomID)
    obtain res s where y: "RoomByID pg roomID (sv_store sv) = (res, s)" by fastforce
    note f = RoomByID_reads(1) [OF y]
    have inv1: "serving_inv pg d (sv\<lparr>sv_store := s\<rparr>)" "serving_inv pg d (sv\<lparr>sv_store := s, sv_tick := Suc (sv_tick sv)\<rparr>)"
      using read [of "sv\<lparr>sv_store := s\<rparr>"] read [of "sv\<lparr>sv_store := s, sv_tick := Suc (sv_tick sv)\<rparr>"] f by simp_all
    show ?thesis
    proof (cases res)
      case (Inl e)
      then show ?thesis using x y GetRoom inv1 by (auto simp: st store_ops_def)
    next
      case (Inr data)
      have held: "data_held s data" if "rd_status data \<noteq> Ended"
        using RoomByID_reads(2) [OF y Inr] rows f that by (auto simp: data_held_def size_of_def rows_ok_def)
      show ?thesis
        using x y GetRoom Inr inv1 held RoomByID_reads(2) [OF y Inr]
        by (auto simp: st store_ops_def Let_def split: if_splits)
    qed
  next
    case (GetExpired roomID)
    obtain err s where y: "MarkRoomEnded pg roomID (sv_store sv) = (err, s)" by fastforce
    have w: "written_by pg {} 0 (sv_store sv) s" using written_ops(3) [of pg "{}" 0 "sv_store sv" roomID] y by simp
    have "serving_inv pg d (sv\<lparr>sv_store := s\<rparr>)"
      using written_grows [OF w] written_rows_ok [OF w rows] by (intro serving_inv_store [OF inv]) simp_all
    then show ?thesis using x y GetExpired by (auto simp: st store_ops_def Let_def split: option.splits)
  next
    case (GetPlayers roomID data)
    obtain res s where y: "PlayersOfRoom pg roomID (sv_store sv) = (res, s)" by fastforce
    have r: "serving_inv pg d (sv\<lparr>sv_store := s\<rparr>)" "grows pg (sv_store sv) s"
      using read [of "sv\<lparr>sv_store := s\<rparr>"] PlayersOfRoom_reads(1) [OF y] by simp_all
    have "get_held pg s (GetQuestions data ps)" if "res = Inr ps" for ps
    proof -
      have "players_held pg (sv_store sv) (rd_id data) (length (rd_questionIDs data)) ps"
        using players_held_reads [OF y [unfolded that] _ rows] g GetPlayers by (simp add: data_held_def)
      then show ?thesis using g GetPlayers get_held_grows [OF r(2), of "GetQuestions data ps"] by simp
    qed
    then show ?thesis using x y GetPlayers r(1) by (auto simp: st store_ops_def Let_def split: sum.splits)
  next
    case (GetQuestions data ps)
    obtain res s where y: "QuestionsByIDs pg (rd_questionIDs data) (sv_store sv) = (res, s)" by fastforce
    have r: "serving_inv pg d (sv\<lparr>sv_store := s\<rparr>)" "grows pg (sv_store sv) s"
      using read [of "sv\<lparr>sv_store := s\<rparr>"] QuestionsByIDs_reads(1) [OF y] by simp_all
    have "get_held pg s (GetSpawn data ps qs)" if "res = Inr qs" for qs
      using g GetQuestions QuestionsByIDs_reads(2) [OF y that] get_held_grows [OF r(2), of "GetSpawn data ps qs"] by simp
    then show ?thesis using x y GetQuestions r(1) by (auto simp: st store_ops_def Let_def split: sum.splits)
  next
    case (GetSpawn data ps qs)
    obtain h v where y: "spawn d data ps qs sv = (h, v)" by fastforce
    then show ?thesis using x GetSpawn spawn_serves [OF inv m g [unfolded GetSpawn] y] by auto
  next
    case (Got res)
    then show ?thesis using x inv g by simp
  qed
qed

lemma serving_inv_step:
  assumes "serving_step pg d sv sv'" "serving_inv pg d sv" "mono (d_clock d)" "d_store d = store_ops pg" "uuid_laws pg"
  shows "serving_inv pg d sv'"
  using assms(1)
proof cases
  case (ask i roomID)
  then show ?thesis using assms(2) by (auto simp: serving_inv_def instance_ok_def)
next
  case (get i g g' sv1)
  have "get_held pg (sv_store sv) g" using get(2) assms(2) by (simp add: serving_inv_def)
  then have "serving_inv pg d sv1 \<and> get_held pg (sv_store sv1) g'"
    using get_step_serves [OF assms(2-4) _ get(3)] by blast
  then show ?thesis using get(1) by (auto simp: serving_inv_def instance_ok_def)
next
  case (event h r ev)
  show ?thesis unfolding event(1) by (rule serving_inv_event [OF assms(2-4) event(2-4)])
next
  case (leave h r)
  show ?thesis unfolding leave(1) by (rule serving_inv_leave [OF assms(2) leave(2)])
next
  case (request s b)
  then show ?thesis
    using handler_serves [OF request(2) _ assms(5)] assms(2) by (intro serving_inv_store [OF assms(2)]) (auto simp: serving_inv_def)
qed

lemma serving_inv_steps:
  "serving_steps pg d sv sv' \<Longrightarrow> serving_inv pg d sv \<Longrightarrow> mono (d_clock d) \<Longrightarrow> d_store d = store_ops pg \<Longrightarrow>
   uuid_laws pg \<Longrightarrow> serving_inv pg d sv'"
  by (induction rule: serving_steps.induct) (auto intro: serving_inv_step)

lemma serving_inv_new: "rows_ok pg s \<Longrightarrow> serving_inv pg d (new_server s b)"
  by (simp add: serving_inv_def new_server_def)


end
