(* ===== verification/Commands.thy ===== *)
theory Commands
  imports Config Seed
begin

section \<open>The commands: cmd/migrate, cmd/createhost, cmd/seed and store/db.go\<close>

text \<open>
  The three commands of the operator from their arguments on: each reads the environment, connects to
  Postgres, brings the schema up to date where it needs it, and does its work.

  Parameters: pgx (\<open>pgxpool.New\<close> and \<open>Ping\<close>), goose (its functions work on the database and may
  fail), the file system, and the parsers of JSON and CSV of the standard library on the text of a file.
  The commands are functions from the database before to an error (\<open>None\<close> for nil) and the
  database after. Closing the pool and the log are left out.
\<close>

subsection \<open>store/db.go\<close>

text \<open>\<open>pgxpool.New\<close> gives the server a connection string leads to; \<open>Ping\<close> says whether it answers.\<close>

record pgx_lib =
  px_new :: "string \<Rightarrow> pg option"
  px_ping :: "string \<Rightarrow> bool"

definition NewPool :: "pgx_lib \<Rightarrow> string \<Rightarrow> string + pg" where
  "NewPool px url =
     (case px_new px url of
        None \<Rightarrow> Inl ''create pgx pool''
      | Some pool \<Rightarrow> if \<not> px_ping px url then Inl ''ping postgres'' else Inr pool)"

text \<open>What goose does to the database behind a pool; \<open>None\<close> is success.\<close>

record goose =
  go_dialect :: "string \<Rightarrow> bool"
  go_up :: "db \<Rightarrow> string option \<times> db"
  go_down :: "db \<Rightarrow> string option \<times> db"
  go_downTo :: "nat \<Rightarrow> db \<Rightarrow> string option \<times> db"
  go_status :: "db \<Rightarrow> string option \<times> db"

definition MigrateCommand :: "goose \<Rightarrow> string \<Rightarrow> db \<Rightarrow> string option \<times> db" where
  "MigrateCommand g action d =
     (if \<not> go_dialect g ''postgres'' then (Some ''set goose dialect'', d)
      else
        let run = (\<lambda>f. case f d of
              (Some _, d') \<Rightarrow> (Some (''migrate '' @ action), d')
            | (None, d') \<Rightarrow> (None, d'))
        in if action = ''up'' then run (go_up g)
           else if action = ''down'' then run (go_down g)
           else if action = ''reset'' then run (go_downTo g 0)
           else if action = ''status'' then run (go_status g)
           else (Some ''unknown migrate action (want up, down, reset, status)'', d))"

definition Migrate :: "goose \<Rightarrow> db \<Rightarrow> string option \<times> db" where
  "Migrate g d = MigrateCommand g ''up'' d"

subsection \<open>cmd/migrate\<close>

text \<open>\<open>os.Args\<close> has the name of the program first.\<close>

definition migrate_run :: "pgx_lib \<Rightarrow> goose \<Rightarrow> environment \<Rightarrow> string list \<Rightarrow> db \<Rightarrow> string option \<times> db" where
  "migrate_run px g env args d =
     (if length args \<noteq> 2 then (Some ''usage: migrate <up|down|reset|status>'', d)
      else case Load env of
        Inl _ \<Rightarrow> (Some ''config'', d)
      | Inr cfg \<Rightarrow>
     (case NewPool px (cf_databaseURL cfg) of
        Inl e \<Rightarrow> (Some e, d)
      | Inr pool \<Rightarrow> MigrateCommand g (args ! 1) d))"

subsection \<open>cmd/createhost\<close>

definition createhost_command :: "(string \<Rightarrow> bool) \<Rightarrow> (string \<Rightarrow> nat \<Rightarrow> string option) \<Rightarrow> pgx_lib \<Rightarrow> goose \<Rightarrow>
    environment \<Rightarrow> string \<Rightarrow> string \<Rightarrow> string \<Rightarrow> db \<Rightarrow> string option \<times> db" where
  "createhost_command address_ok GenerateFromPassword px g env email name password d =
     (case validate_host address_ok email name password of
        Some e \<Rightarrow> (Some e, d)
      | None \<Rightarrow>
     (case GenerateFromPassword password bcryptCost of
        None \<Rightarrow> (Some ''hash password'', d)
      | Some hash \<Rightarrow>
     (case Load env of
        Inl _ \<Rightarrow> (Some ''config'', d)
      | Inr cfg \<Rightarrow>
     (case NewPool px (cf_databaseURL cfg) of
        Inl e \<Rightarrow> (Some e, d)
      | Inr pool \<Rightarrow>
     (case Migrate g d of
        (Some e, d1) \<Rightarrow> (Some e, d1)
      | (None, d1) \<Rightarrow>
     (case CreateHost pool (normal_email email) (TrimSpace name) hash d1 of
        (Some _, d2) \<Rightarrow> (Some ''save host'', d2)
      | (None, d2) \<Rightarrow> (None, d2)))))))"

lemma createhost_command_run:
  assumes "createhost_command ok gen px g env email name password d = (None, d')"
  shows "\<exists>cfg pool d1. Load env = Inr cfg \<and> NewPool px (cf_databaseURL cfg) = Inr pool \<and> Migrate g d = (None, d1) \<and>
    createhost_run ok gen env pool email name password d1 = (None, d')"
  using assms
  by (auto simp: createhost_command_def createhost_run_def split: option.splits sum.splits prod.splits)

subsection \<open>cmd/seed: reading the files\<close>

text \<open>
  \<open>json.Unmarshal\<close> into \<open>[]Question\<close>, as for the columns in \<open>StoreTypes\<close>: keys match up to case, a
  missing key or null leaves the zero value (for \<open>active\<close> the nil pointer), another type is an error. A
  key that occurs twice overwrites.
\<close>

definition zero_question :: seed_question where
  "zero_question = \<lparr>sq_id = '''', sq_site = 0, sq_level = 0, sq_type = '''', sq_prompt = zero_text,
     sq_options = [], sq_explanation = zero_text, sq_active = None\<rparr>"

fun set_active :: "json \<Rightarrow> bool option option" where
  "set_active (JBool b) = Some (Some b)"
| "set_active JNull = Some None"
| "set_active _ = None"

fun question_fields :: "(string \<times> json) list \<Rightarrow> seed_question \<Rightarrow> seed_question option" where
  "question_fields [] q = Some q"
| "question_fields ((k, v) # kvs) q =
     (if key_is ''id'' k then
        Option.bind (set_string v (sq_id q)) (\<lambda>x. question_fields kvs (q\<lparr>sq_id := x\<rparr>))
      else if key_is ''site'' k then
        Option.bind (set_int v (sq_site q)) (\<lambda>x. question_fields kvs (q\<lparr>sq_site := x\<rparr>))
      else if key_is ''level'' k then
        Option.bind (set_int v (sq_level q)) (\<lambda>x. question_fields kvs (q\<lparr>sq_level := x\<rparr>))
      else if key_is ''type'' k then
        Option.bind (set_string v (sq_type q)) (\<lambda>x. question_fields kvs (q\<lparr>sq_type := x\<rparr>))
      else if key_is ''prompt'' k then
        Option.bind (unmarshal_text_into v (sq_prompt q)) (\<lambda>x. question_fields kvs (q\<lparr>sq_prompt := x\<rparr>))
      else if key_is ''options'' k then
        Option.bind (unmarshal_options v) (\<lambda>x. question_fields kvs (q\<lparr>sq_options := x\<rparr>))
      else if key_is ''explanation'' k then
        Option.bind (unmarshal_text_into v (sq_explanation q)) (\<lambda>x. question_fields kvs (q\<lparr>sq_explanation := x\<rparr>))
      else if key_is ''active'' k then
        Option.bind (set_active v) (\<lambda>x. question_fields kvs (q\<lparr>sq_active := x\<rparr>))
      else question_fields kvs q)"

fun unmarshal_question :: "json \<Rightarrow> seed_question option" where
  "unmarshal_question (JObj kvs) = question_fields kvs zero_question"
| "unmarshal_question JNull = Some zero_question"
| "unmarshal_question _ = None"

fun unmarshal_questions :: "json \<Rightarrow> seed_question list option" where
  "unmarshal_questions (JArr js) = those (map unmarshal_question js)"
| "unmarshal_questions JNull = Some []"
| "unmarshal_questions _ = None"

text \<open>The file system and the parsers on the text of a file.\<close>

record file_libs =
  fl_read :: "string \<Rightarrow> string option"
  fl_json :: "string \<Rightarrow> json option"
  fl_csv :: "string \<Rightarrow> string list list option"

definition LoadQuestions :: "file_libs \<Rightarrow> string \<Rightarrow> string + seed_question list" where
  "LoadQuestions io path =
     (case fl_read io path of
        None \<Rightarrow> Inl ''read questions file''
      | Some raw \<Rightarrow> (case Option.bind (fl_json io raw) unmarshal_questions of
          None \<Rightarrow> Inl ''parse questions file''
        | Some questions \<Rightarrow> Inr questions))"

definition LoadSchoolsFile :: "file_libs \<Rightarrow> string \<Rightarrow> string + seed_school list" where
  "LoadSchoolsFile io path =
     (case fl_read io path of
        None \<Rightarrow> Inl ''read schools file''
      | Some raw \<Rightarrow> (case fl_csv io raw of
          None \<Rightarrow> Inl ''parse schools file''
        | Some rows \<Rightarrow> (case LoadSchools rows of None \<Rightarrow> Inl ''schools row'' | Some schools \<Rightarrow> Inr schools)))"

definition seed_command :: "file_libs \<Rightarrow> pgx_lib \<Rightarrow> goose \<Rightarrow> (nat \<Rightarrow> int) \<Rightarrow> environment \<Rightarrow>
    string \<Rightarrow> string \<Rightarrow> bool \<Rightarrow> db \<Rightarrow> string option \<times> db" where
  "seed_command io px g serial env questionsPath schoolsPath strict d =
     (case LoadQuestions io questionsPath of
        Inl e \<Rightarrow> (Some e, d)
      | Inr questions \<Rightarrow>
     if \<not> validate questions strict then (Some ''invalid questions'', d)
     else case LoadSchoolsFile io schoolsPath of
        Inl e \<Rightarrow> (Some e, d)
      | Inr schools \<Rightarrow>
     (case Load env of
        Inl _ \<Rightarrow> (Some ''config'', d)
      | Inr cfg \<Rightarrow>
     (case NewPool px (cf_databaseURL cfg) of
        Inl e \<Rightarrow> (Some e, d)
      | Inr pool \<Rightarrow>
     (case Migrate g d of
        (Some e, d1) \<Rightarrow> (Some e, d1)
      | (None, d1) \<Rightarrow>
     (case seed_tx pool serial questions schools d1 of
        (False, d2) \<Rightarrow> (Some ''seed transaction'', d2)
      | (True, d2) \<Rightarrow> (None, d2))))))"

lemma seed_command_run:
  assumes "seed_command io px g serial env qp sp strict d = (None, d')"
  shows "\<exists>qs rows cfg pool d1. LoadQuestions io qp = Inr qs \<and> Load env = Inr cfg \<and>
    NewPool px (cf_databaseURL cfg) = Inr pool \<and> Migrate g d = (None, d1) \<and>
    seed_run pool serial qs rows strict d1 = (True, d')"
  using assms
  by (auto simp: seed_command_def LoadSchoolsFile_def seed_run_def
      split: sum.splits option.splits prod.splits if_splits bool.splits) 

subsection \<open>What the operator wrote is what the players get\<close>

text \<open>The question as the file has it.\<close>

definition question_json :: "seed_question \<Rightarrow> json" where
  "question_json q = JObj ([(''id'', JStr (sq_id q)), (''site'', JNum (sq_site q)), (''level'', JNum (sq_level q)),
     (''type'', JStr (sq_type q)), (''prompt'', marshal_text (sq_prompt q)),
     (''options'', marshal_options (sq_options q)), (''explanation'', marshal_text (sq_explanation q))] @
     (case sq_active q of None \<Rightarrow> [] | Some b \<Rightarrow> [(''active'', JBool b)]))"

definition int_range :: "int \<Rightarrow> bool" where
  "int_range v \<longleftrightarrow> - (2 ^ 63) \<le> v \<and> v < 2 ^ 63"

lemma seed_keys [simp]:
  "key_is ''site'' ''site''" "\<not> key_is ''id'' ''site''"
  "key_is ''level'' ''level''" "\<not> key_is ''id'' ''level''" "\<not> key_is ''site'' ''level''"
  "key_is ''type'' ''type''" "\<not> key_is ''id'' ''type''" "\<not> key_is ''site'' ''type''" "\<not> key_is ''level'' ''type''"
  "key_is ''prompt'' ''prompt''" "\<not> key_is ''id'' ''prompt''" "\<not> key_is ''site'' ''prompt''"
  "\<not> key_is ''level'' ''prompt''" "\<not> key_is ''type'' ''prompt''"
  "key_is ''options'' ''options''" "\<not> key_is ''id'' ''options''" "\<not> key_is ''site'' ''options''"
  "\<not> key_is ''level'' ''options''" "\<not> key_is ''type'' ''options''" "\<not> key_is ''prompt'' ''options''"
  "key_is ''explanation'' ''explanation''" "\<not> key_is ''id'' ''explanation''" "\<not> key_is ''site'' ''explanation''"
  "\<not> key_is ''level'' ''explanation''" "\<not> key_is ''type'' ''explanation''" "\<not> key_is ''prompt'' ''explanation''"
  "\<not> key_is ''options'' ''explanation''"
  "key_is ''active'' ''active''" "\<not> key_is ''id'' ''active''" "\<not> key_is ''site'' ''active''"
  "\<not> key_is ''level'' ''active''" "\<not> key_is ''type'' ''active''" "\<not> key_is ''prompt'' ''active''"
  "\<not> key_is ''options'' ''active''" "\<not> key_is ''explanation'' ''active''"
  by code_simp+

lemma question_roundtrip:
  assumes "int_range (sq_site q)" "int_range (sq_level q)"
  shows "unmarshal_question (question_json q) = Some q"
  using assms
  by (cases "sq_active q") (simp_all add: question_json_def int_range_def text_roundtrip_into zero_question_def)

lemma questions_roundtrip:
  assumes "\<forall>q \<in> set qs. int_range (sq_site q) \<and> int_range (sq_level q)"
  shows "unmarshal_questions (JArr (map question_json qs)) = Some qs"
  using assms by (induction qs) (simp_all add: question_roundtrip)

text \<open>
  C21. What the operator writes is what the players get: when the seed command succeeds on a file with
  some questions in JSON, a room that then asks the store for questions of the file gets exactly those,
  in the order asked for, and each is playable: two to four options with different ids, one of them
  correct, and no blank text.
\<close>

theorem seed_file_reaches_players:
  assumes "fl_read io qp = Some raw" "fl_json io raw = Some (JArr (map question_json qs))"
    and "\<forall>q \<in> set qs. int_range (sq_site q) \<and> int_range (sq_level q)"
    and "seed_command io px g serial env qp sp strict d = (None, d')" "px_new px (env ''DATABASE_URL'') = Some pg"
    and "distinct (map qr_qid (tb_questions (tabs (snd (Migrate g d)))))"
    and "set ids \<subseteq> sq_id ` set qs" "fault pg (trips d') = NoFault"
  shows "fst (QuestionsByIDs pg ids d') = Inr (map (seeded qs) ids) \<and>
    (\<forall>i \<in> set ids. playable (seeded qs i) \<and> q_id (seeded qs i) = i)"
proof -
  have l: "LoadQuestions io qp = Inr qs"
    using assms(1,2) questions_roundtrip [OF assms(3)] by (simp add: LoadQuestions_def)
  obtain rows cfg pool d1 where r: "Load env = Inr cfg" "NewPool px (cf_databaseURL cfg) = Inr pool"
      "Migrate g d = (None, d1)" "seed_run pool serial qs rows strict d1 = (True, d')"
    using seed_command_run [OF assms(4)] l by auto
  have "cf_databaseURL cfg = env ''DATABASE_URL''"
    using r(1) by (auto simp: Load_def Let_def split: if_splits sum.splits)
  then have "pool = pg" using r(2) assms(5) by (auto simp: NewPool_def split: if_splits)
  then show ?thesis using seed_round_trip [OF r(4)] assms(6-8) r(3) by simp
qed

end
