(* ===== verification/Boot.thy ===== *)
theory Boot
  imports Commands Router Connect Leaderboard
begin

section \<open>Starting the server: cmd/server\<close>

text \<open>
  \<open>run\<close> of cmd/server: the settings of the environment become the parts of the server, the store, the
  registry with its board, the limiter, the REST API and the WebSocket handler. The theorems follow a
  setting from the environment to what a caller sees of the server that was started with it.

  Parameters: as in \<open>Commands\<close>, and \<open>redis.ParseURL\<close> with \<open>NewClient\<close>. The log is left out, with it
  the ping of Redis, of which only the log hears.
\<close>

subsection \<open>The parts\<close>

text \<open>A Redis client as the board and the limiter use it.\<close>

record ('b, 'z) redis_driver =
  dr_board :: "'b redis_client"
  dr_incr :: "string \<Rightarrow> duration \<Rightarrow> 'z \<Rightarrow> int option \<times> 'z"

record ('b, 'z) libs =
  lb_px :: pgx_lib
  lb_goose :: goose
  lb_redis :: "string \<Rightarrow> ('b, 'z) redis_driver option"
  lb_jwt :: jwt_lib
  lb_bcrypt :: "string \<Rightarrow> string \<Rightarrow> bool"
  lb_dummyHash :: string
  lb_clock :: "nat \<Rightarrow> time"
  lb_shuffle :: "nat \<Rightarrow> nat"
  lb_rng :: "nat \<Rightarrow> nat \<Rightarrow> nat"
  lb_random :: "nat \<Rightarrow> nat \<Rightarrow> nat option"

text \<open>\<open>nil\<close> is \<open>None\<close>: without a usable URL there is no client.\<close>

definition openRedis :: "(string \<Rightarrow> ('b, 'z) redis_driver option) \<Rightarrow> string \<Rightarrow> ('b, 'z) redis_driver option" where
  "openRedis redis url = (if url = '''' then None else redis url)"

definition NewRedis :: "('b, 'z) redis_driver \<Rightarrow> 'b board_api" where
  "NewRedis client = board_ops (dr_board client)"

definition newBoard :: "('b, 'z) redis_driver option \<Rightarrow> 'b board_api option" where
  "newBoard client = (case client of None \<Rightarrow> None | Some c \<Rightarrow> Some (NewRedis c))"

definition NewRegistry :: "('b, 'z) libs \<Rightarrow> pg \<Rightarrow> 'b board_api option \<Rightarrow> (db, 'b) deps" where
  "NewRegistry libs db board = \<lparr>d_store = store_ops db, d_board = board, d_clock = lb_clock libs,
     d_rng = lb_shuffle libs, d_lbInterval = DefaultLBInterval\<rparr>"

text \<open>\<open>ratelimit.New\<close>; its map of windows starts empty (\<open>start_of\<close>).\<close>

definition limiter_New :: "('b, 'z) libs \<Rightarrow> ('b, 'z) redis_driver option \<Rightarrow> int \<Rightarrow> duration \<Rightarrow> 'z limiter" where
  "limiter_New libs client limit windowSize = \<lparr>lm_client = map_option dr_incr client, lm_limit = limit,
     lm_window = windowSize, lm_now = lb_clock libs\<rparr>"

definition NewHandler :: "jwt_lib \<Rightarrow> string \<Rightarrow> bool \<Rightarrow> string list \<Rightarrow> ws_config" where
  "NewHandler jwt secret allowAnyOrigin allowed =
     \<lparr>wc_jwt = jwt, wc_secret = secret, wc_anyOrigin = allowAnyOrigin, wc_origins = allowed\<rparr>"

subsection \<open>run\<close>

text \<open>The server that \<open>serve\<close> is called with.\<close>

record ('b, 'z) deployment =
  dp_addr :: string
  dp_api :: "('b, 'z) api"
  dp_ws :: ws_config
  dp_origins :: "string list"

datatype start_error = BadConfig config_error | BadSecret | NoPool string | NotMigrated string

definition server_start :: "('b, 'z) libs \<Rightarrow> environment \<Rightarrow> db \<Rightarrow> (start_error + ('b, 'z) deployment) \<times> db" where
  "server_start libs env d =
     (case Load env of
        Inl e \<Rightarrow> (Inl (BadConfig e), d)
      | Inr cfg \<Rightarrow>
     (case NewTokens (cf_jwtSecret cfg) of
        None \<Rightarrow> (Inl BadSecret, d)
      | Some secret \<Rightarrow>
     (case NewPool (lb_px libs) (cf_databaseURL cfg) of
        Inl e \<Rightarrow> (Inl (NoPool e), d)
      | Inr pool \<Rightarrow>
     (case Migrate (lb_goose libs) d of
        (Some e, d1) \<Rightarrow> (Inl (NotMigrated e), d1)
      | (None, d1) \<Rightarrow>
          let redisClient = openRedis (lb_redis libs) (cf_redisURL cfg);
              rooms = NewRegistry libs pool (newBoard redisClient)
          in (Inr \<lparr>dp_addr = '':'' @ cf_port cfg,
                dp_api = \<lparr>a_pg = pool, a_deps = rooms, a_jwt = lb_jwt libs, a_secret = secret,
                  a_bcrypt = lb_bcrypt libs, a_dummyHash = lb_dummyHash libs,
                  a_limiter = Some (limiter_New libs redisClient (cf_joinLimitPerMinute cfg) minute),
                  a_trustProxy = cf_trustProxy cfg, a_publicBaseURL = cf_publicBaseURL cfg,
                  a_rng = lb_rng libs, a_random = lb_random libs\<rparr>,
                dp_ws = NewHandler (lb_jwt libs) secret (cf_env cfg = ''development'') (cf_allowedOrigins cfg),
                dp_origins = cf_allowedOrigins cfg\<rparr>, d1)))))"

text \<open>
  \<open>serve\<close>: it waits for the listener to fail or for a signal, and after a signal shuts the listener
  down, which may fail too.
\<close>

datatype net_error = ErrServerClosed | OtherNetError string

datatype net_event = ListenerStopped net_error | Signalled "net_error option"

fun serve_until :: "net_event \<Rightarrow> net_error option" where
  "serve_until (ListenerStopped err) = Some err"
| "serve_until (Signalled None) = None"
| "serve_until (Signalled (Some err)) = (if err \<noteq> ErrServerClosed then Some err else None)"

text \<open>
  What the start says of the server that came up: nothing was touched before configuration, secret and
  database were found in order, and the schema was migrated.
\<close>

lemma server_startD:
  assumes "server_start libs env d = (Inr dp, d')"
  obtains cfg pool client where "Load env = Inr cfg" "NewPool (lb_px libs) (cf_databaseURL cfg) = Inr pool"
    "Migrate (lb_goose libs) d = (None, d')" "client = openRedis (lb_redis libs) (cf_redisURL cfg)"
    "dp_addr dp = '':'' @ cf_port cfg" "dp_origins dp = cf_allowedOrigins cfg"
    "dp_ws dp = NewHandler (lb_jwt libs) (cf_jwtSecret cfg) (cf_env cfg = ''development'') (cf_allowedOrigins cfg)"
    "a_pg (dp_api dp) = pool" "a_deps (dp_api dp) = NewRegistry libs pool (newBoard client)"
    "a_jwt (dp_api dp) = lb_jwt libs" "a_secret (dp_api dp) = cf_jwtSecret cfg" "32 \<le> length (cf_jwtSecret cfg)"
    "a_limiter (dp_api dp) = Some (limiter_New libs client (cf_joinLimitPerMinute cfg) minute)"
    "a_trustProxy (dp_api dp) = cf_trustProxy cfg"
  using assms
  by (auto simp: server_start_def NewTokens_def MinSecretLength_def Let_def split: sum.splits option.splits prod.splits if_splits)

lemma LoadD:
  assumes "Load env = Inr cfg"
  shows "cf_databaseURL cfg = env ''DATABASE_URL''" "cf_redisURL cfg = env ''REDIS_URL''"
    "cf_env cfg = getenv env ''ENV'' ''development''" "cf_jwtSecret cfg = env ''JWT_SECRET''"
    "cf_allowedOrigins cfg = allowedOrigins env (cf_publicBaseURL cfg)"
    "joinLimit env (cf_env cfg) = Inr (cf_joinLimitPerMinute cfg)"
  using assms by (auto simp: Load_def Let_def split: if_splits sum.splits)

lemma ServeHTTP_origin:
  assumes "ServeHTTP c dps hs s sv = (Connected h k cl, sv')" "hs_origin hs \<noteq> ''''" "\<not> wc_anyOrigin c"
  shows "\<exists>allowed \<in> set (wc_origins c). EqualFold allowed (hs_origin hs)"
proof -
  have "Upgrade c hs"
    using assms(1)
    by (auto simp: ServeHTTP_def rejectRoomError_def split: option.splits prod.splits getting.splits sum.splits if_splits)
  then show ?thesis using assms(2,3) by (simp add: Upgrade_def CheckOrigin_def list_ex_iff)
qed

lemma cors_origin:
  "rest a websocket origins origin meth path rq w = (headers, resp, w') \<Longrightarrow> headers \<noteq> [] \<Longrightarrow> origin \<in> set origins"
  by (auto simp: rest_def cors_def split: if_splits)

text \<open>
  C25. A server that does not start leaves the database as it found it, unless a migration failed. One
  that starts has a migrated database and a secret of at least 32 bytes, with which the REST API and
  the WebSocket handler both work; without Redis the rooms keep their ranking and the limiter its
  counts in memory; and outside development no browser page of a foreign origin opens a connection,
  and none is told by CORS that it may read an answer.
\<close>

theorem server_starts_closed:
  fixes libs :: "('b, 'z) libs"
  shows "case server_start libs env d of
     (Inl e, d') \<Rightarrow> d' = d \<or> (\<exists>m. e = NotMigrated m \<and> Migrate (lb_goose libs) d = (Some m, d'))
   | (Inr dp, d') \<Rightarrow> Migrate (lb_goose libs) d = (None, d') \<and> 32 \<le> length (a_secret (dp_api dp)) \<and>
       wc_secret (dp_ws dp) = a_secret (dp_api dp) \<and> wc_jwt (dp_ws dp) = a_jwt (dp_api dp) \<and>
       d_store (a_deps (dp_api dp)) = store_ops (a_pg (dp_api dp)) \<and>
       (env ''REDIS_URL'' = '''' \<longrightarrow> d_board (a_deps (dp_api dp)) = None \<and>
          map_option lm_client (a_limiter (dp_api dp)) = Some None) \<and>
       (env ''ENV'' \<notin> {'''', ''development''} \<longrightarrow>
          (\<forall>dps hs s (sv :: (db, 'b) server) h c cl sv'.
             ServeHTTP (dp_ws dp) dps hs s sv = (Connected h c cl, sv') \<and> hs_origin hs \<noteq> '''' \<longrightarrow>
             (\<exists>allowed \<in> set (dp_origins dp). EqualFold allowed (hs_origin hs))) \<and>
          (\<forall>ws origin method path rq w headers resp w'.
             rest (dp_api dp) ws (dp_origins dp) origin method path rq w = (headers, resp, w') \<and> headers \<noteq> [] \<longrightarrow>
             origin \<in> set (dp_origins dp)))"
proof -
  obtain res d' where x: "server_start libs env d = (res, d')" by fastforce
  show ?thesis
  proof (cases res)
    case (Inl e)
    then show ?thesis
      using x by (auto simp: server_start_def Let_def split: sum.splits option.splits prod.splits)
  next
    case (Inr dp)
    obtain cfg pool client where c: "Load env = Inr cfg" "Migrate (lb_goose libs) d = (None, d')"
        "client = openRedis (lb_redis libs) (cf_redisURL cfg)" "dp_origins dp = cf_allowedOrigins cfg"
      and ws: "dp_ws dp = NewHandler (lb_jwt libs) (cf_jwtSecret cfg) (cf_env cfg = ''development'') (cf_allowedOrigins cfg)"
      and a: "a_pg (dp_api dp) = pool" "a_deps (dp_api dp) = NewRegistry libs pool (newBoard client)"
        "a_jwt (dp_api dp) = lb_jwt libs" "a_secret (dp_api dp) = cf_jwtSecret cfg" "32 \<le> length (cf_jwtSecret cfg)"
        "a_limiter (dp_api dp) = Some (limiter_New libs client (cf_joinLimitPerMinute cfg) minute)"
      using server_startD [OF x [unfolded Inr]] by metis
    have redis: "client = None" if "env ''REDIS_URL'' = ''''" using that c(3) LoadD(2) [OF c(1)] by (simp add: openRedis_def)
    have dev: "cf_env cfg \<noteq> ''development''" if "env ''ENV'' \<notin> {'''', ''development''}"
      using that LoadD(3) [OF c(1)] by (simp add: getenv_def)
    have ws_ok: "\<exists>allowed \<in> set (dp_origins dp). EqualFold allowed (hs_origin hs)"
      if "env ''ENV'' \<notin> {'''', ''development''}" "ServeHTTP (dp_ws dp) dps hs s sv = (Connected h c' cl, sv')" "hs_origin hs \<noteq> ''''"
      for dps hs s and sv :: "(db, 'b) server" and h c' cl sv'
      using ServeHTTP_origin [OF that(2,3)] dev [OF that(1)] by (simp add: ws NewHandler_def c(4))
    show ?thesis
      unfolding x Inr prod.case sum.case
      using c(2) a ws redis ws_ok cors_origin
      by (auto simp: NewHandler_def NewRegistry_def newBoard_def limiter_New_def)
  qed
qed

subsection \<open>A flood of joins\<close>

text \<open>
  The requests of any number of callers, in the order in which the limiter serves them, and of the joins
  among them a log: the address the limiter saw, its clock, and the status of the answer.
\<close>

record http_call =
  hc_origin :: string
  hc_method :: string
  hc_path :: "string list"
  hc_request :: request

definition is_join :: "http_call \<Rightarrow> bool" where
  "is_join c \<longleftrightarrow> hc_method c = ''POST'' \<and>
     match_path [Lit ''api'', Lit ''rooms'', Wild, Lit ''join''] (hc_path c) \<noteq> None"

record join_entry =
  je_ip :: string
  je_time :: time
  je_status :: nat

definition join_entry_of :: "('b, 'z) api \<Rightarrow> 'z limiter \<Rightarrow> http_call \<Rightarrow> ('b, 'z) world \<Rightarrow> nat \<Rightarrow> join_entry" where
  "join_entry_of a l c w st = \<lparr>je_ip = clientIP (hc_request c) (a_trustProxy a),
     je_time = lm_now l (li_tick (w_limits w)), je_status = st\<rparr>"

fun traffic :: "('b, 'z) api \<Rightarrow> ('b, 'z) handler option \<Rightarrow> string list \<Rightarrow> 'z limiter \<Rightarrow> http_call list \<Rightarrow>
    ('b, 'z) world \<Rightarrow> join_entry list" where
  "traffic a websocket origins l [] w = []"
| "traffic a websocket origins l (c # cs) w =
     (let (_, (st, _), w') = rest a websocket origins (hc_origin c) (hc_method c) (hc_path c) (hc_request c) w
      in (if is_join c then [join_entry_of a l c w st] else []) @ traffic a websocket origins l cs w')"

definition keeps_limits :: "('b, 'z) handler \<Rightarrow> bool" where
  "keeps_limits h \<longleftrightarrow> (\<forall>rq w. w_limits (snd (h rq w)) = w_limits w)"

lemma store_call_limits: "store_call f w = (x, w') \<Longrightarrow> w_limits w' = w_limits w"
  by (auto simp: store_call_def Let_def split: prod.splits)

lemma activeRoom_limits: "activeRoom a rq w = (x, w') \<Longrightarrow> w_limits w' = w_limits w"
  by (auto simp: activeRoom_def dest: store_call_limits split: if_splits prod.splits sum.splits)

lemma keeps_limits_handlers [simp]:
  "keeps_limits (login a)" "keeps_limits (createRoom a hid)" "keeps_limits (getRoom a)"
  "keeps_limits (exportResults a hid)" "keeps_limits (searchSchools a)" "keeps_limits (schoolLeaderboard a)"
  by (auto simp: keeps_limits_def login_def createRoom_def getRoom_def exportResults_def searchSchools_def
      schoolLeaderboard_def next_call_def Let_def dest!: store_call_limits activeRoom_limits
      split: option.split prod.split sum.split)

lemma keeps_limits_requireHost [simp]: "(\<And>i. keeps_limits (h i)) \<Longrightarrow> keeps_limits (requireHost a h)"
  by (simp add: keeps_limits_def requireHost_def split: option.split)

lemma joinRoom_limited:
  assumes "a_limiter a = Some l" "Allow l (''join:'' @ clientIP rq (a_trustProxy a)) (w_limits w) = (ok, s)"
  shows "w_limits (snd (joinRoom a rq w)) = s" "fst (fst (joinRoom a rq w)) = 429 \<longleftrightarrow> \<not> ok"
proof -
  have al: "allowed_to_join a rq w = (ok, w\<lparr>w_limits := s\<rparr>)" using assms by (simp add: allowed_to_join_def)
  have r: "fst r \<noteq> 429" if "activeRoom a rq w0 = (Inl r, w1)" for r w0 w1
    using activeRoom_error [OF that] by (auto simp: room_not_found_def writeInternal_def writeError_def)
  have j: "fst (handleJoinError e) \<noteq> 429" for e
    by (simp add: handleJoinError_def room_not_found_def writeInternal_def writeInvalid_def writeError_def)
  show "w_limits (snd (joinRoom a rq w)) = s"
    by (auto simp: joinRoom_def al dest!: store_call_limits activeRoom_limits
        split: bool.split option.split prod.split sum.split)
  show "fst (fst (joinRoom a rq w)) = 429 \<longleftrightarrow> \<not> ok"
    using r j by (auto simp: joinRoom_def al bad_json_def room_not_found_def writeInternal_def writeInvalid_def
        writeError_def split: bool.split option.split prod.split sum.split)
qed

lemma serve_keeps_limits:
  "\<forall>(m, p, h) \<in> set routes. match_path p path \<noteq> None \<longrightarrow> method_fits m method \<longrightarrow> keeps_limits h \<Longrightarrow>
   keeps_limits (serve routes known method path)"
  by (induction routes arbitrary: known) (auto simp: keeps_limits_def split: option.split)

lemma match_path_iff:
  "match_path [] path = Some v \<longleftrightarrow> path = [] \<and> v = []"
  "match_path (Lit l # ps) path = Some v \<longleftrightarrow> (\<exists>ss. path = l # ss \<and> match_path ps ss = Some v)"
  "match_path (Wild # ps) path = Some v \<longleftrightarrow> (\<exists>ss u. path = v # ss \<and> match_path ps ss = Some u)"
  by (cases path; auto)+

text \<open>What a request does to the limiter: a join attempts once, any other request leaves it alone.\<close>

lemma rest_no_join:
  assumes "\<not> is_join c" "\<forall>h. websocket = Some h \<longrightarrow> keeps_limits h"
    and "rest a websocket origins (hc_origin c) (hc_method c) (hc_path c) (hc_request c) w = (headers, r, w')"
  shows "w_limits w' = w_limits w"
proof -
  have "hc_method c \<noteq> ''POST''" if "match_path [Lit ''api'', Lit ''rooms'', Wild, Lit ''join''] (hc_path c) \<noteq> None"
    using assms(1) that by (simp add: is_join_def)
  then have "keeps_limits (serve (NewRouter a websocket) False (hc_method c) (hc_path c))"
    using assms(2) by (intro serve_keeps_limits) (auto simp: NewRouter_def method_fits_def keeps_limits_def [of "\<lambda>rq w. (_, w)"])
  then show ?thesis
    using assms(3) by (auto simp: rest_def cors_def keeps_limits_def split: if_splits dest!: spec [of _ "hc_request c"] spec [of _ w])
qed

lemma rest_join:
  assumes "is_join c"
  obtains v where "snd (rest a websocket origins (hc_origin c) (hc_method c) (hc_path c) (hc_request c) w) =
    joinRoom a ((hc_request c)\<lparr>rq_path := v\<rparr>) w"
proof -
  obtain v where "hc_method c = ''POST''" "hc_path c = [''api'', ''rooms'', v, ''join'']"
    using assms by (auto simp: is_join_def match_path_iff)
  then have "snd (rest a websocket origins (hc_origin c) (hc_method c) (hc_path c) (hc_request c) w) =
      joinRoom a ((hc_request c)\<lparr>rq_path := v\<rparr>) w"
    by (simp add: rest_def cors_def NewRouter_def method_fits_def)
  then show ?thesis by (rule that)
qed

text \<open>Without Redis and with a limit every attempt is counted in memory.\<close>

lemma attempt_of_memory:
  assumes "lm_client l = None" "0 < lm_limit l" "Allow l key s = (ok, s')"
  shows "at_key (attempt_of l key s) = key" "at_time (attempt_of l key s) = lm_now l (li_tick s)"
    "at_memory (attempt_of l key s)" "at_allowed (attempt_of l key s) = ok"
proof -
  have "li_tick s' = Suc (li_tick s)" using assms by (auto simp: Allow_def countInMemory_def Let_def)
  then show "at_key (attempt_of l key s) = key" "at_time (attempt_of l key s) = lm_now l (li_tick s)"
    "at_memory (attempt_of l key s)" "at_allowed (attempt_of l key s) = ok"
    using assms(3) by (simp_all add: attempt_of_def Let_def)
qed

definition same_attempt :: "join_entry \<Rightarrow> attempt \<Rightarrow> bool" where
  "same_attempt e x \<longleftrightarrow> at_key x = ''join:'' @ je_ip e \<and> at_time x = je_time e \<and> at_memory x \<and>
     (at_allowed x \<longleftrightarrow> je_status e \<noteq> 429)"

lemma traffic_attempts:
  assumes "a_limiter a = Some l" "lm_client l = None" "0 < lm_limit l" "\<forall>h. websocket = Some h \<longrightarrow> keeps_limits h"
  shows "\<exists>ks xs. fst (attempts l ks acc (w_limits w)) = rev xs @ acc \<and>
    list_all2 same_attempt (traffic a websocket origins l cs w) xs"
proof (induction cs arbitrary: w acc)
  case Nil
  show ?case by (intro exI [of _ "[]"]) simp
next
  case (Cons c cs)
  obtain headers st body w' where x: "rest a websocket origins (hc_origin c) (hc_method c) (hc_path c) (hc_request c) w = (headers, (st, body), w')"
    by (metis prod_cases4 surj_pair)
  show ?case
  proof (cases "is_join c")
    case False
    then have "w_limits w' = w_limits w" by (rule rest_no_join [OF _ assms(4) x])
    then show ?thesis using Cons [of acc w'] False x by simp
  next
    case True
    let ?key = "''join:'' @ clientIP (hc_request c) (a_trustProxy a)"
    obtain ok s where al: "Allow l ?key (w_limits w) = (ok, s)" by fastforce
    obtain v where "joinRoom a ((hc_request c)\<lparr>rq_path := v\<rparr>) w = ((st, body), w')"
      by (rule rest_join [OF True, of a websocket origins w]) (metis that x snd_conv)
    moreover have "clientIP ((hc_request c)\<lparr>rq_path := v\<rparr>) t = clientIP (hc_request c) t" for t
      by (simp add: clientIP_def cong: if_cong option.case_cong)
    ultimately have j: "w_limits w' = s" "st = 429 \<longleftrightarrow> \<not> ok"
      using joinRoom_limited [OF assms(1), of "(hc_request c)\<lparr>rq_path := v\<rparr>" w ok s] al by simp_all
    let ?x = "attempt_of l ?key (w_limits w)"
    obtain ks xs where ih: "fst (attempts l ks (?x # acc) (w_limits w')) = rev xs @ ?x # acc"
        "list_all2 same_attempt (traffic a websocket origins l cs w') xs"
      using Cons [of "?x # acc" w'] by blast
    have "same_attempt (join_entry_of a l c w st) ?x"
      using attempt_of_memory [OF assms(2,3) al] j(2) by (simp add: same_attempt_def join_entry_of_def)
    then have "list_all2 same_attempt (traffic a websocket origins l (c # cs) w) (?x # xs)"
      using ih(2) True x by simp
    moreover have "fst (attempts l (?key # ks) acc (w_limits w)) = rev (?x # xs) @ acc"
      using ih(1) j(1) al by simp
    ultimately show ?thesis by blast
  qed
qed

lemma list_all2_filter_length:
  "list_all2 R xs ys \<Longrightarrow> (\<And>x y. R x y \<Longrightarrow> P x = Q y) \<Longrightarrow> length (filter P xs) = length (filter Q ys)"
  by (induction rule: list_all2_induct) auto

text \<open>
  C31. A server that runs without Redis and with a join limit, which outside development is 10 a minute
  unless the environment says otherwise, lets in no flood: whatever requests arrive from whomever, in
  any 60 seconds at most twice the limit of the joins from one address get an answer other than 429.
\<close>

theorem join_flood_is_refused:
  fixes libs :: "('b, 'z) libs"
  assumes started: "server_start libs env d = (Inr dp, d')" and cfg: "Load env = Inr cfg"
    and alone: "env ''REDIS_URL'' = ''''" and clock: "mono (lb_clock libs)"
    and websocket: "\<forall>h. websocket = Some h \<longrightarrow> keeps_limits h"
    and fresh: "w_limits w = start_of z" and limiter: "a_limiter (dp_api dp) = Some l"
  shows "(env ''RATE_LIMIT_JOIN_PER_MIN'' = '''' \<and> env ''ENV'' \<notin> {'''', ''development''} \<longrightarrow> cf_joinLimitPerMinute cfg = 10) \<and>
    (0 < cf_joinLimitPerMinute cfg \<longrightarrow>
      int (length (filter (\<lambda>e. je_ip e = ip \<and> je_status e \<noteq> 429 \<and> t \<le> je_time e \<and> je_time e < t + minute)
        (traffic (dp_api dp) websocket (dp_origins dp) l calls w))) \<le> 2 * cf_joinLimitPerMinute cfg)"
proof (intro conjI impI)
  assume "env ''RATE_LIMIT_JOIN_PER_MIN'' = '''' \<and> env ''ENV'' \<notin> {'''', ''development''}"
  then show "cf_joinLimitPerMinute cfg = 10"
    using LoadD(3,6) [OF cfg] by (auto simp: joinLimit_def getenv_def defaultJoinLimitPerMinute_def)
next
  assume pos: "0 < cf_joinLimitPerMinute cfg"
  obtain client where "client = openRedis (lb_redis libs) (cf_redisURL cfg)"
      "a_limiter (dp_api dp) = Some (limiter_New libs client (cf_joinLimitPerMinute cfg) minute)"
    using server_startD [OF started] cfg by (metis sum.inject(2))
  then have l: "lm_client l = None" "lm_limit l = cf_joinLimitPerMinute cfg" "lm_window l = minute" "lm_now l = lb_clock libs"
    using limiter alone LoadD(2) [OF cfg] by (auto simp: openRedis_def limiter_New_def)
  have window_pos: "0 < lm_window l" by (simp add: l minute_def second_def millisecond_def)
  obtain ks xs where run: "run_log l ks z = rev xs"
      and same: "list_all2 same_attempt (traffic (dp_api dp) websocket (dp_origins dp) l calls w) xs"
    using traffic_attempts [OF limiter l(1) _ websocket, of "[]" w "dp_origins dp" calls] pos fresh
    by (auto simp: run_log_def l)
  let ?in = "\<lambda>x. at_key x = ''join:'' @ ip \<and> at_memory x \<and> at_allowed x \<and> t \<le> at_time x \<and> at_time x < t + minute"
  have "length (filter (\<lambda>e. je_ip e = ip \<and> je_status e \<noteq> 429 \<and> t \<le> je_time e \<and> je_time e < t + minute)
      (traffic (dp_api dp) websocket (dp_origins dp) l calls w)) = length (filter ?in xs)"
    by (rule list_all2_filter_length [OF same]) (auto simp: same_attempt_def)
  also have "\<dots> = length (filter (\<lambda>a. t \<le> at_time a \<and> at_time a < t + lm_window l) (passed (''join:'' @ ip) (run_log l ks z)))"
    by (simp add: run passed_def rev_filter [symmetric] l conj_ac) 
  finally show "int (length (filter (\<lambda>e. je_ip e = ip \<and> je_status e \<noteq> 429 \<and> t \<le> je_time e \<and> je_time e < t + minute)
        (traffic (dp_api dp) websocket (dp_origins dp) l calls w))) \<le> 2 * cf_joinLimitPerMinute cfg"
    using at_most_twice_the_limit [OF _ window_pos, of t "''join:'' @ ip" ks z 0] clock pos l
    by (simp only: l)
qed

end
