(* ===== verification/Middleware.thy ===== *)
theory Middleware
  imports Router
begin

section \<open>The layers around the routes: http/middleware.go, writeJSON in http/api.go\<close>

text \<open>
  NewRouter wraps the mux as \<open>recoverPanics (logRequests (cors mux))\<close>. A handler is given here by what the
  layers see of it: its calls on the \<open>ResponseWriter\<close>, in order, and the value it panics with, if it
  does. The writer at the bottom is that of net/http: the first status is sent with the headers set by
  then, later ones are ignored, a body without a status sends 200.

  A body stands for the text it is encoded to; the texts of the mux itself, the headers that net/http
  adds, and \<open>Hijack\<close>, which only hands the connection on, are left out.
\<close>

subsection \<open>The writer\<close>

datatype writer_call = SetHeader string string | WriteHeader nat | WriteBody body

type_synonym headers = "(string \<times> string) list"

record response_writer =
  wr_header :: headers
  wr_sent :: "(nat \<times> headers) option"
  wr_body :: "body list"

definition fresh_writer :: response_writer where
  "fresh_writer = \<lparr>wr_header = [], wr_sent = None, wr_body = []\<rparr>"

definition send_status :: "nat \<Rightarrow> response_writer \<Rightarrow> response_writer" where
  "send_status st w = (if wr_sent w = None then w\<lparr>wr_sent := Some (st, wr_header w)\<rparr> else w)"

definition bodyAllowed :: "response_writer \<Rightarrow> bool" where
  "bodyAllowed w = (case wr_sent w of None \<Rightarrow> True | Some (st, _) \<Rightarrow> 200 \<le> st \<and> st \<noteq> 204 \<and> st \<noteq> 304)"

fun perform :: "writer_call \<Rightarrow> response_writer \<Rightarrow> response_writer" where
  "perform (SetHeader k v) w = w\<lparr>wr_header := AList.update k v (wr_header w)\<rparr>"
| "perform (WriteHeader st) w = send_status st w"
| "perform (WriteBody b) w =
     (let w1 = send_status 200 w in if bodyAllowed w1 then w1\<lparr>wr_body := wr_body w1 @ [b]\<rparr> else w1)"

text \<open>What the client gets once the handlers have returned.\<close>

definition client_gets :: "response_writer \<Rightarrow> nat \<times> headers \<times> body list" where
  "client_gets w = (let w1 = send_status 200 w in
     case wr_sent w1 of None \<Rightarrow> (200, [], []) | Some (st, h) \<Rightarrow> (st, h, wr_body w1))"

subsection \<open>writeJSON and the other answers\<close>

definition writeJSON :: "nat \<Rightarrow> body \<Rightarrow> writer_call list" where
  "writeJSON status b = [SetHeader ''Content-Type'' ''application/json'', WriteHeader status, WriteBody b]"

text \<open>The calls for a response: those of the export, a bare status, or \<open>writeJSON\<close>.\<close>

fun answer_calls :: "response \<Rightarrow> writer_call list" where
  "answer_calls (st, BCsv disposition csv) =
     [SetHeader ''Content-Type'' ''text/csv; charset=utf-8'', SetHeader ''Content-Disposition'' disposition,
      WriteBody (BCsv disposition csv)]"
| "answer_calls (st, BNone) = [WriteHeader st]"
| "answer_calls (st, b) = writeJSON st b"

definition rest_calls :: "headers \<Rightarrow> response \<Rightarrow> writer_call list" where
  "rest_calls headers r = map (\<lambda>(k, v). SetHeader k v) headers @ answer_calls r"

subsection \<open>The layers\<close>

datatype log_line = LogRequest nat | LogError string | LogPanic string

record statusRecorder =
  sr_writer :: response_writer
  sr_status :: nat

fun recorded :: "writer_call \<Rightarrow> statusRecorder \<Rightarrow> statusRecorder" where
  "recorded (WriteHeader code) s = s\<lparr>sr_status := code, sr_writer := perform (WriteHeader code) (sr_writer s)\<rparr>"
| "recorded c s = s\<lparr>sr_writer := perform c (sr_writer s)\<rparr>"

type_synonym served = "response_writer \<times> log_line list \<times> string option"

definition logRequests :: "writer_call list \<times> string option \<Rightarrow> response_writer \<Rightarrow> served" where
  "logRequests next_handler w =
     (let (calls, panics) = next_handler;
          s = fold recorded calls \<lparr>sr_writer = w, sr_status = 200\<rparr>
      in case panics of
           None \<Rightarrow> (sr_writer s, [LogRequest (sr_status s)], None)
         | Some v \<Rightarrow> (sr_writer s, [], Some v))"

definition recoverPanics :: "(response_writer \<Rightarrow> served) \<Rightarrow> response_writer \<Rightarrow> response_writer \<times> log_line list" where
  "recoverPanics next_handler w =
     (case next_handler w of
        (w1, entries, None) \<Rightarrow> (w1, entries)
      | (w1, entries, Some v) \<Rightarrow>
          (fold perform (answer_calls writeInternal) w1, entries @ [LogError ''panic in handler'', LogPanic v]))"

definition serve_http :: "writer_call list \<times> string option \<Rightarrow> (nat \<times> headers \<times> body list) \<times> log_line list" where
  "serve_http handler = (let (w, entries) = recoverPanics (logRequests handler) fresh_writer in (client_gets w, entries))"

subsection \<open>What they do\<close>

text \<open>The recorder hands every call on.\<close>

lemma recorded_writer: "sr_writer (fold recorded cs s) = fold perform cs (sr_writer s)"
proof (induction cs arbitrary: s)
  case (Cons c cs)
  then show ?case by (cases c) simp_all
qed simp

definition set_all :: "headers \<Rightarrow> headers \<Rightarrow> headers" where
  "set_all hs h = fold (\<lambda>(k, v). AList.update k v) hs h"

lemma perform_headers:
  "fold perform (map (\<lambda>(k, v). SetHeader k v) hs) w = w\<lparr>wr_header := set_all hs (wr_header w)\<rparr>"
  by (induction hs arbitrary: w) (auto simp: set_all_def)

lemma recorded_headers:
  "fold recorded (map (\<lambda>(k, v). SetHeader k v) hs) s = s\<lparr>sr_writer := (sr_writer s)\<lparr>wr_header := set_all hs (wr_header (sr_writer s))\<rparr>\<rparr>"
  by (induction hs arbitrary: s) (auto simp: set_all_def)

lemma set_all_keeps:
  "distinct (map fst hs) \<Longrightarrow> map_of (set_all hs h) k = (case map_of hs k of Some v \<Rightarrow> Some v | None \<Rightarrow> map_of h k)"
proof (induction hs arbitrary: h)
  case (Cons x hs)
  have "map_of hs (fst x) = None" using Cons.prems by (simp add: map_of_eq_None_iff)
  then show ?case using Cons by (cases x) (auto simp: set_all_def update_conv split: option.split)
qed (simp add: set_all_def)

text \<open>Where a status is sent it stays, with its headers.\<close>

lemma sent_stays: "wr_sent w = Some x \<Longrightarrow> wr_sent (fold perform cs w) = Some x"
proof (induction cs arbitrary: w)
  case (Cons c cs)
  then show ?case by (cases c) (simp_all add: send_status_def Let_def)
qed simp

fun speaks :: "writer_call \<Rightarrow> bool" where
  "speaks (SetHeader _ _) = False"
| "speaks _ = True"

lemma silent_calls:
  "\<not> list_ex speaks cs \<Longrightarrow> wr_sent (fold perform cs w) = wr_sent w \<and> wr_body (fold perform cs w) = wr_body w"
proof (induction cs arbitrary: w)
  case (Cons c cs)
  then show ?case by (cases c) simp_all
qed simp

lemma speaks_sends: "list_ex speaks cs \<Longrightarrow> \<exists>x. wr_sent (fold perform cs w) = Some x"
proof (induction cs arbitrary: w)
  case (Cons c cs)
  show ?case
  proof (cases "speaks c")
    case True
    then have "\<exists>x. wr_sent (perform c w) = Some x" by (cases c) (auto simp: send_status_def Let_def)
    then show ?thesis using sent_stays by fastforce
  next
    case False
    then show ?thesis using Cons by simp
  qed
qed simp

text \<open>An answer of the REST server passes through the writer as it is, and is recorded with its status.\<close>

lemma answer_sent:
  assumes "fits (st, b)" "wr_sent w = None" "wr_body w = []"
  shows "\<exists>h. client_gets (fold perform (answer_calls (st, b)) w) = (st, h, if b = BNone then [] else [b]) \<and>
    (\<forall>k v. map_of (wr_header w) k = Some v \<and> k \<notin> {''Content-Type'', ''Content-Disposition''} \<longrightarrow> map_of h k = Some v)"
  using assms
  by (cases b) (auto simp: writeJSON_def client_gets_def send_status_def bodyAllowed_def error_codes_def update_conv')

lemma answer_recorded:
  assumes "fits (st, b)"
  shows "sr_status (fold recorded (answer_calls (st, b)) \<lparr>sr_writer = w, sr_status = 200\<rparr>) = st"
  using assms by (cases b) (auto simp: writeJSON_def)

text \<open>The first status of such an answer is the one that it means.\<close>

lemma answer_first:
  assumes "fits (st, b)" "list_ex speaks (take n (answer_calls (st, b)))" "wr_sent w = None"
  shows "\<exists>h. wr_sent (fold perform (take n (answer_calls (st, b))) w) = Some (st, h)"
  using assms
  by (cases b) (auto simp: writeJSON_def take_Cons' send_status_def Let_def split: if_splits)

lemma silent_headers: "\<not> list_ex speaks (map (\<lambda>(k, v). SetHeader k v) hs)"
  by (induction hs) auto

lemma cors_headers:
  "rest a websocket origins origin method path rq w = (headers, r, w') \<Longrightarrow>
   distinct (map fst headers) \<and> set (map fst headers) \<inter> {''Content-Type'', ''Content-Disposition''} = {}"
  by (auto simp: rest_def cors_def split: if_splits)

lemma rest_first:
  assumes "fits (st, b)" "list_ex speaks (take n (rest_calls headers (st, b)))"
  shows "\<exists>h. wr_sent (fold perform (take n (rest_calls headers (st, b))) fresh_writer) = Some (st, h)"
proof -
  let ?hs = "map (\<lambda>(k, v). SetHeader k v) headers"
  let ?w = "fold perform (take n ?hs) fresh_writer"
  have quiet: "\<not> list_ex speaks (take n ?hs)" using silent_headers [of "take n headers"] by (simp add: take_map)
  then have "wr_sent ?w = None" using silent_calls [OF quiet, of fresh_writer] by (simp add: fresh_writer_def)
  moreover have "list_ex speaks (take (n - length headers) (answer_calls (st, b)))"
    using assms(2) quiet by (simp add: rest_calls_def)
  ultimately show ?thesis using answer_first [OF assms(1)] by (simp add: rest_calls_def)
qed

lemma panic_calls:
  "serve_http (cs, Some v) = (client_gets (fold perform (answer_calls writeInternal) (fold perform cs fresh_writer)),
     [LogError ''panic in handler'', LogPanic v])"
  by (simp add: serve_http_def recoverPanics_def logRequests_def recorded_writer)

text \<open>
  C26. The layers around the routes change no answer: status, body and CORS headers arrive as the handler
  gave them, and the status is the one in the log. A handler that panics before it has answered is
  answered for with 500 \<open>INTERNAL\<close>, with the headers that were set by then, CORS included; one that
  panics after its status has gone out leaves the client with that status; the value it panicked with
  is in the log, and no line for the request.
\<close>

theorem panic_is_answered:
  fixes a :: "('b, 'z) api"
  assumes "path \<noteq> [''ws'']" "rest a websocket origins origin method path rq w = (headers, (st, b), w')"
  shows "(\<exists>h. serve_http (rest_calls headers (st, b), None) = ((st, h, if b = BNone then [] else [b]), [LogRequest st]) \<and>
      (\<forall>(k, u) \<in> set headers. map_of h k = Some u)) \<and>
    (\<forall>n v. let calls = take n (rest_calls headers (st, b)) in
      list_ex speaks calls \<longrightarrow> fst (fst (serve_http (calls, Some v))) = st) \<and>
    (\<forall>calls v. \<not> list_ex speaks calls \<longrightarrow>
      (\<exists>h. serve_http (calls, Some v) =
          ((500, h, [BError ''INTERNAL'' ''internal error'']), [LogError ''panic in handler'', LogPanic v]) \<and>
        map_of h ''Content-Type'' = Some ''application/json'' \<and>
        (\<forall>k u. k \<noteq> ''Content-Type'' \<longrightarrow> map_of (wr_header (fold perform calls fresh_writer)) k = Some u \<longrightarrow> map_of h k = Some u)))"
proof -
  have ok: "fits (st, b)" by (rule rest_fits [OF assms])
  have hd: "distinct (map fst headers)" "set (map fst headers) \<inter> {''Content-Type'', ''Content-Disposition''} = {}"
    using cors_headers [OF assms(2)] by simp_all
  let ?w = "fold perform (map (\<lambda>(k, v). SetHeader k v) headers) fresh_writer"
  have w: "wr_sent ?w = None" "wr_body ?w = []" "wr_header ?w = set_all headers []"
    by (simp_all add: perform_headers fresh_writer_def)
  obtain h where h: "client_gets (fold perform (answer_calls (st, b)) ?w) = (st, h, if b = BNone then [] else [b])"
      "\<And>k v. map_of (wr_header ?w) k = Some v \<and> k \<notin> {''Content-Type'', ''Content-Disposition''} \<longrightarrow> map_of h k = Some v"
    using answer_sent [OF ok w(1,2)] by blast
  have "map_of h k = Some u" if "(k, u) \<in> set headers" for k u
  proof -
    have "map_of (wr_header ?w) k = Some u" using that hd(1) by (simp add: w(3) set_all_keeps)
    moreover have "k \<notin> {''Content-Type'', ''Content-Disposition''}" using that hd(2) by force
    ultimately show ?thesis using h(2) by blast
  qed
  moreover have "serve_http (rest_calls headers (st, b), None) = (client_gets (fold perform (answer_calls (st, b)) ?w), [LogRequest st])"
    by (simp add: serve_http_def recoverPanics_def logRequests_def recorded_writer rest_calls_def recorded_headers
      perform_headers answer_recorded [OF ok])
  ultimately have one: "\<exists>h. serve_http (rest_calls headers (st, b), None) = ((st, h, if b = BNone then [] else [b]), [LogRequest st]) \<and>
      (\<forall>(k, u) \<in> set headers. map_of h k = Some u)"
    unfolding h(1) by blast
  have two: "fst (fst (serve_http (take n (rest_calls headers (st, b)), Some v))) = st"
    if speaking: "list_ex speaks (take n (rest_calls headers (st, b)))" for n v
  proof -
    obtain h where "wr_sent (fold perform (take n (rest_calls headers (st, b))) fresh_writer) = Some (st, h)"
      using rest_first [OF ok speaking] by blast
    from sent_stays [OF this, of "answer_calls writeInternal"] show ?thesis
      unfolding panic_calls by (simp add: client_gets_def send_status_def)
  qed
  have three: "\<exists>h. serve_http (calls, Some v) =
          ((500, h, [BError ''INTERNAL'' ''internal error'']), [LogError ''panic in handler'', LogPanic v]) \<and>
        map_of h ''Content-Type'' = Some ''application/json'' \<and>
        (\<forall>k u. k \<noteq> ''Content-Type'' \<longrightarrow> map_of (wr_header (fold perform calls fresh_writer)) k = Some u \<longrightarrow> map_of h k = Some u)"
    if "\<not> list_ex speaks calls" for calls v
    using silent_calls [OF that, of fresh_writer] unfolding panic_calls
    by (simp add: fresh_writer_def writeInternal_def writeError_def writeJSON_def client_gets_def send_status_def
        bodyAllowed_def Let_def update_conv')
  show ?thesis
    unfolding Let_def using one two three by blast
qed

end
