(* ===== verification/Scenario.thy ===== *)
theory Scenario
  imports GameStore Gameplay Leaderboard
begin

section \<open>A concrete game\<close>

text \<open>
  A small world in which the hypotheses of the theorems hold and the definitions run: a database
  with a host, a room of two questions and two players, a server without faults, and a clock on
  which two readings are one second apart.
\<close>

definition demo_uuid_parse :: "string \<Rightarrow> uid option" where
  "demo_uuid_parse s = (if s = '''' then None else Some s)"

definition demo_gen_uuid :: "nat \<Rightarrow> uid" where
  "demo_gen_uuid n = replicate (Suc n) (CHR ''u'')"

definition demo_now :: "nat \<Rightarrow> time" where
  "demo_now n = int n * second"

definition demo_fault :: "nat \<Rightarrow> fault" where
  "demo_fault n = NoFault"

definition demo_draw :: "nat \<Rightarrow> nat" where
  "demo_draw n = 3 * n"

definition demo_pg :: pg where
  "demo_pg = \<lparr>uuid_parse = demo_uuid_parse, gen_uuid = demo_gen_uuid, server_now = demo_now,
     fault = demo_fault\<rparr>"

definition demo_text :: "string \<Rightarrow> text_bi" where
  "demo_text s = \<lparr>t_id = s, t_en = ''''\<rparr>"

definition demo_options :: "option_q list" where
  "demo_options = [\<lparr>o_id = ''x'', o_label = demo_text ''X'', o_correct = True\<rparr>,
     \<lparr>o_id = ''y'', o_label = demo_text ''Y'', o_correct = False\<rparr>]"

definition demo_question :: "string \<Rightarrow> int \<Rightarrow> question" where
  "demo_question i level = \<lparr>q_id = i, q_site = 1, q_level = level, q_type = ''mc'',
     q_prompt = demo_text ''P'', q_explanation = demo_text ''E'', q_options = demo_options\<rparr>"

definition demo_questions :: "question list" where
  "demo_questions = [demo_question ''q1'' 1, demo_question ''q2'' 2]"

definition demo_question_row :: "string \<Rightarrow> int \<Rightarrow> question_row" where
  "demo_question_row i level = \<lparr>qr_qid = i, qr_qsite = 1, qr_qlevel = level, qr_qtype = ''mc'',
     qr_prompt = marshal_text (demo_text ''P''), qr_options = marshal_options demo_options,
     qr_explanation = marshal_text (demo_text ''E''), qr_active = True\<rparr>"

definition demo_player_row :: "uid \<Rightarrow> string \<Rightarrow> player_row" where
  "demo_player_row i nick = \<lparr>pr_id = i, pr_roomID = ''r'', pr_nickname = nick, pr_schoolID = None,
     pr_jenjang = ''SMP'', pr_avatar = 1, pr_lang = ''id'', pr_score = 0, pr_correctCount = 0,
     pr_totalMs = 0, pr_currentIndex = 0, pr_streak = 0, pr_finishedAt = None\<rparr>"

definition demo_room_row :: room_row where
  "demo_room_row = \<lparr>rr_id = ''r'', rr_pin = ''123456'', rr_hostID = ''h'', rr_jenjang = ''SMP'',
     rr_shortSession = True, rr_accuracyMode = False, rr_status = Lobby,
     rr_questionIDs = [''q1'', ''q2''], rr_createdAt = 0, rr_startedAt = None, rr_endedAt = None\<rparr>"

definition demo_db :: db where
  "demo_db = \<lparr>tabs = \<lparr>tb_hosts = [\<lparr>hr_id = ''h'', hr_email = ''e'', hr_passwordHash = ''p'', hr_name = ''n'',
       hr_lastLoginAt = None\<rparr>],
     tb_rooms = [demo_room_row], tb_players = [demo_player_row ''a'' ''Ani'', demo_player_row ''b'' ''Budi''],
     tb_answers = [], tb_schools = [],
     tb_questions = [demo_question_row ''q1'' 1, demo_question_row ''q2'' 2]\<rparr>, trips = 0\<rparr>"

definition demo_deps :: "(db, unit) deps" where
  "demo_deps = \<lparr>d_store = store_ops (reliable demo_pg), d_board = None,
     d_clock = demo_now, d_rng = demo_draw, d_lbInterval = DefaultLBInterval\<rparr>"

definition demo_players :: "player list" where
  "demo_players = (case PlayersOfRoom (reliable demo_pg) ''r'' demo_db of (Inr ps, _) \<Rightarrow> ps | _ \<Rightarrow> [])"

definition demo_start :: "(db, unit) room" where
  "demo_start = newRoom demo_deps (roomFromRow demo_room_row) demo_players demo_questions demo_db ()"

definition demo_events :: "event list" where
  "demo_events = [EvRestoreBoard, EvAttachHost ''h'' 0, EvAttachPlayer ''a'' 1, EvAttachPlayer ''b'' 2,
     EvStart, EvNext ''a'', EvNext ''b'']"

text \<open>The room after it has served both players their first question.\<close>

definition demo_game :: "(db, unit) room" where
  "demo_game = run_events demo_deps demo_events demo_start"

definition demo_a :: player_state where
  "demo_a = the (player_of demo_game ''a'')"

definition demo_q :: active_question where
  "demo_q = the (ps_active demo_a)"

definition demo_out :: "string option \<Rightarrow> outcome" where
  "demo_out oid = fst (outcomeOf demo_deps demo_a demo_q oid demo_game)"

definition demo_saved :: "string option \<Rightarrow> store_error option \<times> db" where
  "demo_saved oid = save_call demo_deps demo_a demo_q (demo_out oid) demo_game"

lemma demo_mono: "mono (d_clock demo_deps)" "mono (server_now demo_pg)" "mono (server_now (reliable demo_pg))"
  by (auto simp: mono_def demo_deps_def demo_pg_def demo_now_def second_def millisecond_def reliable_def)

lemma demo_store: "d_store demo_deps = store_ops (reliable demo_pg)"
  by (simp add: demo_deps_def)

lemma demo_player_none: "player_of demo_game ''a'' \<noteq> None"
  by code_simp

lemma demo_player: "player_of demo_game ''a'' = Some demo_a"
  using demo_player_none by (auto simp: demo_a_def)

lemma demo_active_none: "ps_active demo_a \<noteq> None"
  by code_simp

lemma demo_active: "ps_active demo_a = Some demo_q"
  using demo_active_none by (auto simp: demo_q_def)

lemma demo_running: "r_status demo_game = Running"
  by code_simp

lemma demo_question_eqs: "q_id (aq_question demo_q) = ''q1''" "q_level (aq_question demo_q) = 1"
    "hasOption (aq_options demo_q) ''x''" "isCorrect (aq_options demo_q) ''x''" "ps_sink demo_a = Some 1"
  by code_simp+

lemma demo_clock: "d_clock demo_deps (r_tick demo_game) < aq_deadline demo_q"
  by code_simp+

lemma demo_saves: "fst (demo_saved (Some ''x'')) = None" "fst (demo_saved None) = None"
  by code_simp+

lemma demo_save_call: "fst (demo_saved oid) = None \<Longrightarrow>
    save_call demo_deps demo_a demo_q (fst (outcomeOf demo_deps demo_a demo_q oid demo_game)) demo_game =
      (None, snd (demo_saved oid))"
  by (simp add: demo_saved_def demo_out_def prod_eq_iff)

lemma demo_timeout: "fst (outcomeOf demo_deps demo_a demo_q None demo_game) = timeoutOutcome demo_q"
  by (simp add: outcomeOf_def read_clock_def)

lemma demo_players_ok: "players_loaded_ok demo_questions demo_players"
  by code_simp

lemma demo_lobby: "rd_status (roomFromRow demo_room_row) \<noteq> Ended"
  by (simp add: roomFromRow_def demo_room_row_def)

lemma demo_reached: "room_steps demo_deps demo_start demo_game"
  unfolding demo_game_def by (rule run_events_steps) (rule room_steps.refl)

lemma demo_inv: "room_inv demo_deps demo_game"
  using room_inv_steps [OF demo_reached [unfolded demo_start_def] demo_mono(1)
      room_inv_newRoom [OF demo_mono(1) demo_players_ok]] demo_lobby
  by (simp add: newRoom_fields)

lemma run_events_sys:
  "(\<forall>p. EvAddPlayer p \<notin> set evs) \<Longrightarrow> sys_steps rely joined d r0 r \<Longrightarrow>
   sys_steps rely joined d r0 (run_events d evs r)"
proof (induction evs arbitrary: r)
  case (Cons ev evs)
  then show ?case
    by (auto intro!: Cons.IH intro: sys_steps.step sys_step.event)
qed simp

lemma demo_loads: "loads demo_pg demo_db (roomFromRow demo_room_row) demo_players demo_questions"
proof -
  have "questions_ok demo_questions" by code_simp
  moreover have "loaded_from db_progress db_answered (canonical demo_pg) demo_db demo_questions demo_players"
    by code_simp
  ultimately show ?thesis using demo_players_ok demo_lobby by (simp add: loads_def)
qed

lemma demo_runs: "db_runs demo_pg demo_deps demo_start demo_game"
  unfolding demo_game_def by (rule run_events_sys) (auto simp: demo_events_def intro: sys_steps.refl)

lemma demo_tables_ok: "tables_ok (tabs demo_db)" "tables_ok (tabs (r_store demo_game))"
  by code_simp+

section \<open>The theorems on it\<close>

theorem room_inv_reachable_witness: "room_inv demo_deps demo_game"
  by (rule room_inv_reachable [OF demo_mono(1) demo_players_ok demo_lobby demo_reached [unfolded demo_start_def]])

theorem status_moves_forward_witness: "status_rank (r_status demo_start) \<le> status_rank (r_status demo_game)"
  by (rule status_moves_forward [OF demo_reached])

lemma demo_option: "Some ''x'' = Some i \<Longrightarrow> hasOption (aq_options demo_q) i"
  using demo_question_eqs(3) by auto

theorem answer_accepted_witness:
  "\<exists>f \<in> {\<lambda>x. x, disconnected}. \<forall>k.
      player_of (answer demo_deps ''a'' ''q1'' (Some ''x'') demo_game) k =
        map_option f (if k = ''a'' then Some (settled demo_a (demo_out (Some ''x''))) else player_of demo_game k)"
  using conjunct1 [OF answer_accepted [OF demo_player demo_running demo_active demo_option HOL.refl
      demo_save_call [OF demo_saves(1)]]]
  unfolding demo_question_eqs(1) demo_out_def .

theorem correct_answer_scores_witness:
  "\<exists>p'. player_of (answer demo_deps ''a'' ''q1'' (Some ''x'') demo_game) ''a'' = Some p' \<and>
     ps_score p' \<ge> 300 \<and> ps_streak p' = 1 \<and> ps_active p' = None"
proof -
  have z: "ps_score demo_a = 0" "ps_streak demo_a = 0" by code_simp+
  have le: "d_clock demo_deps (r_tick demo_game) \<le> aq_deadline demo_q" using demo_clock by simp
  have lv: "q_level (aq_question demo_q) \<in> {1, 2, 3}" by (simp add: demo_question_eqs)
  obtain p' where p': "player_of (answer demo_deps ''a'' ''q1'' (Some ''x'') demo_game) ''a'' = Some p'"
    and s: "basePoints 1 * 3 / 5 \<le> of_int (ps_score p' - ps_score demo_a)"
      "ps_streak p' = ps_streak demo_a + 1" "ps_active p' = None"
    using correct_answer_scores [OF demo_inv demo_player demo_running demo_active demo_question_eqs(3,4) lv le
        demo_save_call [OF demo_saves(1)]]
    by (auto simp: demo_question_eqs)
  have "basePoints 1 = 500" by (simp add: basePoints_def)
  then show ?thesis using p' s z by auto
qed

theorem missed_question_counts_as_timeout_witness:
  "\<exists>p'. player_of (answer demo_deps ''a'' ''q1'' None demo_game) ''a'' = Some p' \<and>
     ps_score p' = ps_score demo_a \<and> ps_streak p' = 0 \<and> ps_resolved p' = ps_resolved demo_a + 1"
  using missed_question_counts_as_timeout [of demo_game "''a''" demo_a demo_q None demo_deps "snd (demo_saved None)",
      OF demo_player demo_running demo_active]
    demo_save_call [OF demo_saves(2)]
  by (auto simp: demo_question_eqs demo_timeout)

theorem game_ends_with_last_answer_witness:
  "r_status (answer demo_deps ''a'' ''q1'' (Some ''x'') demo_game) =
    (if finishes demo_game demo_a \<and> (\<forall>k q. k \<noteq> ''a'' \<longrightarrow> player_of demo_game k = Some q \<longrightarrow>
          int (length (r_questions demo_game)) \<le> ps_resolved q)
     then Ended else Running)"
  using game_ends_with_last_answer [OF demo_inv demo_player demo_running demo_active _
      demo_save_call [OF demo_saves(1)]]
  by (simp add: demo_question_eqs)

theorem no_question_skipped_witness:
  "\<exists>out. nextQuestion demo_deps ''a'' demo_game = demo_game\<lparr>r_tick := Suc (r_tick demo_game), r_out := out\<rparr>"
  using no_question_skipped [OF demo_player demo_running demo_active demo_clock] by blast

theorem memory_matches_database_witness:
  "db_progress (r_store demo_game) ''a'' = Some (totals_of (length (r_questions demo_game)) demo_a) \<and>
    db_answered (r_store demo_game) ''a'' = resolved_ids demo_game demo_a"
  by (rule memory_matches_database [OF demo_mono(1) demo_store demo_loads demo_runs [unfolded demo_start_def]
      demo_player])

theorem no_duplicate_refusal_witness:
  "fst (save_call demo_deps demo_a demo_q (demo_out None) demo_game) \<noteq> Some DuplicateAnswer"
  by (rule no_duplicate_refusal [OF demo_mono(1) demo_store demo_loads demo_runs [unfolded demo_start_def]
      demo_player demo_active])

subsection \<open>The next question\<close>

definition demo_open :: "(db, unit) room" where
  "demo_open = run_events demo_deps (take 5 demo_events) demo_start"

definition demo_waiting :: player_state where
  "demo_waiting = the (player_of demo_open ''a'')"

lemma demo_open_facts: "player_of demo_open ''a'' \<noteq> None" "r_status demo_open = Running"
    "ps_active demo_waiting = None" "ps_resolved demo_waiting < int (length (r_questions demo_open))"
  by code_simp+


subsection \<open>Saving with faults\<close>

definition demo_fails :: "nat \<Rightarrow> fault" where
  "demo_fails n = Fails"

definition demo_down :: "(db, unit) deps" where
  "demo_down = demo_deps\<lparr>d_store := store_ops (demo_pg\<lparr>fault := demo_fails\<rparr>)\<rparr>"

theorem failed_save_changes_nothing_witness:
  "\<exists>s out. answer demo_down ''a'' ''q1'' (Some ''x'') demo_game =
      demo_game\<lparr>r_tick := Suc (r_tick demo_game), r_store := s, r_out := out\<rparr>"
proof -
  let ?c = "save_call demo_down demo_a demo_q (fst (outcomeOf demo_down demo_a demo_q (Some ''x'') demo_game)) demo_game"
  have "fst ?c \<noteq> None" by code_simp
  then obtain e s where c: "?c = (Some e, s)" by (cases ?c) auto
  show ?thesis
    using failed_save_changes_nothing [OF demo_player demo_running demo_active demo_option c]
    unfolding demo_question_eqs(1) by blast
qed

text \<open>The acknowledgement of the commit of the first answer is lost.\<close>

definition demo_ack :: "nat \<Rightarrow> fault" where
  "demo_ack n = (if n = 4 then AckLost else NoFault)"

definition demo_lossy_pg :: pg where
  "demo_lossy_pg = demo_pg\<lparr>fault := demo_ack\<rparr>"

definition demo_lossy :: "(db, unit) deps" where
  "demo_lossy = demo_deps\<lparr>d_store := store_ops demo_lossy_pg\<rparr>"

definition demo_lost :: "store_error option \<times> db" where
  "demo_lost = save_call demo_lossy demo_a demo_q (demo_out (Some ''x'')) demo_game"

theorem stuck_after_lost_ack_witness:
  "fst demo_lost \<noteq> None \<and>
   fst (resolve demo_lossy ''a'' demo_a demo_q (demo_out None) True (demo_game\<lparr>r_store := snd demo_lost\<rparr>)) = False"
proof -
  have "fst demo_lost \<noteq> None" by code_simp
  moreover have a: "q_id (aq_question demo_q) \<in> db_answered (r_store (demo_game\<lparr>r_store := snd demo_lost\<rparr>)) (pl_id (ps_info demo_a))"
    by code_simp
  moreover have c: "canonical demo_lossy_pg (pl_id (ps_info demo_a))" by code_simp
  ultimately show ?thesis
    using stuck_after_lost_ack [of demo_lossy demo_lossy_pg demo_a demo_q, OF _ c demo_active a] by (simp add: demo_lossy_def)
qed

theorem SaveResult_all_or_nothing_witness:
  "saves ''a'' (result_of demo_a demo_q (demo_out None) (advance demo_a (demo_out None)) False)
     (tabs (r_store demo_game)) (tabs (snd (demo_saved None)))"
proof -
  let ?r = "result_of demo_a demo_q (demo_out None) (advance demo_a (demo_out None)) (finishes demo_game demo_a)"
  have e: "SaveResult (reliable demo_pg) ?r (r_store demo_game) = (None, snd (demo_saved None))"
    using demo_saves(2) by (simp add: demo_saved_def save_call_def demo_store store_ops_def prod_eq_iff)
  have u: "uuid_parse (reliable demo_pg) (rs_playerID ?r) = Some ''a''" by code_simp
  have "\<not> finishes demo_game demo_a" by code_simp
  then show ?thesis using SaveResult_all_or_nothing [OF u e] by simp
qed

subsection \<open>Loading, joining, creating\<close>

theorem reload_restores_totals_witness:
  "list_all (\<lambda>p'. totals_of 2 (new_player_state p') = totals_of 2 (the (player_of demo_game (pl_id p'))))
     demo_players"
proof -
  have n: "length (r_questions demo_game) = 2" by code_simp
  have e: "fst (PlayersOfRoom (reliable demo_pg) ''r'' (r_store demo_game)) = Inr demo_players" by code_simp
  then have pp: "PlayersOfRoom (reliable demo_pg) ''r'' (r_store demo_game) =
      (Inr demo_players, snd (PlayersOfRoom (reliable demo_pg) ''r'' (r_store demo_game)))"
    by (simp add: prod_eq_iff)
  have k: "list_all (\<lambda>p'. player_of demo_game (pl_id p') \<noteq> None) demo_players" by code_simp
  have "totals_of 2 (new_player_state p') = totals_of 2 (the (player_of demo_game (pl_id p')))"
    if m: "p' \<in> set demo_players" for p'
  proof -
    obtain p where p: "player_of demo_game (pl_id p') = Some p" using k m by (auto simp: list_all_iff)
    show ?thesis
      using reload_restores_totals [OF demo_mono(1) demo_store demo_loads demo_runs [unfolded demo_start_def]
          demo_tables_ok(2) pp m p] n p by simp
  qed
  then show ?thesis by (simp add: list_all_iff)
qed

definition demo_join :: new_player where
  "demo_join = \<lparr>np_roomID = ''r'', np_nickname = ''Citra'', np_jenjang = ''SMP'', np_lang = ''id'',
     np_schoolID = None, np_avatar = 2\<rparr>"

theorem others_do_not_interfere_witness:
  "keeps_view db_progress db_answered {''a'', ''b''} demo_db (snd (JoinRoom (reliable demo_pg) demo_join demo_db))"
proof (rule others_do_not_interfere [OF other_step.join])
  show "\<forall>k \<in> {''a'', ''b''}. db_progress demo_db k \<noteq> None" by code_simp
qed


definition demo_new_room :: new_room where
  "demo_new_room = \<lparr>nr_hostID = ''h'', nr_jenjang = ''SMP'', nr_shortSession = True,
     nr_accuracyMode = False, nr_questionIDs = [''q1'', ''q2'']\<rparr>"

definition demo_random :: "nat \<Rightarrow> nat option" where
  "demo_random n = Some (123456 + n)"

text \<open>The first PIN is taken, the second is free.\<close>

lemma demo_pins: "randomPIN (demo_random 0) = Some ''123456''" "randomPIN (demo_random (Suc 0)) = Some ''123457''"
  by (simp_all add: randomPIN_def demo_random_def format_pin_def digit_def pinSpace_def, code_simp+)

lemma demo_attempts:
  "insertRoom demo_pg ''h'' ''123456'' demo_new_room demo_db = (Inl (Driver UniqueViolation), demo_db\<lparr>trips := 4\<rparr>)"
  "\<not> isl (fst (insertRoom demo_pg ''h'' ''123457'' demo_new_room (demo_db\<lparr>trips := 4\<rparr>)))"
  by code_simp+

lemma demo_creates: "\<not> isl (fst (CreateRoom demo_pg demo_random demo_new_room demo_db))"
proof -
  have "[0..<pinAttempts] = 0 # 1 # [2..<pinAttempts]" by code_simp
  then have "map demo_random [0..<pinAttempts] = demo_random 0 # demo_random (Suc 0) # map demo_random [2..<pinAttempts]"
    by simp
  moreover have "uuid_parse demo_pg (nr_hostID demo_new_room) = Some ''h''" by code_simp
  ultimately show ?thesis
    using demo_attempts by (auto simp: CreateRoom_def demo_pins split: prod.split sum.split)
qed


theorem store_limits_hold_witness:
  "db_ok demo_pg (snd (JoinRoom demo_pg demo_join demo_db))"
proof (rule store_limits_hold)
  show "store_steps demo_pg demo_db (snd (JoinRoom demo_pg demo_join demo_db))"
    by (rule store_steps.step [OF store_steps.refl store_step.join_room])
  have "active_rooms now (tabs demo_db) \<le> length (tb_rooms (tabs demo_db))" for now
    unfolding active_rooms_def by (rule length_filter_le)
  moreover have "length (tb_rooms (tabs demo_db)) = 1" by (simp add: demo_db_def)
  ultimately have "active_rooms now (tabs demo_db) \<le> MaxActiveRooms" for now
    by (metis MaxActiveRooms_def one_le_numeral order_trans)
  moreover have "length (tb_players (tabs demo_db)) = 2" by (simp add: demo_db_def)
  then have "count_players rid (tabs demo_db) \<le> MaxPlayersInRoom" for rid
    using length_filter_le [of "\<lambda>p. pr_roomID p = rid" "tb_players (tabs demo_db)"]
    by (simp add: count_players_def MaxPlayersInRoom_def)
  then have "room_caps (tabs demo_db)" by (simp add: room_caps_def)
  ultimately show "db_ok demo_pg demo_db" using demo_tables_ok(1) by (simp add: db_ok_def)
qed (rule demo_mono)

subsection \<open>With a leaderboard\<close>

definition demo_board :: "(db, memory) deps" where
  "demo_board = \<lparr>d_store = store_ops (reliable demo_pg), d_board = Some (board_ops memory_redis),
     d_clock = demo_now, d_rng = demo_draw, d_lbInterval = DefaultLBInterval\<rparr>"

definition demo_empty :: memory where
  "demo_empty key = []"

definition demo_shown :: "(db, memory) room" where
  "demo_shown = turn demo_board EvStart (turn demo_board EvRestoreBoard
     (newRoom demo_board (roomFromRow demo_room_row) demo_players demo_questions demo_db demo_empty))"



end
