(* ===== verification/Scenes.thy ===== *)
theory Scenes
  imports Scenario Serving
begin

section \<open>The server on the demo world\<close>

text \<open>
  The witnesses for the theorems on the server around the rooms, in the world of \<open>Scenario\<close>.
\<close>

subsection \<open>Two requests load the same room at once\<close>

definition run_get :: "('s, 'b) deps \<Rightarrow> nat \<Rightarrow> ('s, 'b) server \<Rightarrow> ('s, 'b) server" where
  "run_get d i sv = (case sv_gets sv i of None \<Rightarrow> sv
     | Some g \<Rightarrow> let (g', sv') = get_step d g sv in sv'\<lparr>sv_gets := (sv_gets sv')(i \<mapsto> g')\<rparr>)"

lemma run_get_steps: "server_steps d sv0 sv \<Longrightarrow> server_steps d sv0 (run_get d i sv)"
  by (cases "sv_gets sv i")
    (auto simp: run_get_def split: prod.splits intro: server_steps.step server_step.step_get)

definition demo_boot :: "(db, unit) server" where
  "demo_boot = new_server demo_db ()"

definition demo_asked :: "(db, unit) server" where
  "demo_asked = demo_boot\<lparr>sv_gets := [0 \<mapsto> GetLookup ''r'', 1 \<mapsto> GetLookup ''r'']\<rparr>"

text \<open>The first request stops before \<open>spawn\<close>, the second overtakes it.\<close>

definition demo_server :: "(db, unit) server" where
  "demo_server = fold (run_get demo_deps) [0, 0, 0, 0, 1, 1, 1, 1, 1, 0] demo_asked"

lemma demo_gets_reached: "server_steps demo_deps demo_boot (fold (run_get demo_deps) is demo_asked)"
proof -
  have "server_steps demo_deps demo_boot demo_boot" by (rule server_steps.refl)
  then have "server_steps demo_deps demo_boot (demo_boot\<lparr>sv_gets := [0 \<mapsto> GetLookup ''r'']\<rparr>)"
    using server_step.begin_get [of demo_boot 0 demo_deps "''r''"]
    by (auto intro: server_steps.step simp: demo_boot_def new_server_def)
  then have "server_steps demo_deps demo_boot demo_asked"
    using server_step.begin_get [of "demo_boot\<lparr>sv_gets := [0 \<mapsto> GetLookup ''r'']\<rparr>" 1 demo_deps "''r''"]
    by (auto intro: server_steps.step simp: demo_asked_def)
  then show ?thesis by (induction "is" rule: rev_induct) (auto intro: run_get_steps)
qed

lemma demo_server_reached: "server_steps demo_deps (new_server demo_db ()) demo_server"
  unfolding demo_server_def demo_boot_def [symmetric] by (rule demo_gets_reached)

lemma demo_server_gets: "sv_gets demo_server 0 = Some (Got (Inr 0))" "sv_gets demo_server 1 = Some (Got (Inr 0))"
  by code_simp+

definition demo_live :: "(db, unit) live_room" where
  "demo_live = the (sv_heap demo_server 0)"

lemma demo_heap_some: "sv_heap demo_server 0 \<noteq> None"
  by code_simp

lemma demo_heap: "sv_heap demo_server 0 = Some demo_live"
  using demo_heap_some by (auto simp: demo_live_def)

lemma demo_live_fields: "\<not> r_done (lr_room demo_live)" "r_id (lr_room demo_live) = ''r''"
  by code_simp+

theorem one_room_per_id_witness: "lookup ''r'' demo_server = Some 0"
  using one_room_per_id [OF demo_server_reached demo_heap demo_live_fields(1) demo_heap demo_live_fields(1) HOL.refl]
  by (simp add: demo_live_fields)

theorem Get_answers_witness:
  "\<exists>res sv'. Get demo_deps ''r'' demo_boot = (Got res, sv') \<and>
     get_answers demo_deps (reliable demo_pg) ''r'' demo_boot res sv'"
proof (rule Get_answers)
  show "d_store demo_deps = store_ops (reliable demo_pg)" by (rule demo_store)
  show "calm (reliable demo_pg)" by (simp add: calm_def reliable_def demo_pg_def demo_fault_def)
  show "uuid_parse (reliable demo_pg) ''r'' = Some ''r''" by code_simp
  show "lookup ''r'' demo_boot = None" by code_simp
qed

subsection \<open>A request that stalls while the room ends\<close>

definition run_event :: "('s, 'b) deps \<Rightarrow> nat \<Rightarrow> event \<Rightarrow> ('s, 'b) server \<Rightarrow> ('s, 'b) server" where
  "run_event d h ev sv = (case sv_heap sv h of None \<Rightarrow> sv
     | Some i \<Rightarrow> if \<not> lr_leaving i \<and> enabled d ev (loaded sv (lr_room i)) then room_event d h ev (lr_room i) sv else sv)"

definition run_leave :: "nat \<Rightarrow> ('s, 'b) server \<Rightarrow> ('s, 'b) server" where
  "run_leave h sv = (case sv_heap sv h of None \<Rightarrow> sv
     | Some i \<Rightarrow> if lr_leaving i \<and> \<not> r_done (lr_room i) then room_leaves h (lr_room i) sv else sv)"

lemma live_room_eq: "i = \<lparr>lr_room = lr_room i, lr_leaving = lr_leaving i\<rparr>" for i :: "('s, 'b) live_room"
  by simp

lemma run_event_steps: "server_steps d sv0 sv \<Longrightarrow> server_steps d sv0 (run_event d h ev sv)"
proof (cases "sv_heap sv h")
  case (Some i)
  assume "server_steps d sv0 sv"
  then show ?thesis
    using server_step.event [of sv h "lr_room i" d ev] Some live_room_eq [of i]
    by (cases "lr_leaving i") (auto simp: run_event_def intro: server_steps.step)
qed (simp add: run_event_def)

lemma run_leave_steps: "server_steps d sv0 sv \<Longrightarrow> server_steps d sv0 (run_leave h sv)"
proof (cases "sv_heap sv h")
  case (Some i)
  assume "server_steps d sv0 sv"
  then show ?thesis
    using server_step.leave [of sv h "lr_room i" d] Some live_room_eq [of i]
    by (cases "lr_leaving i") (auto simp: run_leave_def intro: server_steps.step)
qed (simp add: run_leave_def)

text \<open>
  The first request has read room, players and questions; before it calls \<open>spawn\<close>, a second one
  loads the room, the host ends the game, and the instance leaves the registry.
\<close>

definition demo_stalled :: "(db, unit) server" where
  "demo_stalled = fold (run_get demo_deps) [0, 0, 0, 0, 1, 1, 1, 1, 1] demo_asked"

definition demo_revived :: "(db, unit) server" where
  "demo_revived = run_get demo_deps 0 (run_leave 0 (run_event demo_deps 0 EvEnd demo_stalled))"

lemma demo_stalled_reached: "server_steps demo_deps (new_server demo_db ()) demo_stalled"
  unfolding demo_stalled_def demo_boot_def [symmetric] by (rule demo_gets_reached)

text \<open>
  C38. An ended room can come back to life: \<open>spawn\<close> looks only for a live instance, so a request that
  read the room before it ended and reaches \<open>spawn\<close> after it left starts it again from what it read,
  as a lobby, while the database has it as ended.
\<close>

theorem ended_room_comes_back:
  "server_steps demo_deps (new_server demo_db ()) demo_revived \<and>
   lookup ''r'' demo_revived = Some 1 \<and>
   map_option (\<lambda>i. (r_status (lr_room i), lr_leaving i)) (sv_heap demo_revived 1) = Some (Lobby, False) \<and>
   map rr_status (tb_rooms (tabs (sv_store demo_revived))) = [Ended]"
proof (intro conjI)
  show "server_steps demo_deps (new_server demo_db ()) demo_revived"
    unfolding demo_revived_def by (intro run_get_steps run_leave_steps run_event_steps demo_stalled_reached)
  show "lookup ''r'' demo_revived = Some 1" by code_simp
  show "map_option (\<lambda>i. (r_status (lr_room i), lr_leaving i)) (sv_heap demo_revived 1) = Some (Lobby, False)" by code_simp
  show "map rr_status (tb_rooms (tabs (sv_store demo_revived))) = [Ended]" by code_simp
qed

subsection \<open>The whole program runs\<close>

text \<open>The steps taken above are steps of the program over the database.\<close>

lemma demo_ask_serves:
  "sv_gets sv i = None \<Longrightarrow> serving_steps pg d sv0 sv \<Longrightarrow>
   serving_steps pg d sv0 (sv\<lparr>sv_gets := (sv_gets sv)(i \<mapsto> GetLookup roomID)\<rparr>)"
  by (rule serving_steps.step [OF _ serving_step.ask])

lemma run_get_serves: "serving_steps pg d sv0 sv \<Longrightarrow> serving_steps pg d sv0 (run_get d i sv)"
  by (cases "sv_gets sv i")
    (auto simp: run_get_def split: prod.splits intro: serving_steps.step serving_step.get)

lemma run_event_serves:
  assumes "serving_steps pg d sv0 sv" "\<And>p. ev \<noteq> EvAddPlayer p"
  shows "serving_steps pg d sv0 (run_event d h ev sv)"
proof (cases "sv_heap sv h")
  case (Some i)
  then show ?thesis
    using assms serving_step.event [of sv h "lr_room i" d ev pg] live_room_eq [of i]
    by (cases "lr_leaving i") (auto simp: run_event_def intro: serving_steps.step)
qed (simp add: run_event_def assms)

definition demo_started :: "(db, unit) server" where
  "demo_started = run_event demo_deps 0 (EvNext ''a'') (run_event demo_deps 0 EvStart
     (fold (run_get demo_deps) [0, 0, 0, 0, 0] (demo_boot\<lparr>sv_gets := [0 \<mapsto> GetLookup ''r'']\<rparr>)))"

lemma demo_started_reached:
  "serving_steps (reliable demo_pg) demo_deps (new_server demo_db ()) demo_started"
proof -
  have "serving_steps (reliable demo_pg) demo_deps demo_boot (demo_boot\<lparr>sv_gets := [0 \<mapsto> GetLookup ''r'']\<rparr>)"
    using demo_ask_serves [OF _ serving_steps.refl, of demo_boot 0] by (simp add: demo_boot_def new_server_def)
  then have g: "serving_steps (reliable demo_pg) demo_deps demo_boot
      (fold (run_get demo_deps) is (demo_boot\<lparr>sv_gets := [0 \<mapsto> GetLookup ''r'']\<rparr>))" for "is"
    by (induction "is" rule: rev_induct) (auto intro: run_get_serves)
  show ?thesis
    unfolding demo_started_def demo_boot_def [symmetric] by (intro run_event_serves g) simp_all
qed

lemma demo_uuid_laws: "uuid_laws (reliable demo_pg)"
proof -
  have "inj demo_gen_uuid" by (rule injI) (metis demo_gen_uuid_def length_replicate nat.inject)
  then show ?thesis by (simp add: uuid_laws_def reliable_def demo_pg_def demo_uuid_parse_def demo_gen_uuid_def)
qed

lemma demo_rows_ok: "rows_ok (reliable demo_pg) demo_db"
  by (auto simp: rows_ok_def demo_db_def demo_room_row_def demo_player_row_def spent_def size_of_def row_in_range_def
      reliable_def demo_pg_def demo_uuid_parse_def demo_gen_uuid_def)

lemma demo_started_status:
  "map_option (\<lambda>i. (r_status (lr_room i), lr_leaving i)) (sv_heap demo_started 0) = Some (Running, False)"
  by code_simp


end
