(* ===== verification/Requests.thy ===== *)
theory Requests
  imports Scenes Router Connect Config Seed
begin

section \<open>Requests in the demo world\<close>

text \<open>
  The witnesses for the theorems on the endpoints, the connections, the results and the seeding, in
  the world of \<open>Scenario\<close> and \<open>Scenes\<close>: a JWT library that keeps its laws, a bcrypt that accepts a
  password for its own hash only, requests and frames as clients send them.
\<close>

subsection \<open>Tokens\<close>

text \<open>
  A token spells out secret, role, room, subject and time of issue (in unary); only claims that the
  token can carry are signed.
\<close>

definition bar :: char where "bar = CHR ''|''"

definition pack :: "string \<Rightarrow> claims \<Rightarrow> string" where
  "pack secret c = secret @ [bar] @ (if cm_role c = RoleHost then ''h'' else ''p'') @ [bar] @ cm_roomID c @ [bar] @
     cm_subject c @ [bar] @ replicate (nat (cm_issuedAt c)) (CHR ''i'')"

fun split_bars :: "string \<Rightarrow> string list" where
  "split_bars [] = [[]]"
| "split_bars (c # s) =
     (if c = bar then [] # split_bars s else case split_bars s of [] \<Rightarrow> [[c]] | p # ps \<Rightarrow> (c # p) # ps)"

definition unpack :: "string \<Rightarrow> string \<Rightarrow> claims option" where
  "unpack secret raw =
     (case split_bars raw of
        [s, r, room, subject, t] \<Rightarrow>
          if s \<noteq> secret then None
          else Some \<lparr>cm_role = (if r = ''h'' then RoleHost else RolePlayer), cm_roomID = room, cm_subject = subject,
            cm_issuedAt = int (length t),
            cm_expiresAt = int (length t) + (if r = ''h'' then hostTokenTTL else playerTokenTTL) div second\<rparr>
      | _ \<Rightarrow> None)"

definition demo_sign :: "string \<Rightarrow> claims \<Rightarrow> string option" where
  "demo_sign secret c = (if unpack secret (pack secret c) = Some c then Some (pack secret c) else None)"

definition demo_parse :: "string \<Rightarrow> time \<Rightarrow> string \<Rightarrow> claims option" where
  "demo_parse secret now raw =
     (case unpack secret raw of None \<Rightarrow> None | Some c \<Rightarrow> if now < cm_expiresAt c * second then Some c else None)"

definition demo_jwt :: jwt_lib where
  "demo_jwt = \<lparr>jwt_sign = demo_sign, jwt_parse = demo_parse\<rparr>"

lemma demo_jwt_laws: "jwt_laws demo_jwt"
  by (auto simp: jwt_laws_def demo_jwt_def demo_sign_def demo_parse_def split: if_splits)

definition demo_secret :: string where
  "demo_secret = ''k''"

lemma demo_issue:
  "IssueHost demo_jwt demo_secret 0 ''h'' = Some ''k|h||h|''"
  "IssuePlayer demo_jwt demo_secret 0 ''r'' ''a'' = Some ''k|p|r|a|''"
  by code_simp+

theorem issued_token_authenticates_witness:
  "speaks_for demo_jwt demo_secret ''k|h||h|'' (hostTokenTTL div second * second) RoleHost '''' ''h''"
  using issued_token_authenticates [OF demo_jwt_laws, of "''h''" demo_secret 0] demo_issue(1) by simp

subsection \<open>Schools\<close>

definition demo_school :: "int \<Rightarrow> string \<Rightarrow> school_row" where
  "demo_school i name = \<lparr>sr_id = i, sr_name = name, sr_jenjang = Some ''SMP'', sr_city = None, sr_verified = True\<rparr>"

definition demo_scored :: "uid \<Rightarrow> int \<Rightarrow> player_row" where
  "demo_scored i score = (demo_player_row i i)\<lparr>pr_schoolID := Some 1, pr_score := score, pr_finishedAt := Some 0\<rparr>"

definition demo_town :: db where
  "demo_town = demo_db\<lparr>tabs := (tabs demo_db)\<lparr>tb_schools := [demo_school 1 ''SMP 1'', demo_school 2 ''SMA''],
     tb_players := [demo_scored ''a'' 300, demo_scored ''b'' 100, demo_scored ''c'' 200]\<rparr>\<rparr>"

theorem SearchSchools_finds_witness:
  "\<exists>found d'. SearchSchools demo_pg ''smp'' demo_town = (Inr found, d') \<and>
     (\<exists>hits special. found = map school_of (take 20 hits) @ map school_of special \<and>
       mset hits = mset (filter (findable ''smp'') (tb_schools (tabs demo_town))))"
proof -
  have "\<not> isl (fst (SearchSchools demo_pg ''smp'' demo_town))" by code_simp
  then obtain found d' where e: "SearchSchools demo_pg ''smp'' demo_town = (Inr found, d')"
    by (cases "SearchSchools demo_pg ''smp'' demo_town"; cases "fst (SearchSchools demo_pg ''smp'' demo_town)") auto
  show ?thesis using SearchSchools_finds [OF e] e by blast
qed

theorem SchoolLeaderboard_ranks_witness:
  "\<exists>ranks d'. SchoolLeaderboard demo_pg demo_town = (Inr ranks, d') \<and> sorted (map (\<lambda>r. - sk_avgScore r) ranks)"
proof -
  have "\<not> isl (fst (SchoolLeaderboard demo_pg demo_town))"
    by (simp add: SchoolLeaderboard_def exec_def demo_pg_def demo_fault_def GetSchoolLeaderboard_def Let_def split: prod.split)
  then obtain ranks d' where e: "SchoolLeaderboard demo_pg demo_town = (Inr ranks, d')"
    by (cases "SchoolLeaderboard demo_pg demo_town"; cases "fst (SchoolLeaderboard demo_pg demo_town)") auto
  show ?thesis using SchoolLeaderboard_ranks [OF e] e by blast
qed


definition demo_rows :: "result_row list" where
  "demo_rows = [\<lparr>rw_rank = 1, rw_nickname = ''=1, '' @ [quote], rw_school = '''', rw_jenjang = ''SMP'',
     rw_score = 300, rw_correctCount = 2, rw_totalMs = 5000\<rparr>]"

theorem results_csv_reads_back_witness:
  "read_csv (writeResultsCSV demo_rows) = Some (csvHeader # map result_cells demo_rows)"
proof -
  have "\<forall>r \<in> set demo_rows. cr \<notin> set (rw_nickname r) \<and> cr \<notin> set (rw_school r) \<and> cr \<notin> set (rw_jenjang r)"
    by (simp add: demo_rows_def cr_def quote_def)
  then show ?thesis using results_csv_reads_back by blast
qed

subsection \<open>Seeding\<close>

definition demo_seed :: "seed_question list" where
  "demo_seed = [\<lparr>sq_id = ''M1-01'', sq_site = 1, sq_level = 2, sq_type = ''tf'',
     sq_prompt = \<lparr>t_id = ''P'', t_en = ''P''\<rparr>,
     sq_options = [\<lparr>o_id = ''opt-a'', o_label = \<lparr>t_id = ''B'', t_en = ''T''\<rparr>, o_correct = True\<rparr>,
                   \<lparr>o_id = ''opt-b'', o_label = \<lparr>t_id = ''S'', t_en = ''F''\<rparr>, o_correct = False\<rparr>],
     sq_explanation = \<lparr>t_id = ''E'', t_en = ''E''\<rparr>, sq_active = None\<rparr>]"

definition demo_csv :: "string list list" where
  "demo_csv = [[''name'', ''jenjang'', ''city''], ['' SMP 1 '', ''SMP'', '''']]"

definition demo_serial :: "nat \<Rightarrow> int" where
  "demo_serial n = int n"

lemma demo_seed_runs: "fst (seed_run demo_pg demo_serial demo_seed demo_csv False demo_db)"
  by code_simp

theorem seed_round_trip_witness:
  "\<exists>d'. seed_run demo_pg demo_serial demo_seed demo_csv False demo_db = (True, d') \<and>
     fst (QuestionsByIDs demo_pg [''M1-01''] d') = Inr [seeded demo_seed ''M1-01'']"
proof -
  obtain d' where e: "seed_run demo_pg demo_serial demo_seed demo_csv False demo_db = (True, d')"
    using demo_seed_runs by (cases "seed_run demo_pg demo_serial demo_seed demo_csv False demo_db") auto
  have i: "distinct (map qr_qid (tb_questions (tabs demo_db)))" by code_simp
  have "set [''M1-01''] \<subseteq> sq_id ` set demo_seed" by (simp add: demo_seed_def)
  then show ?thesis
    using seed_round_trip [OF e i, of "[''M1-01'']"] e by (simp add: demo_pg_def demo_fault_def)
qed

subsection \<open>Configuration\<close>

definition demo_env :: environment where
  "demo_env name = (if name = ''DATABASE_URL'' then ''postgres:'' else if name = ''RATE_LIMIT_JOIN_PER_MIN'' then Itoa 25 else '''')"

theorem config_reads_limit_witness:
  "\<exists>cfg. Load demo_env = Inr cfg \<and> cf_joinLimitPerMinute cfg = 25"
proof -
  have e: "demo_env ''RATE_LIMIT_JOIN_PER_MIN'' = Itoa 25" "demo_env ''DATABASE_URL'' \<noteq> ''''" by (simp_all add: demo_env_def)
  have n: "(0::int) \<le> 25 \<and> (25::int) < 2 ^ 63" by simp
  show ?thesis
  proof (cases "Load demo_env")
    case (Inl err)
    then have "\<forall>n. 0 \<le> n \<and> n < 2 ^ 63 \<longrightarrow> Itoa 25 \<noteq> Itoa n" using config_reads_limit [of demo_env] e by simp
    then show ?thesis using n by blast
  next
    case (Inr cfg)
    then have "cf_joinLimitPerMinute cfg = 25" using config_reads_limit [of demo_env] e n by simp
    then show ?thesis using Inr by blast
  qed
qed

subsection \<open>The server\<close>

definition demo_bcrypt :: "string \<Rightarrow> string \<Rightarrow> bool" where
  "demo_bcrypt hash password \<longleftrightarrow> hash = ''#'' @ password"

definition demo_hash :: "string \<Rightarrow> nat \<Rightarrow> string option" where
  "demo_hash password cost = Some (''#'' @ password)"

definition demo_limiter :: "unit limiter" where
  "demo_limiter = \<lparr>lm_client = None, lm_limit = 10, lm_window = minute, lm_now = demo_now\<rparr>"

definition demo_api_on :: "pg \<Rightarrow> (unit, unit) api" where
  "demo_api_on pg = \<lparr>a_pg = pg, a_deps = demo_deps\<lparr>d_store := store_ops pg\<rparr>, a_jwt = demo_jwt, a_secret = demo_secret,
     a_bcrypt = demo_bcrypt, a_dummyHash = ''#'', a_limiter = Some demo_limiter, a_trustProxy = False,
     a_publicBaseURL = ''http://x'', a_rng = (\<lambda>_. demo_draw), a_random = (\<lambda>_. demo_random)\<rparr>"

definition demo_world :: "db \<Rightarrow> (unit, unit) world" where
  "demo_world s = \<lparr>w_server = new_server s (), w_limits = \<lparr>li_windows = [], li_redis = (), li_tick = 0\<rparr>, w_calls = 0\<rparr>"

definition demo_request :: "string \<Rightarrow> string \<Rightarrow> json option \<Rightarrow> request" where
  "demo_request auth path body = \<lparr>rq_authorization = auth, rq_forwarded = '''', rq_remote = ''1.2.3.4:5'',
     rq_path = path, rq_query = '''', rq_body = body\<rparr>"

definition demo_login :: request where
  "demo_login = demo_request '''' '''' (Some (JObj [(''email'', JStr '' E ''), (''password'', JStr ''secret12'')]))"

definition demo_hosted :: db where
  "demo_hosted = demo_db\<lparr>tabs := (tabs demo_db)\<lparr>tb_hosts := [\<lparr>hr_id = ''h'', hr_email = ''e'',
     hr_passwordHash = ''#secret12'', hr_name = ''n'', hr_lastLoginAt = None\<rparr>]\<rparr>\<rparr>"

lemma demo_logs_in: "fst (fst (login (demo_api_on demo_pg) demo_login (demo_world demo_hosted))) = 200"
  by code_simp

theorem login_needs_password_witness:
  "\<exists>token. snd (fst (login (demo_api_on demo_pg) demo_login (demo_world demo_hosted))) = BToken token \<and>
     speaks_for demo_jwt demo_secret token (hostTokenTTL div second * second) RoleHost '''' ''h''"
proof -
  let ?a = "demo_api_on demo_pg" and ?w = "demo_world demo_hosted"
  obtain body w' where e: "login ?a demo_login ?w = ((200, body), w')"
    using demo_logs_in by (cases "login ?a demo_login ?w"; cases "fst (login ?a demo_login ?w)") auto
  have j: "jwt_laws (a_jwt ?a)" using demo_jwt_laws by (simp add: demo_api_on_def)
  have u: "uuid_parse (a_pg ?a) '''' = None" by code_simp
  have t: "time_now ?a ?w = 0" by code_simp
  have "h = \<lparr>hr_id = ''h'', hr_email = ''e'', hr_passwordHash = ''#secret12'', hr_name = ''n'', hr_lastLoginAt = None\<rparr>"
    if "h \<in> set (tb_hosts (tables_of ?w))" for h using that by (simp add: demo_world_def new_server_def demo_hosted_def)
  then show ?thesis
    using login_needs_password [OF j u e] e t by (fastforce simp: demo_api_on_def)
qed

definition demo_bare_env :: environment where
  "demo_bare_env name = (if name = ''DATABASE_URL'' then ''postgres:'' else '''')"

definition demo_registered :: db where
  "demo_registered = snd (createhost_run (\<lambda>_. True) demo_hash demo_bare_env demo_pg ''e'' ''Ibu E'' ''secret12'' demo_db)"

definition signing_api :: "(unit, unit) api" where
  "signing_api = demo_api_on demo_pg\<lparr>a_jwt := demo_jwt\<lparr>jwt_sign := (\<lambda>secret c. Some (pack secret c))\<rparr>\<rparr>"

theorem created_host_logs_in_witness:
  "\<exists>token w'. login signing_api demo_login (demo_world demo_registered) = ((200, BToken token), w')"
proof (rule created_host_logs_in)
  have pg: "a_pg signing_api = demo_pg" by (simp add: signing_api_def demo_api_on_def)
  show "calm (a_pg signing_api)" by (simp add: pg calm_def demo_pg_def demo_fault_def)
  have "fst (createhost_run (\<lambda>_. True) demo_hash demo_bare_env demo_pg ''e'' ''Ibu E'' ''secret12'' demo_db) = None"
    by code_simp
  then show "createhost_run (\<lambda>_. True) demo_hash demo_bare_env (a_pg signing_api) ''e'' ''Ibu E'' ''secret12'' demo_db =
      (None, sv_store (w_server (demo_world demo_registered)))"
    by (simp add: pg demo_registered_def demo_world_def new_server_def prod_eq_iff)
  have "list_all (\<lambda>h. uuid_parse demo_pg (hr_id h) \<noteq> None) (tb_hosts (tabs demo_registered))" by code_simp
  then show "\<forall>h \<in> set (tb_hosts (tables_of (demo_world demo_registered))). uuid_parse (a_pg signing_api) (hr_id h) \<noteq> None"
    by (simp add: pg list_all_iff demo_world_def new_server_def)
  show "decodeJSON login_fields zero_login demo_login = Some \<lparr>lg_email = '' E '', lg_password = ''secret12''\<rparr>"
    "normal_email '' E '' = normal_email ''e''" by code_simp+
qed (simp_all add: demo_hash_def signing_api_def demo_api_on_def demo_bcrypt_def split: if_splits)

subsection \<open>Joining\<close>

definition demo_joining :: request where
  "demo_joining = demo_request '''' ''123456'' (Some (JObj [(''nickname'', JStr '' Citra''), (''school_id'', JNull),
     (''jenjang'', JStr ''SMP''), (''avatar'', JNum 2), (''lang'', JStr ''id'')]))"

lemma demo_joins: "fst (fst (joinRoom (demo_api_on demo_pg) demo_joining (demo_world demo_db))) = 200"
  by code_simp

lemma joinRoom_200: "fst (fst (joinRoom a rq w)) = 200 \<Longrightarrow> \<exists>token w'. joinRoom a rq w = ((200, BPlayerToken token), w')"
  by (auto simp: joinRoom_def activeRoom_def handleJoinError_def bad_json_def room_not_found_def writeInvalid_def
      writeInternal_def writeError_def split: bool.splits prod.splits option.splits sum.splits if_splits)

lemma demo_world_store: "sv_store (w_server (demo_world s)) = s" "registry_inv (w_server (demo_world s))"
  by (simp_all add: demo_world_def registry_inv_new) (simp add: new_server_def)

lemma demo_api_fields:
  "a_pg (demo_api_on pg) = pg" "a_jwt (demo_api_on pg) = demo_jwt" "a_secret (demo_api_on pg) = demo_secret"
  "d_store (a_deps (demo_api_on pg)) = store_ops pg"
  by (simp_all add: demo_api_on_def)

lemma demo_ids: "gen_uuid demo_pg n \<noteq> ''''"
  by (simp add: demo_pg_def demo_gen_uuid_def)

lemma demo_room_ids: "\<forall>r \<in> set (tb_rooms (tabs demo_db)). uuid_parse demo_pg (rr_id r) = Some (rr_id r)"
  by (simp add: demo_db_def demo_room_row_def demo_pg_def demo_uuid_parse_def)

theorem join_seats_player_witness:
  "\<exists>token w' player h. joinRoom (demo_api_on demo_pg) demo_joining (demo_world demo_db) = ((200, BPlayerToken token), w') \<and>
     tb_players (tables_of w') = tb_players (tabs demo_db) @ [player] \<and> pr_nickname player = ''Citra'' \<and>
     seated h ''r'' (pr_id player) (w_server w')"
proof -
  obtain token w' where e: "joinRoom (demo_api_on demo_pg) demo_joining (demo_world demo_db) = ((200, BPlayerToken token), w')"
    using joinRoom_200 [OF demo_joins] by blast
  have n: "map_option jq_nickname (join_request_of demo_joining) = Some ''Citra''" by code_simp
  have laws: "jwt_laws (a_jwt (demo_api_on demo_pg))" "d_store (a_deps (demo_api_on demo_pg)) = store_ops (a_pg (demo_api_on demo_pg))"
    "\<forall>n. gen_uuid (a_pg (demo_api_on demo_pg)) n \<noteq> ''''"
    "\<forall>r \<in> set (tb_rooms (tables_of (demo_world demo_db))). uuid_parse (a_pg (demo_api_on demo_pg)) (rr_id r) = Some (rr_id r)"
    using demo_jwt_laws demo_ids demo_room_ids by (simp_all add: demo_api_fields demo_world_store)
  have r: "rr_id r = ''r''" if "r \<in> set (tb_rooms (tabs demo_db))" for r using that by (simp add: demo_db_def demo_room_row_def)
  obtain req room player h where "join_request_of demo_joining = Some req" "room \<in> set (tb_rooms (tables_of (demo_world demo_db)))"
      "tb_players (tables_of w') = tb_players (tables_of (demo_world demo_db)) @ [player]" "pr_nickname player = jq_nickname req"
      "seated h (rr_id room) (pr_id player) (w_server w')"
    using join_seats_player [OF laws(1,2) demo_world_store(2) laws(3,4) e] by blast
  then show ?thesis using e n r by (auto simp: demo_world_store)
qed


text \<open>The registry's read of the room fails once, after the transaction of the join.\<close>

definition demo_hiccup :: "nat \<Rightarrow> fault" where
  "demo_hiccup n = (if n = 6 then Fails else NoFault)"

definition demo_hiccup_pg :: pg where
  "demo_hiccup_pg = demo_pg\<lparr>fault := demo_hiccup\<rparr>"

definition demo_refused :: "response \<times> (unit, unit) world" where
  "demo_refused = joinRoom (demo_api_on demo_hiccup_pg) demo_joining (demo_world demo_db)"


subsection \<open>Exporting\<close>

definition demo_exporting :: request where
  "demo_exporting = demo_request ''Bearer k|h||h|'' ''r'' None"

lemma demo_exports: "fst (fst (requireHost (demo_api_on demo_pg) (exportResults (demo_api_on demo_pg)) demo_exporting (demo_world demo_db))) = 200"
  by code_simp

lemma export_200:
  assumes "fst (fst (requireHost a (exportResults a) rq w)) = 200"
  obtains name csv w' where "requireHost a (exportResults a) rq w = ((200, BCsv name csv), w')"
  using assms
  by (auto simp: requireHost_def exportResults_def writeInternal_def writeError_def
      split: prod.splits option.splits sum.splits if_splits)


subsection \<open>Connecting\<close>

definition demo_ws :: ws_config where
  "demo_ws = \<lparr>wc_jwt = demo_jwt, wc_secret = demo_secret, wc_anyOrigin = False, wc_origins = [''http://x'']\<rparr>"

definition demo_handshake :: handshake where
  "demo_handshake = \<lparr>hs_token = ''k|p|r|a|'', hs_room = '''', hs_origin = ''http://X'', hs_proper = True\<rparr>"

lemma demo_connects:
  "case fst (ServeHTTP demo_ws demo_deps demo_handshake 7 demo_boot) of
     Connected h c cl \<Rightarrow> asked_room demo_handshake c = ''r'' \<and> cm_role c = RolePlayer \<and> cm_subject c = ''a'' | _ \<Rightarrow> False"
  by code_simp

theorem connection_needs_seat_witness:
  "\<exists>h c sv'. ServeHTTP demo_ws demo_deps demo_handshake 7 demo_boot = (Connected h c (newClient RolePlayer), sv') \<and>
     (\<exists>i. sv_heap sv' h = Some i \<and> (lr_leaving i \<or> attached_as c 7 (lr_room i)))"
proof -
  obtain h c cl sv' where e: "ServeHTTP demo_ws demo_deps demo_handshake 7 demo_boot = (Connected h c cl, sv')"
    and r: "asked_room demo_handshake c = ''r''" "cm_role c = RolePlayer"
    using demo_connects
    by (cases "ServeHTTP demo_ws demo_deps demo_handshake 7 demo_boot") (auto split: connection.splits)
  have u: "uuid_parse (reliable demo_pg) (asked_room demo_handshake c) = Some (asked_room demo_handshake c)"
    using r(1) by (simp add: reliable_def demo_pg_def demo_uuid_parse_def)
  have "registry_inv demo_boot" unfolding demo_boot_def by (rule registry_inv_new)
  then show ?thesis using connection_needs_seat [OF demo_store _ u e] e r(2) by auto
qed

definition demo_frame :: "json option" where
  "demo_frame = Some (JObj [(''t'', JStr ''q.next'')])"

lemma demo_frame_heap: "sv_heap (snd (read_frame demo_deps 0 ''a'' demo_frame (newClient RolePlayer, demo_server))) 0 \<noteq> None"
  by code_simp

theorem peer_reaches_only_its_own_witness:
  "\<exists>inst'. sv_heap (snd (read_frame demo_deps 0 ''a'' demo_frame (newClient RolePlayer, demo_server))) 0 = Some inst' \<and>
     reach RolePlayer ''a'' (player_of (lr_room demo_live)) (player_of (lr_room inst'))"
proof -
  obtain c' sv' where e: "read_frame demo_deps 0 ''a'' demo_frame (newClient RolePlayer, demo_server) = (c', sv')" by fastforce
  then obtain inst' where i: "sv_heap sv' 0 = Some inst'" using demo_frame_heap by auto
  show ?thesis using peer_reaches_only_its_own [OF e demo_heap i] e i by (auto simp: newClient_def)
qed

definition demo_traffic :: "client_event list" where
  "demo_traffic = [FromRoom (Send (MPlayerKicked ''x'')), FromPeer (Some (JObj [(''t'', JStr ''ping'')])), Pump (Drain True)]"

theorem peer_sees_no_gap_witness:
  "client_taken (client_run RolePlayer ''a'' demo_traffic) = [MPlayerKicked ''x'', MPong]"
proof -
  have "\<not> c_closed (client_run RolePlayer ''a'' demo_traffic) \<and> \<not> c_gone (client_run RolePlayer ''a'' demo_traffic)"
    by code_simp
  moreover have "concat (map (meant RolePlayer ''a'') demo_traffic) = [MPlayerKicked ''x'', MPong]" by code_simp
  ultimately show ?thesis using peer_sees_no_gap [where role = RolePlayer and i = "''a''" and evs = demo_traffic] by simp
qed

subsection \<open>Creating a room\<close>

definition demo_bank_row :: "question_ref \<Rightarrow> question_row" where
  "demo_bank_row q = (demo_question_row (qr_id q) (qr_level q))\<lparr>qr_qsite := qr_site q\<rparr>"

definition demo_bank :: db where
  "demo_bank = demo_db\<lparr>tabs := (tabs demo_db)\<lparr>tb_questions := map demo_bank_row example_pool\<rparr>\<rparr>"

definition demo_creating :: request where
  "demo_creating = demo_request ''Bearer k|h||h|'' '''' (Some (JObj [(''jenjang'', JStr ''SMA''),
     (''consent_confirmed'', JBool True)]))"

lemma example_pool_ids: "distinct (map qr_id example_pool)"
  by (auto simp: example_pool_def distinct_map inj_on_def dest: arg_cong [where f = length])

lemma demo_bank_pool: "QuestionPool demo_pg demo_bank = (Inr example_pool, demo_bank\<lparr>trips := 1\<rparr>)"
proof -
  have "\<forall>q \<in> set example_pool. 1 \<le> qr_site q \<and> qr_site q \<le> 5" by (auto simp: example_pool_def)
  then have f: "filter (\<lambda>q. qr_active q \<and> 1 \<le> qr_qsite q \<and> qr_qsite q \<le> 5) (map demo_bank_row example_pool) = map demo_bank_row example_pool"
    by (intro filter_True) (simp add: demo_bank_row_def demo_question_row_def)
  show ?thesis
    by (simp add: QuestionPool_def ListSelectableQuestions_def exec_def demo_bank_def demo_pg_def demo_fault_def f Let_def
        o_def demo_bank_row_def demo_question_row_def) (simp add: demo_db_def map_idI)
qed

lemma demo_bank_creates:
  assumes "nr_hostID i = ''h''" "nr_jenjang i = ''SMA''" "tb_rooms (tabs d) = [demo_room_row]" "map hr_id (tb_hosts (tabs d)) = [''h'']"
  shows "\<exists>room d'. CreateRoom demo_pg demo_random i d = (Inr room, d')"
proof -
  have "insertRoom demo_pg ''h'' ''123456'' i d = (Inl (Driver UniqueViolation), d\<lparr>trips := trips d + 4\<rparr>)"
    using assms by (auto simp: insertRoom_def tx_begin_def tx_exec_def CountActiveRooms_def InsertRoom_def MaxActiveRooms_def
       demo_pg_def demo_fault_def demo_room_row_def)
  moreover have "\<exists>room d'. insertRoom demo_pg ''h'' ''123457'' i (d\<lparr>trips := trips d + 4\<rparr>) = (Inr room, d')"
    using assms by (auto simp: insertRoom_def tx_begin_def tx_exec_def tx_commit_def CountActiveRooms_def InsertRoom_def MaxActiveRooms_def
       demo_pg_def demo_fault_def demo_room_row_def demo_gen_uuid_def Let_def numeral_Bit0 numeral_Bit1)
  moreover have "map demo_random [0..<pinAttempts] = demo_random 0 # demo_random (Suc 0) # map demo_random [2..<pinAttempts]"
  proof -
    have "[0..<pinAttempts] = 0 # 1 # [2..<pinAttempts]" by code_simp
    then show ?thesis by simp
  qed
  moreover have "uuid_parse demo_pg (nr_hostID i) = Some ''h''" using assms(1) by (simp add: demo_pg_def demo_uuid_parse_def)
  ultimately show ?thesis by (auto simp: CreateRoom_def demo_pins)
qed



end
