(* ===== verification/Deployed.thy ===== *)
theory Deployed
  imports Requests Boot Middleware
begin

section \<open>The server and the seed command, started in the demo world\<close>

text \<open>
  The witnesses for the theorems on the commands, on starting the server and on the layers around the
  routes: a Postgres that answers at every URL, migrations that find nothing to do, no Redis.
\<close>

subsection \<open>Seeding from files\<close>

definition demo_pgx :: pgx_lib where
  "demo_pgx = \<lparr>px_new = (\<lambda>url. if url = '''' then None else Some demo_pg), px_ping = (\<lambda>_. True)\<rparr>"

definition demo_goose :: goose where
  "demo_goose = \<lparr>go_dialect = (\<lambda>s. s = ''postgres''), go_up = Pair None, go_down = Pair None,
     go_downTo = (\<lambda>_. Pair None), go_status = Pair None\<rparr>"

definition demo_files :: file_libs where
  "demo_files = \<lparr>fl_read = Some, fl_json = (\<lambda>_. Some (JArr (map question_json demo_seed))), fl_csv = (\<lambda>_. Some demo_csv)\<rparr>"

lemma demo_migrates: "Migrate demo_goose d = (None, d)"
  by (simp add: Migrate_def MigrateCommand_def demo_goose_def Let_def)

lemma demo_seed_command:
  "fst (seed_command demo_files demo_pgx demo_goose demo_serial demo_env ''q.json'' ''s.csv'' False demo_db) = None"
  by code_simp

theorem seed_file_reaches_players_witness:
  "\<exists>d'. seed_command demo_files demo_pgx demo_goose demo_serial demo_env ''q.json'' ''s.csv'' False demo_db = (None, d') \<and>
     fst (QuestionsByIDs demo_pg [''M1-01''] d') = Inr [seeded demo_seed ''M1-01'']"
proof -
  obtain d' where e: "seed_command demo_files demo_pgx demo_goose demo_serial demo_env ''q.json'' ''s.csv'' False demo_db = (None, d')"
    using demo_seed_command by (metis prod.collapse)
  have "fst (QuestionsByIDs demo_pg [''M1-01''] d') = Inr (map (seeded demo_seed) [''M1-01'']) \<and>
    (\<forall>i \<in> set [''M1-01'']. playable (seeded demo_seed i) \<and> q_id (seeded demo_seed i) = i)"
  proof (rule seed_file_reaches_players [OF _ _ _ e])
    show "fl_read demo_files ''q.json'' = Some ''q.json''" "fl_json demo_files ''q.json'' = Some (JArr (map question_json demo_seed))"
      by (simp_all add: demo_files_def)
    show "\<forall>q \<in> set demo_seed. int_range (sq_site q) \<and> int_range (sq_level q)"
      by (simp add: demo_seed_def int_range_def)
    show "px_new demo_pgx (demo_env ''DATABASE_URL'') = Some demo_pg" by (simp add: demo_pgx_def demo_env_def)
    have "distinct (map qr_qid (tb_questions (tabs demo_db)))" by code_simp
    then show "distinct (map qr_qid (tb_questions (tabs (snd (Migrate demo_goose demo_db)))))" by (simp add: demo_migrates)
    show "set [''M1-01''] \<subseteq> sq_id ` set demo_seed" by (simp add: demo_seed_def)
    show "fault demo_pg (trips d') = NoFault" by (simp add: demo_pg_def demo_fault_def)
  qed
  then show ?thesis using e by simp
qed

subsection \<open>A server in production\<close>

definition demo_libs :: "(unit, unit) libs" where
  "demo_libs = \<lparr>lb_px = demo_pgx, lb_goose = demo_goose, lb_redis = (\<lambda>_. None), lb_jwt = demo_jwt,
     lb_bcrypt = demo_bcrypt, lb_dummyHash = ''#'', lb_clock = demo_now, lb_shuffle = demo_draw,
     lb_rng = (\<lambda>_. demo_draw), lb_random = (\<lambda>_. demo_random)\<rparr>"

definition demo_production :: environment where
  "demo_production name =
     (if name = ''DATABASE_URL'' then ''postgres:'' else if name = ''ENV'' then ''production''
      else if name = ''JWT_SECRET'' then replicate 32 (CHR ''k'')
      else if name = ''PUBLIC_BASE_URL'' then ''http://x/'' else '''')"

lemma demo_config: "case Load demo_production of Inl _ \<Rightarrow> False | Inr cfg \<Rightarrow> cf_joinLimitPerMinute cfg = 10"
  by code_simp

lemma demo_origins:
  "case fst (server_start demo_libs demo_production demo_db) of Inl _ \<Rightarrow> False | Inr dp \<Rightarrow> dp_origins dp = [''http://x'']"
  by code_simp

lemma demo_server:
  obtains dp where "server_start demo_libs demo_production demo_db = (Inr dp, demo_db)" "dp_origins dp = [''http://x'']"
proof -
  obtain res d' where x: "server_start demo_libs demo_production demo_db = (res, d')" by fastforce
  obtain dp where dp: "res = Inr dp" "dp_origins dp = [''http://x'']" using demo_origins x by (auto split: sum.splits)
  have "Migrate (lb_goose demo_libs) demo_db = (None, d')"
    using x dp(1) by (metis server_startD)
  then have "d' = demo_db" by (simp add: demo_libs_def demo_migrates)
  then show ?thesis using that x dp by simp
qed

theorem server_starts_closed_witness:
  "\<exists>dp. server_start demo_libs demo_production demo_db = (Inr dp, demo_db) \<and> d_board (a_deps (dp_api dp)) = None \<and>
     fst (rest (dp_api dp) None (dp_origins dp) ''http://y'' ''GET'' [''api'', ''healthz''] demo_login (demo_world demo_db)) = []"
proof -
  obtain dp where dp: "server_start demo_libs demo_production demo_db = (Inr dp, demo_db)" "dp_origins dp = [''http://x'']"
    by (rule demo_server)
  have e: "demo_production ''REDIS_URL'' = ''''" "demo_production ''ENV'' \<notin> {'''', ''development''}"
    by (simp_all add: demo_production_def)
  note started = server_starts_closed [where libs = demo_libs and env = demo_production and d = demo_db, unfolded dp(1) prod.case sum.case]
  obtain headers resp w' where r: "rest (dp_api dp) None (dp_origins dp) ''http://y'' ''GET'' [''api'', ''healthz''] demo_login (demo_world demo_db) = (headers, resp, w')"
    by (metis prod.exhaust)
  have "headers = []"
  proof (rule ccontr)
    assume "headers \<noteq> []"
    then have "''http://y'' \<in> set (dp_origins dp)" using started r e(2) by blast
    then show False using dp(2) by simp
  qed
  moreover have "d_board (a_deps (dp_api dp)) = None" using started e(1) by blast
  ultimately show ?thesis using dp(1) r by auto
qed

definition demo_join_call :: http_call where
  "demo_join_call = \<lparr>hc_origin = '''', hc_method = ''POST'', hc_path = [''api'', ''rooms'', ''123456'', ''join''],
     hc_request = demo_joining\<rparr>"

theorem join_flood_is_refused_witness:
  "\<exists>dp l. server_start demo_libs demo_production demo_db = (Inr dp, demo_db) \<and> a_limiter (dp_api dp) = Some l \<and>
     int (length (filter (\<lambda>e. je_ip e = ''1.2.3.4'' \<and> je_status e \<noteq> 429 \<and> 0 \<le> je_time e \<and> je_time e < 0 + minute)
       (traffic (dp_api dp) None (dp_origins dp) l (replicate 30 demo_join_call) (demo_world demo_db)))) \<le> 20"
proof -
  obtain dp where dp: "server_start demo_libs demo_production demo_db = (Inr dp, demo_db)"
    by (rule demo_server)
  obtain cfg where cfg: "Load demo_production = Inr cfg" "cf_joinLimitPerMinute cfg = 10"
    using demo_config by (auto split: sum.splits)
  obtain l where l: "a_limiter (dp_api dp) = Some l" using dp by (metis server_startD)
  have "mono (lb_clock demo_libs)" by (simp add: demo_libs_def mono_def demo_now_def second_def millisecond_def)
  moreover have "demo_production ''REDIS_URL'' = ''''" by (simp add: demo_production_def)
  moreover have "w_limits (demo_world demo_db) = start_of ()" by (simp add: demo_world_def start_of_def)
  moreover have "\<forall>h. (None :: (unit, unit) handler option) = Some h \<longrightarrow> keeps_limits h" by simp
  ultimately show ?thesis
    using join_flood_is_refused [OF dp cfg(1) _ _ _ _ l, of None "demo_world demo_db" "()" "''1.2.3.4''" 0 "replicate 30 demo_join_call"]
      dp l cfg(2) by auto
qed

subsection \<open>A panic\<close>

theorem panic_is_answered_witness:
  "fst (fst (serve_http (take 2 (rest_calls [] (200, BStatus ''ok'')), Some ''nil''))) = 200 \<and>
   (\<exists>h. serve_http ([], Some ''nil'') = ((500, h, [BError ''INTERNAL'' ''internal error'']),
     [LogError ''panic in handler'', LogPanic ''nil'']))"
proof -
  have r: "rest (demo_api_on demo_pg) None [] '''' ''GET'' [''api'', ''healthz''] demo_login (demo_world demo_db) =
      ([], (200, BStatus ''ok''), demo_world demo_db)"
    by (simp add: rest_def cors_def NewRouter_def method_fits_def healthz_def)
  have p: "[''api'', ''healthz''] \<noteq> [''ws'']" by simp
  have s: "list_ex speaks (take 2 (rest_calls [] (200, BStatus ''ok'')))" "\<not> list_ex speaks []"
    by (simp_all add: rest_calls_def writeJSON_def)
  show ?thesis using panic_is_answered [OF p r] s unfolding Let_def by blast
qed

end
