(* ===== verification/Spec2Isabelle.thy ===== *)
theory Spec2Isabelle
  imports Prelude Float64 Scoring Rank Selector StoreTypes Utf8 Db Store Room Play Session
    RoomInv PlayInv SessionInv Frame StoreInv Persist GameStore Gameplay Leaderboard RateLimit
    Registry Schools Results Csv Seed Auth Ws Api Endpoints Router Connect Config
    Serving Commands Boot Middleware Scenario Scenes Requests Deployed
begin

text \<open>
  Jejak Indera Sakti, backend: a quiz played in rooms of up to 15 pupils. A host creates a room
  over REST, pupils join with its PIN, and everybody connects over a WebSocket. Each live room is
  a goroutine that owns its state and takes one event at a time; the truth of record is in
  Postgres, a Redis sorted set orders the leaderboard and is disposable.

  The parts, from the bottom up, with the sources under \<open>src/api/internal\<close>:

  \<^item> \<open>Prelude\<close>: durations, Go maps as association lists, \<open>rand.Shuffle\<close>.
  \<^item> \<open>Float64\<close>, \<open>Scoring\<close> (\<open>game/scoring.go\<close>): binary64 arithmetic with rounding to even; the
    points of an answer. The computation is compared with the exact formula of the documents.
  \<^item> \<open>Rank\<close> (\<open>rank/rank.go\<close>): the sort key in one float64 and the order of the players, which
    refines the lexicographic order of the three criteria.
  \<^item> \<open>Utf8\<close>: strings as bytes, trimming, control characters, decimal numbers.
  \<^item> \<open>Selector\<close> (\<open>game/selector.go\<close>): drawing the questions of a room; the nested loops are one
    pass over a flat schedule of cells.
  \<^item> \<open>StoreTypes\<close>, \<open>Db\<close>, \<open>Store\<close> (\<open>store/*.go\<close>, \<open>store/queries/*.sql.go\<close>): tables, statements
    with their constraints, transactions over round trips that may fail or lose their
    acknowledgement, and the operations of \<open>store.Store\<close>.
  \<^item> \<open>Room\<close>, \<open>Play\<close>, \<open>Session\<close> (\<open>game/room.go\<close>, \<open>game/play.go\<close>): the state of a room, the
    interfaces it uses (\<open>Store\<close>, \<open>Board\<close>, \<open>Sink\<close>), serving, answering, timeouts, leaderboard,
    connections, and the loop of the goroutine as a step relation on events.
  \<^item> \<open>Registry\<close> (\<open>game/registry.go\<close>): the map of live rooms. \<open>Get\<close> is a machine whose steps
    interleave with other requests and with the events of the rooms; \<open>server\<close> is its state.
  \<^item> \<open>Leaderboard\<close> (\<open>leaderboard/redis.go\<close>), \<open>RateLimit\<close> (\<open>ratelimit/limiter.go\<close>): the board of
    a room in Redis, and the limiter with its counters in Redis and in memory.
  \<^item> \<open>Schools\<close>, \<open>Results\<close>, \<open>Csv\<close> (\<open>store/store.go\<close>, \<open>store/results.go\<close>, \<open>http/results.go\<close>): the
    search for a school, the final standings, the leaderboard of the schools, the exported file.
  \<^item> \<open>Seed\<close> (\<open>seed/*.go\<close>, \<open>cmd/seed\<close>): validation of the question bank and the transaction that
    stores it. \<open>Config\<close> (\<open>config/config.go\<close>, \<open>cmd/createhost\<close>): settings, registering a host.
    \<open>Commands\<close> (\<open>store/db.go\<close>, \<open>cmd/migrate\<close>, \<open>cmd/createhost\<close>, \<open>cmd/seed\<close>): opening and
    migrating the database, reading the files, the commands as a whole.
  \<^item> \<open>Auth\<close> (\<open>auth/tokens.go\<close>), \<open>Api\<close>, \<open>Router\<close> (\<open>http/*.go\<close>): tokens, every REST handler as a
    function from a request and the server (\<open>world\<close>) to a response and the new server, the guard
    \<open>requireHost\<close>, CORS and the table of routes. \<open>Middleware\<close> (\<open>http/middleware.go\<close>): the layers
    that log requests and recover from panics, over the writer of net/http.
  \<^item> \<open>Ws\<close>, \<open>Connect\<close> (\<open>ws/client.go\<close>, \<open>ws/handler.go\<close>): a client with its bounded queue and its
    write pump, the dispatch of frames, and the handler that attaches a client to its room.
  \<^item> \<open>Boot\<close> (\<open>cmd/server\<close> and the constructors it calls): from the environment to the server.

  The parts meet in the state of the server: the handlers of \<open>Api\<close> and \<open>Connect\<close> act on the
  \<open>server\<close> of \<open>Registry\<close>, whose instances are the rooms of \<open>Session\<close> and whose store is the
  database of \<open>Store\<close>; a room's sinks are the clients of \<open>Ws\<close>. \<open>Serving\<close> is the step relation of
  all of it over one database: \<open>Get\<close>s, events, ends of rooms and writes of handlers in any order.

  What the lemmas show:

  \<^item> \<open>RoomInv\<close>, \<open>PlayInv\<close>, \<open>SessionInv\<close>: the invariant of a room and its preservation by every
    event, so in every reachable state.
  \<^item> \<open>StoreInv\<close>: the effect of each operation of the store, faults included, and the limits (rooms,
    players, PINs, nicknames, answers) that hold whatever operations interleave.
  \<^item> \<open>Persist\<close>, \<open>GameStore\<close>: the contract of a room with its store as the locale \<open>game_store\<close>, its
    consequence that memory and record never differ, and the interpretation on the database store.
  \<^item> \<open>Gameplay\<close>: what players see of answers, timeouts, failures, serving and the end of a game.
  \<^item> \<open>Frame\<close>: the locale \<open>player_frame\<close>, for relations that the events of one player keep; with it,
    that no event of a player changes another, and that a room's status only moves on.
  \<^item> \<open>Leaderboard\<close>, \<open>RateLimit\<close>, \<open>Registry\<close>: the ranking shown is the ranking of the totals, the
    limiter lets at most twice its limit pass, one live instance per room, what \<open>Get\<close> answers.
  \<^item> \<open>Ws\<close>: the locale \<open>game_sink\<close>, what a room may rely on of its sinks, and the client as an
    instance; the peer sees an unbroken first part of what was meant for it.
  \<^item> \<open>Endpoints\<close>, \<open>Router\<close>, \<open>Connect\<close>, \<open>Config\<close>: the components composed. Who gets a token, whose
    room it is, where a joined player sits, who may download results, what a request without a
    host's token can change at most, what a connection can reach, the shape of every answer.
  \<^item> \<open>Csv\<close>, \<open>Results\<close>, \<open>Schools\<close>, \<open>Seed\<close>: the file reads back, its order is the live order, a search
    finds what contains the text typed, the bank comes back out of the database as it went in.
  \<^item> \<open>Serving\<close>: the locale \<open>room_writer\<close>, what a room asks of a property of the store to keep it,
    and one invariant for the rooms and the database together: rooms are well-formed because of what
    they were loaded from, and the rows are because rooms only write what is.
  \<^item> \<open>Commands\<close>, \<open>Boot\<close>, \<open>Middleware\<close>: what the operator wrote is what players get; a setting is
    followed from the environment to the behaviour of the server started with it (its secret, its
    origins, its join limit under any traffic); the layers pass answers on and answer for panics.
  \<^item> \<open>Scenario\<close>, \<open>Scenes\<close>, \<open>Requests\<close>, \<open>Deployed\<close>: a concrete database, game, server and requests on which the
    theorems are applied.

  Conventions and bounds. The clock, the random generators and the faults of the server are streams
  with a position in the state, so a theorem about all streams is about all of them. Go's \<open>int\<close> is
  \<open>int\<close>: \<open>room_inv\<close> bounds every total by \<open>1250\<close> points and \<open>31250\<close> ms per question, of which there
  are at most 15, far below \<open>2^31\<close>; where the code narrows (\<open>toInt16\<close>, \<open>toInt32\<close>) the clamping is
  in the model and shown to change nothing. Every loop of the source that is modelled is structural
  recursion over a list. Fuel is used only by the reader of CSV files in \<open>Csv\<close> (the length of the text is enough).

  Not modelled: the log except for the lines of \<open>Middleware\<close>, the ping of Redis (only the log hears
  of it), closing pools and clients, the deadlines of connections and of the shutdown, \<open>main\<close>; the
  generated glue \<open>store/queries/db.go\<close> and the embedded migrations, which stand in \<open>Db\<close> as constraints.
  No handler or event of the model panics. The HTTP, WebSocket, JWT, bcrypt, Redis, migration and SQL
  libraries are parameters or, where their documented behaviour is simple, part of the statements; the
  wire encoding of JSON is a datatype of values. The deadline of a context is a call that fails.
  Transactions are serial (see \<open>Db\<close>). The handlers take their calls to the store and the registry
  one after the other; the interleavings of requests are those of \<open>StoreInv\<close> (\<open>store_steps\<close>),
  \<open>Registry\<close> (\<open>server_steps\<close>) and \<open>Serving\<close> (\<open>serving_steps\<close>). Letters are folded to lower
  case in ASCII only.
\<close>

end
